(* ===== verification/Fg_Prelude.thy ===== *)
theory Fg_Prelude
  imports Main "HOL-Library.Word"
begin

text \<open>
  Shared vocabulary of the development: the fixed-width integer types, the error channel
  \<open>Result<T>\<close> of \<open>include/fileguard/core_utils.hpp\<close>, decimal rendering
  (\<open>std::to_string\<close>), \<open>trim\<close>, and the generic facts about lists and strings that the
  component theories use. Strings are byte strings (\<open>std::string\<close>), so \<open>char list\<close>.
\<close>

section \<open>Types\<close>

type_synonym u8 = "8 word"
type_synonym u32 = "32 word"
type_synonym u64 = "64 word"

text \<open>\<open>int32_t\<close> and \<open>int64_t\<close> are words read through \<open>sint\<close>.\<close>

type_synonym i32 = "32 word"
type_synonym i64 = "64 word"

text \<open>\<open>Result<T> = std::expected<T, std::string>\<close>; \<open>ok\<close> is \<open>Inr\<close>, \<open>err\<close> is \<open>Inl\<close>.\<close>

type_synonym 'a result = "string + 'a"

text \<open>A computation that may also leave through a C++ exception (its \<open>what()\<close> text).\<close>

datatype 'a outcome = Returns 'a | Throws string

text \<open>Collections of rules: the operations of the model, and their branch equations.\<close>

named_theorems fg_defs \<open>definitions of the operations\<close>
named_theorems fg_inv \<open>preservation lemmas of the component invariants\<close>

section \<open>Sequencing\<close>

definition obind :: "'a outcome \<Rightarrow> ('a \<Rightarrow> 'b outcome) \<Rightarrow> 'b outcome" where
  "obind m f = (case m of Returns x \<Rightarrow> f x | Throws e \<Rightarrow> Throws e)"

lemma obind_simps [simp]:
  "obind (Returns x) f = f x"
  "obind (Throws e) f = Throws e"
  by (simp_all add: obind_def)

lemma obind_eq_Returns:
  "obind m f = Returns y \<longleftrightarrow> (\<exists>x. m = Returns x \<and> f x = Returns y)"
  by (cases m) auto

text \<open>
  A function that returns \<open>Result<T>\<close> and may throw: \<open>rbind\<close> is the early return on an
  error (\<open>if (!x) return err(x.error())\<close>) with exceptions passing through.
\<close>

definition rbind ::
  "'a result outcome \<Rightarrow> ('a \<Rightarrow> 'b result outcome) \<Rightarrow> 'b result outcome" where
  "rbind m f = (case m of Throws e \<Rightarrow> Throws e
     | Returns (Inl e) \<Rightarrow> Returns (Inl e) | Returns (Inr x) \<Rightarrow> f x)"

lemma rbind_simps [simp]:
  "rbind (Throws e) f = Throws e"
  "rbind (Returns (Inl m)) f = Returns (Inl m)"
  "rbind (Returns (Inr x)) f = f x"
  by (simp_all add: rbind_def)

lemma rbind_eq_Inr:
  "rbind m f = Returns (Inr y) \<longleftrightarrow> (\<exists>x. m = Returns (Inr x) \<and> f x = Returns (Inr y))"
  by (auto simp: rbind_def split: outcome.splits sum.splits)

lemma Inr_not_Inl_iff: "(\<forall>e. r \<noteq> Inl e) \<longleftrightarrow> (\<exists>x. r = Inr x)"
  by (cases r) auto

lemma unit_result_cases: "(r :: unit result) = Inr () \<or> (\<exists>m. r = Inl m)"
  by (cases r) auto

section \<open>Strings\<close>

text \<open>A string in single quotes, as the error messages print paths.\<close>

definition quoted :: "string \<Rightarrow> string" where
  "quoted s = CHR 0x27 # s @ [CHR 0x27]"

text \<open>The UTF-8 bytes of the dash used in some messages.\<close>

abbreviation em_dash :: string where
  "em_dash \<equiv> [CHR 0xE2, CHR 0x80, CHR 0x94]"

abbreviation newline :: char where
  "newline \<equiv> CHR 0x0A"

text \<open>\<open>path.empty() || path.front() != '/'\<close> negated.\<close>

definition absolute :: "string \<Rightarrow> bool" where
  "absolute p \<longleftrightarrow> p \<noteq> [] \<and> hd p = CHR ''/''"

lemma absolute_not_empty [simp]: "\<not> absolute []"
  by (simp add: absolute_def)

lemma absolute_Cons [simp]: "absolute (c # p) \<longleftrightarrow> c = CHR ''/''"
  by (simp add: absolute_def)

subsection \<open>Decimal rendering\<close>

definition digit_char :: "nat \<Rightarrow> char" where
  "digit_char d = char_of (48 + d)"

fun show_nat :: "nat \<Rightarrow> string" where
  "show_nat n = (if n < 10 then [digit_char n]
     else show_nat (n div 10) @ [digit_char (n mod 10)])"

declare show_nat.simps [simp del]

definition show_u32 :: "u32 \<Rightarrow> string" where
  "show_u32 w = show_nat (unat w)"

definition show_u64 :: "u64 \<Rightarrow> string" where
  "show_u64 w = show_nat (unat w)"

definition show_int :: "int \<Rightarrow> string" where
  "show_int i = (if i < 0 then CHR ''-'' # show_nat (nat (- i)) else show_nat (nat i))"

definition is_digit :: "char \<Rightarrow> bool" where
  "is_digit c \<longleftrightarrow> of_char c \<in> {48..57::nat}"

lemma digit_char_inj: "d < 10 \<Longrightarrow> e < 10 \<Longrightarrow> digit_char d = digit_char e \<longleftrightarrow> d = e"
  by (auto simp: digit_char_def of_char_of take_bit_eq_mod
           dest!: arg_cong [where f = "of_char :: char \<Rightarrow> nat"])

lemma digit_char_is_digit: "d < 10 \<Longrightarrow> is_digit (digit_char d)"
  by (simp add: is_digit_def digit_char_def take_bit_nat_eq_self_iff)

lemma show_nat_digits: "c \<in> set (show_nat n) \<Longrightarrow> is_digit c"
  by (induction n rule: show_nat.induct)
     (subst (asm) (2) show_nat.simps, auto split: if_splits intro: digit_char_is_digit)

lemma show_nat_nonempty [simp]: "show_nat n \<noteq> []" "[] \<noteq> show_nat n"
  by (subst show_nat.simps, simp)+

lemma show_nat_not_colon [simp]: "CHR '':'' \<notin> set (show_nat n)"
  using show_nat_digits [of "CHR '':''" n] by (auto simp: is_digit_def)

lemma show_nat_small: "n < 10 \<Longrightarrow> show_nat n = [digit_char n]"
  by (subst show_nat.simps) simp

lemma show_nat_big: "\<not> n < 10 \<Longrightarrow> show_nat n = show_nat (n div 10) @ [digit_char (n mod 10)]"
  by (subst show_nat.simps) simp

lemma show_nat_inj: "show_nat n = show_nat m \<longleftrightarrow> n = m"
proof (induction n arbitrary: m rule: show_nat.induct)
  case (1 n)
  show ?case
  proof (cases "n < 10"; cases "m < 10")
    assume "\<not> n < 10" "\<not> m < 10"
    moreover have "n = m \<longleftrightarrow> n div 10 = m div 10 \<and> n mod 10 = m mod 10"
      by (metis mult_div_mod_eq)
    ultimately show ?thesis
      using 1 [of "m div 10"] by (simp add: show_nat_big digit_char_inj)
  qed (auto simp: show_nat_small show_nat_big digit_char_inj)
qed

lemma show_nat_length: "n < 10 ^ k \<Longrightarrow> 0 < k \<Longrightarrow> length (show_nat n) \<le> k"
proof (induction k arbitrary: n)
  case 0
  then show ?case by simp
next
  case (Suc k)
  show ?case
  proof (cases "n < 10")
    case False
    then have "n div 10 < 10 ^ k" using Suc.prems by (simp add: less_mult_imp_div_less mult.commute)
    moreover from False Suc.prems have "0 < k" by (cases k) auto
    ultimately show ?thesis using Suc.IH False by (simp add: show_nat_big)
  qed (simp add: show_nat_small)
qed

subsection \<open>Splitting at a separator\<close>

lemma split_at_first:
  assumes "xs @ c # ys = xs' @ c # ys'" and "c \<notin> set xs" and "c \<notin> set xs'"
  shows "xs = xs' \<and> ys = ys'"
  using assms
proof (induction xs arbitrary: xs')
  case Nil
  then show ?case by (cases xs') auto
next
  case (Cons x xs)
  then show ?case by (cases xs') auto
qed

subsection \<open>\<open>trim\<close>\<close>

text \<open>\<open>find_first_not_of\<close> and \<open>find_last_not_of\<close> over the four blanks of \<open>trim\<close>.\<close>

definition blank :: "char \<Rightarrow> bool" where
  "blank c \<longleftrightarrow> c \<in> {CHR '' '', CHR 0x09, CHR 0x0D, CHR 0x0A}"

fun find_first_not_of :: "string \<Rightarrow> nat option" where
  "find_first_not_of [] = None"
| "find_first_not_of (c # cs) =
     (if blank c then map_option Suc (find_first_not_of cs) else Some 0)"

fun find_last_not_of :: "string \<Rightarrow> nat option" where
  "find_last_not_of [] = None"
| "find_last_not_of (c # cs) =
     (case find_last_not_of cs of Some i \<Rightarrow> Some (Suc i)
      | None \<Rightarrow> if blank c then None else Some 0)"

definition trim :: "string \<Rightarrow> string" where
  "trim s = (case (find_first_not_of s, find_last_not_of s) of
     (Some b, Some e) \<Rightarrow> take (e - b + 1) (drop b s) | _ \<Rightarrow> [])"

lemma find_first_None: "find_first_not_of s = None \<longleftrightarrow> (\<forall>c \<in> set s. blank c)"
  by (induction s) auto

lemma find_last_None: "find_last_not_of s = None \<longleftrightarrow> (\<forall>c \<in> set s. blank c)"
  by (induction s) (auto split: option.splits)

lemma find_first_drop: "find_first_not_of s = Some b \<Longrightarrow> drop b s = dropWhile blank s"
  by (induction s arbitrary: b) (auto split: if_splits)

lemma find_last_bound: "find_last_not_of s = Some e \<Longrightarrow> e < length s"
  by (induction s arbitrary: e) (auto split: option.splits if_splits)

lemma find_last_take:
  "find_last_not_of s = Some e \<Longrightarrow> take (Suc e) s = rev (dropWhile blank (rev s))"
proof (induction s arbitrary: e)
  case Nil
  then show ?case by simp
next
  case (Cons c s)
  show ?case
  proof (cases "find_last_not_of s")
    case None
    then have "dropWhile blank (rev s) = []" by (auto simp: find_last_None)
    with None Cons.prems show ?thesis
      by (auto simp: dropWhile_append split: if_splits)
  next
    case (Some i)
    then have "\<not> (\<forall>x \<in> set s. blank x)"
      by (metis find_last_None option.distinct(1))
    with Some Cons show ?thesis by (auto simp: dropWhile_append)
  qed
qed

lemma find_first_le_last:
  "find_first_not_of s = Some b \<Longrightarrow> find_last_not_of s = Some e \<Longrightarrow> b \<le> e"
  by (induction s arbitrary: b e) (auto split: option.splits if_splits simp: find_last_None)

section \<open>Loops with an early error return\<close>

text \<open>
  \<open>for (const auto& x : xs) { auto y = f(x); if (!y) return err(...); out.push_back(*y); }\<close>
\<close>

fun traverse :: "('a \<Rightarrow> 'e + 'b) \<Rightarrow> 'a list \<Rightarrow> 'e + 'b list" where
  "traverse f [] = Inr []"
| "traverse f (x # xs) =
     (case f x of Inl e \<Rightarrow> Inl e
      | Inr y \<Rightarrow> (case traverse f xs of Inl e \<Rightarrow> Inl e | Inr ys \<Rightarrow> Inr (y # ys)))"

lemma traverse_Inr_iff:
  "traverse f xs = Inr ys \<longleftrightarrow> list_all2 (\<lambda>x y. f x = Inr y) xs ys"
proof (induction xs arbitrary: ys)
  case Nil
  then show ?case by auto
next
  case (Cons a xs)
  show ?case
  proof (cases "f a")
    case (Inl e)
    then show ?thesis by (simp add: list_all2_Cons1)
  next
    case (Inr b)
    then show ?thesis using Cons [symmetric]
      by (cases "traverse f xs") (auto simp: list_all2_Cons1)
  qed
qed

lemma traverse_Inl_prefix:
  "\<forall>y \<in> set ys. \<exists>b. f y = Inr b \<Longrightarrow> f x = Inl e \<Longrightarrow> traverse f (ys @ x # zs) = Inl e"
  by (induction ys) (auto split: sum.splits)

lemma traverse_Inl_obtain:
  assumes "traverse f xs = Inl e"
  obtains ys x zs where "xs = ys @ x # zs" "f x = Inl e" "\<forall>y \<in> set ys. \<exists>b. f y = Inr b"
  using assms
proof (induction xs arbitrary: thesis)
  case Nil
  then show ?case by simp
next
  case (Cons a xs)
  show ?case
  proof (cases "f a")
    case (Inl e')
    with Cons.prems(2) have "f a = Inl e" by simp
    with Cons.prems(1) [of "[]" a xs] show ?thesis by simp
  next
    case (Inr b)
    with Cons.prems have "traverse f xs = Inl e" by (simp split: sum.splits)
    then obtain ys x zs where "xs = ys @ x # zs" "f x = Inl e" "\<forall>y \<in> set ys. \<exists>b. f y = Inr b"
      using Cons.IH by blast
    with Inr Cons.prems(1) [of "a # ys" x zs] show ?thesis by simp
  qed
qed

lemma traverse_length: "traverse f xs = Inr ys \<Longrightarrow> length ys = length xs"
  by (auto simp: traverse_Inr_iff dest: list_all2_lengthD)

section \<open>Runs and simulation\<close>

lemma funpow_split: "k \<le> n \<Longrightarrow> (f ^^ n) x = (f ^^ (n - k)) ((f ^^ k) x)"
  by (metis comp_apply funpow_add le_add_diff_inverse2)

text \<open>The finite runs of a step relation, with the labels in order.\<close>

inductive runs :: "('l \<Rightarrow> 's \<Rightarrow> 's \<Rightarrow> bool) \<Rightarrow> 'l list \<Rightarrow> 's \<Rightarrow> 's \<Rightarrow> bool" for step where
  runs_nil: "runs step [] s s"
| runs_snoc: "runs step ls s s' \<Longrightarrow> step l s' s'' \<Longrightarrow> runs step (ls @ [l]) s s''"

lemma runs_one: "step l s s' \<Longrightarrow> runs step [l] s s'"
  using runs_snoc [OF runs_nil, of step l s s'] by simp

lemma runs_nilD: "runs step [] s s' \<Longrightarrow> s' = s"
proof -
  assume "runs step [] s s'"
  then show ?thesis by (cases rule: runs.cases) auto
qed

lemma runs_oneD: "runs step [l] s s' \<Longrightarrow> step l s s'"
proof -
  assume "runs step [l] s s'"
  then show ?thesis by (cases rule: runs.cases) (auto dest: runs_nilD)
qed

lemma runs_append: "runs step ls' s' s'' \<Longrightarrow> runs step ls s s' \<Longrightarrow> runs step (ls @ ls') s s''"
proof (induction rule: runs.induct)
  case (runs_snoc ls' s' t l u)
  from runs.runs_snoc [OF runs_snoc.IH [OF runs_snoc.prems] runs_snoc.hyps(2)] show ?case by simp
qed simp

lemma runs_split_at:
  "runs step ls s s' \<Longrightarrow> l \<in> set ls \<Longrightarrow>
     \<exists>l1 l2 s1 s2. ls = l1 @ l # l2 \<and> runs step l1 s s1 \<and> step l s1 s2 \<and> runs step l2 s2 s'"
proof (induction rule: runs.induct)
  case (runs_snoc ls s s' k s'')
  show ?case
  proof (cases "l \<in> set ls")
    case True
    with runs_snoc.IH obtain l1 l2 s1 s2 where "ls = l1 @ l # l2" "runs step l1 s s1" "step l s1 s2" "runs step l2 s2 s'"
      by blast
    with runs.runs_snoc [OF this(4) runs_snoc.hyps(2)] show ?thesis
      by (intro exI [of _ l1] exI [of _ "l2 @ [k]"] exI [of _ s1] exI [of _ s2]) simp
  next
    case False
    with runs_snoc have "l = k" by simp
    with runs_snoc.hyps show ?thesis
      by (intro exI [of _ ls] exI [of _ "[]"] exI [of _ s'] exI [of _ s'']) (simp add: runs_nil)
  qed
qed simp

text \<open>A specification that can follow every step: \<open>trace\<close> says which labels of the specification a
  step may stand for.\<close>

locale simulation =
  fixes cstep :: "'l \<Rightarrow> 's \<Rightarrow> 's \<Rightarrow> bool"
    and spec :: "'m \<Rightarrow> 'a \<Rightarrow> 'a \<Rightarrow> bool"
    and trace :: "'l \<Rightarrow> 'm list \<Rightarrow> bool"
    and rel :: "'a \<Rightarrow> 's \<Rightarrow> bool"
  assumes followed: "cstep l s s' \<Longrightarrow> rel a s \<Longrightarrow> \<exists>ms a'. trace l ms \<and> runs spec ms a a' \<and> rel a' s'"
begin

lemma runs_followed:
  "runs cstep ls s s' \<Longrightarrow> rel a s \<Longrightarrow>
     \<exists>mss a'. list_all2 trace ls mss \<and> runs spec (concat mss) a a' \<and> rel a' s'"
proof (induction rule: runs.induct)
  case (runs_nil s)
  then show ?case by (intro exI [of _ "[]"] exI [of _ a]) (simp add: runs.runs_nil)
next
  case (runs_snoc ls s s' l s'')
  then obtain mss b where ih: "list_all2 trace ls mss" "runs spec (concat mss) a b" "rel b s'" by blast
  from followed [OF runs_snoc.hyps(2) ih(3)] obtain ms a' where
    "trace l ms" "runs spec ms b a'" "rel a' s''" by blast
  with ih runs_append [OF this(2) ih(2)] show ?case
    by (intro exI [of _ "mss @ [ms]"] exI [of _ a']) (simp add: list_all2_appendI)
qed

end

end
