(* ===== verification/Abi.thy ===== *)
theory Abi
  imports Fg_Prelude
begin

unbundle bit_operations_syntax

text \<open>
  The ABI shared by the kernel program and the controller (\<open>include/fileguard/abi.h\<close>) and the
  C++ file identity built on it (\<open>include/fileguard/file_id.hpp\<close>, with the hash of
  \<open>include/fileguard/path_resolver.hpp\<close>). The C structs are records whose fields are words
  of the C widths; \<open>FileId\<close> is the record \<open>file_id\<close>, with its order as an instance of the
  library's \<open>linorder\<close>.
\<close>

section \<open>\<open>abi.h\<close>\<close>

definition FG_MAX_COMM :: nat where "FG_MAX_COMM = 16"
definition FG_MAGIC :: u32 where "FG_MAGIC = 0x46474152"

definition FG_MAP_PROTECTED :: string where "FG_MAP_PROTECTED = ''fileguard_protected''"
definition FG_MAP_RULES :: string where "FG_MAP_RULES = ''fileguard_rules''"

definition FG_ACTION_ALLOW :: u32 where "FG_ACTION_ALLOW = 0"
definition FG_ACTION_DENY :: u32 where "FG_ACTION_DENY = 1"

definition FG_OP_OPEN :: u32 where "FG_OP_OPEN = 1"

definition FG_REASON_POLICY_RULE :: u8 where "FG_REASON_POLICY_RULE = 1"
definition FG_REASON_DEFAULT_DENY :: u8 where "FG_REASON_DEFAULT_DENY = 2"
definition FG_REASON_UNKNOWN_PROCESS :: u8 where "FG_REASON_UNKNOWN_PROCESS = 3"
definition FG_REASON_UNKNOWN_RESOURCE :: u8 where "FG_REASON_UNKNOWN_RESOURCE = 4"

lemmas fg_codes = FG_ACTION_ALLOW_def FG_ACTION_DENY_def FG_OP_OPEN_def
  FG_REASON_POLICY_RULE_def FG_REASON_DEFAULT_DENY_def FG_REASON_UNKNOWN_PROCESS_def
  FG_REASON_UNKNOWN_RESOURCE_def

record fileguard_file_id =
  abi_dev_major :: u32
  abi_dev_minor :: u32
  abi_ino :: u64

record fileguard_rule_key =
  key_res :: fileguard_file_id
  key_proc :: fileguard_file_id

record fileguard_rule_val =
  val_rule_id :: u32
  val_action :: u32
  val_operation :: u32
  val_reserved :: u32

record fileguard_protected_val =
  prot_reserved :: u8

record fileguard_config =
  conf_policy_version :: u32
  conf_enabled :: u32
  conf_reserved :: "u32 \<times> u32"

record fileguard_event =
  ev_magic :: u32
  ev_timestamp_ns :: u64
  ev_pid :: u32
  ev_tgid :: u32
  ev_uid :: u32
  ev_gid :: u32
  ev_res :: fileguard_file_id
  ev_proc :: fileguard_file_id
  ev_rule_id :: u32
  ev_operation :: u8
  ev_action :: u8
  ev_reason :: u8
  ev_pad :: u8
  ev_comm :: "char list" \<comment> \<open>\<open>char comm[FG_MAX_COMM]\<close>\<close>

text \<open>A zero-initialised struct, \<open>= {}\<close>.\<close>

definition zero_file_id :: fileguard_file_id where
  "zero_file_id = \<lparr>abi_dev_major = 0, abi_dev_minor = 0, abi_ino = 0\<rparr>"

definition zero_config :: fileguard_config where
  "zero_config = \<lparr>conf_policy_version = 0, conf_enabled = 0, conf_reserved = (0, 0)\<rparr>"

section \<open>\<open>FileId\<close>\<close>

record file_id =
  dev_major :: u32
  dev_minor :: u32
  ino :: u64

abbreviation FileId :: "u32 \<Rightarrow> u32 \<Rightarrow> u64 \<Rightarrow> file_id" where
  "FileId ma mi i \<equiv> \<lparr>dev_major = ma, dev_minor = mi, ino = i\<rparr>"

definition file_id_eq :: "file_id \<Rightarrow> file_id \<Rightarrow> bool" where
  "file_id_eq a b \<longleftrightarrow> dev_major a = dev_major b \<and> dev_minor a = dev_minor b \<and> ino a = ino b"

definition file_id_neq :: "file_id \<Rightarrow> file_id \<Rightarrow> bool" where
  "file_id_neq a b \<longleftrightarrow> \<not> file_id_eq a b"

definition file_id_less :: "file_id \<Rightarrow> file_id \<Rightarrow> bool" where
  "file_id_less a b =
     (if dev_major a \<noteq> dev_major b then dev_major a < dev_major b
      else if dev_minor a \<noteq> dev_minor b then dev_minor a < dev_minor b
      else ino a < ino b)"

definition file_id_valid :: "file_id \<Rightarrow> bool" where
  "file_id_valid f \<longleftrightarrow> ino f \<noteq> 0"

definition file_id_to_string :: "file_id \<Rightarrow> string" where
  "file_id_to_string f =
     show_u32 (dev_major f) @ '':'' @ show_u32 (dev_minor f) @ '':'' @ show_u64 (ino f)"

definition to_abi :: "file_id \<Rightarrow> fileguard_file_id" where
  "to_abi f = \<lparr>abi_dev_major = dev_major f, abi_dev_minor = dev_minor f, abi_ino = ino f\<rparr>"

definition from_abi :: "fileguard_file_id \<Rightarrow> file_id" where
  "from_abi i = \<lparr>dev_major = abi_dev_major i, dev_minor = abi_dev_minor i, ino = abi_ino i\<rparr>"

text \<open>\<open>FileIdHash\<close>; \<open>size_t\<close> is 64 bits wide on every supported target.\<close>

definition file_id_hash :: "file_id \<Rightarrow> u64" where
  "file_id_hash f = (ino f XOR push_bit 20 (ucast (dev_major f))) XOR push_bit 8 (ucast (dev_minor f))"

lemma file_id_eq_iff [simp]: "file_id_eq a b \<longleftrightarrow> a = b"
  by (auto simp: file_id_eq_def)

lemma from_to_abi [simp]: "from_abi (to_abi f) = f"
  by (simp add: from_abi_def to_abi_def)

lemma to_from_abi [simp]: "to_abi (from_abi i) = i"
  by (simp add: from_abi_def to_abi_def)

lemma to_abi_inj [simp]: "to_abi a = to_abi b \<longleftrightarrow> a = b"
  by (metis from_to_abi)

lemma abi_ino_to_abi [simp]: "abi_ino (to_abi f) = ino f"
  by (simp add: to_abi_def)

subsection \<open>The order of \<open>operator<\<close>\<close>

instantiation file_id_ext :: (linorder) linorder
begin

definition less_file_id_ext :: "'a file_id_ext \<Rightarrow> 'a file_id_ext \<Rightarrow> bool" where
  "less_file_id_ext a b \<longleftrightarrow>
     (if dev_major a \<noteq> dev_major b then dev_major a < dev_major b
      else if dev_minor a \<noteq> dev_minor b then dev_minor a < dev_minor b
      else if ino a \<noteq> ino b then ino a < ino b
      else file_id.more a < file_id.more b)"

definition less_eq_file_id_ext :: "'a file_id_ext \<Rightarrow> 'a file_id_ext \<Rightarrow> bool" where
  "less_eq_file_id_ext a b \<longleftrightarrow> a < b \<or> a = b"

instance
proof
  fix x y z :: "'a file_id_ext"
  show "x < y \<longleftrightarrow> x \<le> y \<and> \<not> y \<le> x"
    by (cases x; cases y)
       (auto simp: less_file_id_ext_def less_eq_file_id_ext_def split: if_splits)
  show "x \<le> x" by (simp add: less_eq_file_id_ext_def)
  show "x \<le> y \<Longrightarrow> y \<le> z \<Longrightarrow> x \<le> z"
    by (cases x; cases y; cases z)
       (auto simp: less_file_id_ext_def less_eq_file_id_ext_def split: if_splits)
  show "x \<le> y \<Longrightarrow> y \<le> x \<Longrightarrow> x = y"
    by (cases x; cases y)
       (auto simp: less_file_id_ext_def less_eq_file_id_ext_def split: if_splits)
  show "x \<le> y \<or> y \<le> x"
    by (cases x; cases y)
       (auto simp: less_file_id_ext_def less_eq_file_id_ext_def split: if_splits)
qed

end

lemma file_id_less_iff: "file_id_less a b \<longleftrightarrow> a < b"
  by (auto simp: file_id_less_def less_file_id_ext_def)

section \<open>Properties\<close>

text \<open>\<open>FileId::to_string\<close> separates identities: two file identities that render the same
  text are the same identity, so an event that falls back to the numeric form still names one
  file.\<close>

theorem file_id_to_string_inj:
  "file_id_to_string a = file_id_to_string b \<longleftrightarrow> a = b"
proof
  assume eq: "file_id_to_string a = file_id_to_string b"
  have maj: "show_u32 (dev_major a) = show_u32 (dev_major b) \<and>
      show_u32 (dev_minor a) @ '':'' @ show_u64 (ino a) =
      show_u32 (dev_minor b) @ '':'' @ show_u64 (ino b)"
    using eq by (intro split_at_first [where c = "CHR '':''"])
      (simp_all add: file_id_to_string_def show_u32_def)
  then have "show_u32 (dev_minor a) = show_u32 (dev_minor b) \<and> show_u64 (ino a) = show_u64 (ino b)"
    by (intro split_at_first [where c = "CHR '':''"]) (simp_all add: show_u32_def)
  with maj show "a = b"
    by (intro file_id.equality) (simp_all add: show_u32_def show_u64_def show_nat_inj word_unat_eq_iff)
qed simp

end
