(* ===== verification/Policy_Model.thy ===== *)
theory Policy_Model
  imports Abi
begin

text \<open>
  The policy vocabulary and the validated policy object: \<open>include/fileguard/policy.hpp\<close> and
  \<open>src/policy.cpp\<close>. The scoped enums have a fixed underlying type \<open>uint8_t\<close>, so a
  \<open>static_cast\<close> can make values outside the enumerators; they are the \<open>Raw\<close> constructors.
\<close>

section \<open>Vocabulary\<close>

datatype operation = Open | OpRaw u8
datatype action = Allow | Deny | ActRaw u8
datatype process_identity_type = ExePath | PidRaw u8

text \<open>\<open>static_cast\<close> from and to the underlying type.\<close>

definition operation_of_code :: "u8 \<Rightarrow> operation" where
  "operation_of_code w = (if w = 1 then Open else OpRaw w)"

fun operation_code :: "operation \<Rightarrow> u8" where
  "operation_code Open = 1"
| "operation_code (OpRaw w) = w"

definition action_of_code :: "u8 \<Rightarrow> action" where
  "action_of_code w = (if w = 0 then Allow else if w = 1 then Deny else ActRaw w)"

fun action_code :: "action \<Rightarrow> u8" where
  "action_code Allow = 0"
| "action_code Deny = 1"
| "action_code (ActRaw w) = w"

lemma operation_code_of_code [simp]: "operation_code (operation_of_code w) = w"
  by (simp add: operation_of_code_def)

lemma action_code_of_code [simp]: "action_code (action_of_code w) = w"
  by (simp add: action_of_code_def)

fun operation_name :: "operation \<Rightarrow> string" where
  "operation_name Open = ''OPEN''"
| "operation_name (OpRaw w) = ''?''"

fun action_name :: "action \<Rightarrow> string" where
  "action_name Allow = ''ALLOW''"
| "action_name Deny = ''DENY''"
| "action_name (ActRaw w) = ''DENY''"

record process_identity =
  pid_type :: process_identity_type
  pid_value :: string

record resource_identity =
  res_path :: string
  res_operation :: "operation option"

record policy_rule =
  rule_name :: string \<comment> \<open>the field \<open>id\<close>\<close>
  rule_resource :: resource_identity
  rule_process :: process_identity
  rule_operation :: operation
  rule_action :: action

record policy =
  pol_version :: i32
  pol_default_action :: action
  pol_resources :: "resource_identity list"
  pol_rules :: "policy_rule list"

definition empty_policy :: policy where
  "empty_policy = \<lparr>pol_version = 0, pol_default_action = Deny, pol_resources = [], pol_rules = []\<rparr>"

section \<open>\<open>Policy::validate\<close>\<close>

text \<open>
  The two loops of \<open>validate\<close>; the set argument is the loop's \<open>std::unordered_set\<close>, and the
  first loop hands \<open>protected_paths\<close> to the second.
\<close>

fun validate_resources ::
  "resource_identity list \<Rightarrow> string set \<Rightarrow> string set result" where
  "validate_resources [] paths = Inr paths"
| "validate_resources (res # rest) paths =
     (if res_path res = [] then
        Inl ''protected resource has an empty path''
      else if hd (res_path res) \<noteq> CHR ''/'' then
        Inl (''protected resource path must be absolute: '' @ quoted (res_path res))
      else if res_operation res \<noteq> None \<and> the (res_operation res) \<noteq> Open then
        Inl (''unsupported operation on protected resource '' @ quoted (res_path res) @
             '' (MVP supports OPEN only)'')
      else if res_path res \<in> paths then
        Inl (''duplicate protected resource: '' @ quoted (res_path res))
      else validate_resources rest (insert (res_path res) paths))"

fun validate_rules :: "string set \<Rightarrow> policy_rule list \<Rightarrow> string set \<Rightarrow> unit result" where
  "validate_rules paths [] ids = Inr ()"
| "validate_rules paths (rule # rest) ids =
     (if rule_name rule = [] then Inl ''rule has an empty id''
      else if rule_name rule \<in> ids then
        Inl (''duplicate rule id: '' @ quoted (rule_name rule))
      else if res_path (rule_resource rule) = [] \<or> hd (res_path (rule_resource rule)) \<noteq> CHR ''/'' then
        Inl (''rule '' @ quoted (rule_name rule) @ '' resource path must be absolute'')
      else if res_path (rule_resource rule) \<notin> paths then
        Inl (''rule '' @ quoted (rule_name rule) @ '' references resource '' @
             quoted (res_path (rule_resource rule)) @ '' which is not listed in protected_resources'')
      else if pid_type (rule_process rule) \<noteq> ExePath then
        Inl (''rule '' @ quoted (rule_name rule) @
             '' uses an unsupported process identity type (MVP: exe_path)'')
      else if pid_value (rule_process rule) = [] then
        Inl (''rule '' @ quoted (rule_name rule) @ '' has an empty process path'')
      else if rule_operation rule \<noteq> Open then
        Inl (''rule '' @ quoted (rule_name rule) @
             '' uses an unsupported operation (MVP supports OPEN only)'')
      else validate_rules paths rest (insert (rule_name rule) ids))"

definition validate :: "policy \<Rightarrow> unit result" where
  "validate p =
     (if sint (pol_version p) < 0 then Inl ''policy version must be non-negative''
      else case validate_resources (pol_resources p) {} of
          Inl e \<Rightarrow> Inl e
        | Inr protected_paths \<Rightarrow> validate_rules protected_paths (pol_rules p) {})"

section \<open>Lookups\<close>

fun is_protected_in :: "resource_identity list \<Rightarrow> string \<Rightarrow> bool" where
  "is_protected_in [] path = False"
| "is_protected_in (res # rest) path = (if res_path res = path then True else is_protected_in rest path)"

definition is_protected :: "policy \<Rightarrow> string \<Rightarrow> bool" where
  "is_protected p path = is_protected_in (pol_resources p) path"

fun find_rule_in ::
  "policy_rule list \<Rightarrow> string \<Rightarrow> process_identity \<Rightarrow> operation \<Rightarrow> policy_rule option" where
  "find_rule_in [] path proc op = None"
| "find_rule_in (rule # rest) path proc op =
     (if res_path (rule_resource rule) = path \<and> pid_type (rule_process rule) = pid_type proc \<and>
         pid_value (rule_process rule) = pid_value proc \<and> rule_operation rule = op
      then Some rule else find_rule_in rest path proc op)"

definition find_rule ::
  "policy \<Rightarrow> string \<Rightarrow> process_identity \<Rightarrow> operation \<Rightarrow> policy_rule option" where
  "find_rule p path proc op = find_rule_in (pol_rules p) path proc op"

section \<open>The invariant of a validated policy\<close>

text \<open>What \<open>validate\<close> promises, without its order of checks.\<close>

definition resource_wf :: "resource_identity \<Rightarrow> bool" where
  "resource_wf r \<longleftrightarrow> absolute (res_path r) \<and> res_operation r \<in> {None, Some Open}"

definition rule_wf :: "string set \<Rightarrow> policy_rule \<Rightarrow> bool" where
  "rule_wf paths r \<longleftrightarrow> rule_name r \<noteq> [] \<and> absolute (res_path (rule_resource r)) \<and>
     res_path (rule_resource r) \<in> paths \<and> pid_type (rule_process r) = ExePath \<and>
     pid_value (rule_process r) \<noteq> [] \<and> rule_operation r = Open"

definition protected_paths :: "policy \<Rightarrow> string set" where
  "protected_paths p = res_path ` set (pol_resources p)"

definition policy_wf :: "policy \<Rightarrow> bool" where
  "policy_wf p \<longleftrightarrow> 0 \<le> sint (pol_version p) \<and>
     (\<forall>r \<in> set (pol_resources p). resource_wf r) \<and>
     distinct (map res_path (pol_resources p)) \<and>
     (\<forall>r \<in> set (pol_rules p). rule_wf (protected_paths p) r) \<and>
     distinct (map rule_name (pol_rules p))"

lemma validate_resources_Inr:
  "validate_resources rs S = Inr S' \<longleftrightarrow>
     S' = S \<union> res_path ` set rs \<and> (\<forall>r \<in> set rs. resource_wf r) \<and>
     distinct (map res_path rs) \<and> res_path ` set rs \<inter> S = {}"
  by (induction rs S rule: validate_resources.induct)
     (auto simp: resource_wf_def absolute_def)

lemma validate_rules_Inr:
  "validate_rules P rs S = Inr () \<longleftrightarrow>
     (\<forall>r \<in> set rs. rule_wf P r) \<and> distinct (map rule_name rs) \<and> rule_name ` set rs \<inter> S = {}"
  by (induction P rs S rule: validate_rules.induct)
     (auto simp: rule_wf_def absolute_def)

lemma validate_iff_wf: "validate p = Inr () \<longleftrightarrow> policy_wf p"
proof (cases "validate_resources (pol_resources p) {}")
  case (Inl e)
  then have "\<not> ((\<forall>r \<in> set (pol_resources p). resource_wf r) \<and> distinct (map res_path (pol_resources p)))"
    using validate_resources_Inr [of "pol_resources p" "{}" "res_path ` set (pol_resources p)"] by simp
  with Inl show ?thesis by (auto simp: validate_def policy_wf_def)
next
  case (Inr S)
  then have "S = protected_paths p" "\<forall>r \<in> set (pol_resources p). resource_wf r"
    "distinct (map res_path (pol_resources p))"
    by (simp_all add: validate_resources_Inr protected_paths_def)
  with Inr show ?thesis
    by (simp add: validate_def policy_wf_def validate_rules_Inr not_less)
qed

lemma is_protected_in_iff: "is_protected_in rs path \<longleftrightarrow> path \<in> res_path ` set rs"
  by (induction rs path rule: is_protected_in.induct) auto

lemma is_protected_iff: "is_protected p path \<longleftrightarrow> path \<in> protected_paths p"
  by (simp add: is_protected_def is_protected_in_iff protected_paths_def)

definition rule_matches :: "string \<Rightarrow> process_identity \<Rightarrow> operation \<Rightarrow> policy_rule \<Rightarrow> bool" where
  "rule_matches path proc op r \<longleftrightarrow> res_path (rule_resource r) = path \<and>
     pid_type (rule_process r) = pid_type proc \<and>
     pid_value (rule_process r) = pid_value proc \<and> rule_operation r = op"

lemma find_rule_in_eq_find: "find_rule_in rs path proc op = find (rule_matches path proc op) rs"
  by (induction rs) (auto simp: rule_matches_def)

lemma find_rule_eq_find: "find_rule p path proc op = find (rule_matches path proc op) (pol_rules p)"
  by (simp add: find_rule_def find_rule_in_eq_find)

lemma find_split:
  "find P xs = Some x \<longleftrightarrow> (\<exists>ys zs. xs = ys @ x # zs \<and> P x \<and> filter P ys = [])"
proof
  show "find P xs = Some x \<Longrightarrow> \<exists>ys zs. xs = ys @ x # zs \<and> P x \<and> filter P ys = []"
  proof (induction xs)
    case (Cons a xs)
    show ?case
    proof (cases "P a")
      case False
      with Cons obtain ys zs where "xs = ys @ x # zs" "P x" "filter P ys = []" by auto
      with False have "a # xs = (a # ys) @ x # zs \<and> P x \<and> filter P (a # ys) = []" by simp
      then show ?thesis by blast
    next
      case True
      with Cons have "a # xs = [] @ x # xs \<and> P x \<and> filter P [] = []" by simp
      then show ?thesis by blast
    qed
  qed simp
next
  assume "\<exists>ys zs. xs = ys @ x # zs \<and> P x \<and> filter P ys = []"
  then obtain ys zs where "xs = ys @ x # zs" "P x" "filter P ys = []" by blast
  then show "find P xs = Some x" by (induction ys arbitrary: xs) (auto split: if_splits)
qed

section \<open>Properties\<close>

text \<open>\<open>validate\<close> accepts exactly the well-formed policies: a non-negative version; absolute,
  pairwise distinct resource paths, restricted to OPEN at most; and rules with non-empty pairwise
  distinct ids, each for OPEN of a listed resource by an executable path.\<close>

theorem validate_exact: "validate p = Inr () \<longleftrightarrow> policy_wf p"
  by (rule validate_iff_wf)

text \<open>\<open>find_rule\<close> returns the first matching rule in policy order, and the null pointer
  exactly when no rule matches.\<close>

theorem find_rule_first:
  "(find_rule p path proc op = Some r \<longleftrightarrow>
      (\<exists>before after. pol_rules p = before @ r # after \<and> rule_matches path proc op r \<and>
         filter (rule_matches path proc op) before = [])) \<and>
    (find_rule p path proc op = None \<longleftrightarrow> filter (rule_matches path proc op) (pol_rules p) = [])"
  by (simp add: find_rule_eq_find find_split filter_empty_conv find_None_iff) blast

end
