(* ===== verification/Policy_Compiler.thy ===== *)
theory Policy_Compiler
  imports Policy_Model
begin

text \<open>
  Compilation of a policy to file identities: \<open>include/fileguard/policy_compiler.hpp\<close> and
  \<open>src/policy_compiler.cpp\<close>. The injected \<open>FileResolver\<close> is a function argument; the default
  one, \<open>resolve_path_with_stat\<close>, is written over the C library's \<open>stat\<close>, \<open>major\<close>, \<open>minor\<close>
  and \<open>strerror\<close>, which are arguments of the model.
\<close>

record compiled_rule =
  cr_rule_id :: u32
  cr_resource :: file_id
  cr_process :: file_id
  cr_operation :: operation
  cr_action :: action

record compiled_policy =
  cp_version :: i32
  cp_protected_resources :: "file_id list"
  cp_rules :: "compiled_rule list"

type_synonym file_resolver = "string \<Rightarrow> file_id result"

section \<open>\<open>resolve_path_with_stat\<close>\<close>

record stat_buf =
  st_dev :: u64
  st_ino :: u64

text \<open>The C library as the code uses it: \<open>stat\<close> gives an \<open>errno\<close> or the buffer.\<close>

record libc =
  sys_stat :: "string \<Rightarrow> nat + stat_buf"
  dev_major_of :: "u64 \<Rightarrow> u32"
  dev_minor_of :: "u64 \<Rightarrow> u32"
  strerror :: "nat \<Rightarrow> string"

definition resolve_path_with_stat :: "libc \<Rightarrow> file_resolver" where
  "resolve_path_with_stat C path =
     (case sys_stat C path of
        Inl e \<Rightarrow> Inl (''cannot stat '' @ quoted path @ '': '' @ strerror C e)
      | Inr st \<Rightarrow> Inr \<lparr>dev_major = dev_major_of C (st_dev st),
                      dev_minor = dev_minor_of C (st_dev st), ino = st_ino st\<rparr>)"

section \<open>\<open>PolicyCompiler::compile\<close>\<close>

text \<open>The loop over the protected resources fills \<open>compiled.protected_resources\<close> and
  \<open>resolved_resources\<close>.\<close>

fun resolve_resources ::
  "file_resolver \<Rightarrow> resource_identity list \<Rightarrow> (file_id list \<times> (string \<times> file_id) list) result" where
  "resolve_resources R [] = Inr ([], [])"
| "resolve_resources R (res # rest) =
     (case R (res_path res) of
        Inl e \<Rightarrow> Inl e
      | Inr i \<Rightarrow>
          if \<not> file_id_valid i then
            Inl (''resolved zero inode for protected resource '' @ quoted (res_path res))
          else (case resolve_resources R rest of
                  Inl e \<Rightarrow> Inl e
                | Inr (ids, resolved) \<Rightarrow> Inr (i # ids, (res_path res, i) # resolved)))"

fun lookup_resolved :: "(string \<times> file_id) list \<Rightarrow> string \<Rightarrow> file_id option" where
  "lookup_resolved [] p = None"
| "lookup_resolved ((path, i) # rest) p = (if path = p then Some i else lookup_resolved rest p)"

fun compile_rules ::
  "file_resolver \<Rightarrow> (string \<times> file_id) list \<Rightarrow> u32 \<Rightarrow> policy_rule list \<Rightarrow> compiled_rule list result" where
  "compile_rules R resolved rule_index [] = Inr []"
| "compile_rules R resolved rule_index (rule # rest) =
     (case lookup_resolved resolved (res_path (rule_resource rule)) of
        None \<Rightarrow> Inl (''internal error: unresolved protected resource for rule '' @
                     quoted (rule_name rule))
      | Some res_id \<Rightarrow>
          (case R (pid_value (rule_process rule)) of
             Inl e \<Rightarrow> Inl e
           | Inr proc_id \<Rightarrow>
               if \<not> file_id_valid proc_id then
                 Inl (''resolved zero inode for process '' @ quoted (pid_value (rule_process rule)))
               else (case compile_rules R resolved (rule_index + 1) rest of
                       Inl e \<Rightarrow> Inl e
                     | Inr cs \<Rightarrow> Inr (\<lparr>cr_rule_id = rule_index, cr_resource = res_id,
                         cr_process = proc_id, cr_operation = rule_operation rule,
                         cr_action = rule_action rule\<rparr> # cs))))"

definition compile :: "file_resolver \<Rightarrow> policy \<Rightarrow> compiled_policy result" where
  "compile R p =
     (case validate p of
        Inl e \<Rightarrow> Inl e
      | Inr _ \<Rightarrow>
          (case resolve_resources R (pol_resources p) of
             Inl e \<Rightarrow> Inl e
           | Inr (ids, resolved) \<Rightarrow>
               (case compile_rules R resolved 1 (pol_rules p) of
                  Inl e \<Rightarrow> Inl e
                | Inr rules \<Rightarrow> Inr \<lparr>cp_version = pol_version p, cp_protected_resources = ids,
                                   cp_rules = rules\<rparr>)))"

section \<open>The specification of compilation\<close>

definition resolves :: "file_resolver \<Rightarrow> string \<Rightarrow> bool" where
  "resolves R path \<longleftrightarrow> (case R path of Inl _ \<Rightarrow> False | Inr i \<Rightarrow> file_id_valid i)"

text \<open>Every path the policy mentions.\<close>

definition policy_paths :: "policy \<Rightarrow> string set" where
  "policy_paths p = protected_paths p \<union> (pid_value \<circ> rule_process) ` set (pol_rules p)"

definition resolved_id :: "file_resolver \<Rightarrow> string \<Rightarrow> file_id" where
  "resolved_id R path = projr (R path)"

definition compiled_rule_of :: "file_resolver \<Rightarrow> u32 \<Rightarrow> policy_rule \<Rightarrow> compiled_rule" where
  "compiled_rule_of R k r = \<lparr>cr_rule_id = k, cr_resource = resolved_id R (res_path (rule_resource r)),
     cr_process = resolved_id R (pid_value (rule_process r)),
     cr_operation = rule_operation r, cr_action = rule_action r\<rparr>"

definition compiled_form :: "file_resolver \<Rightarrow> policy \<Rightarrow> compiled_policy" where
  "compiled_form R p = \<lparr>cp_version = pol_version p,
     cp_protected_resources = map (resolved_id R \<circ> res_path) (pol_resources p),
     cp_rules = map2 (compiled_rule_of R) (map word_of_nat [1..<Suc (length (pol_rules p))]) (pol_rules p)\<rparr>"

lemma resolves_iff: "resolves R path \<longleftrightarrow> (\<exists>i. R path = Inr i \<and> file_id_valid i)"
  by (auto simp: resolves_def split: sum.splits)

lemma resolved_id_Inr [simp]: "R path = Inr i \<Longrightarrow> resolved_id R path = i"
  by (simp add: resolved_id_def)

lemma resolves_resolved_id: "resolves R path \<Longrightarrow> R path = Inr (resolved_id R path)"
  by (auto simp: resolves_iff)

lemma resolve_resources_ok:
  "\<forall>r \<in> set rs. resolves R (res_path r) \<Longrightarrow> resolve_resources R rs =
     Inr (map (resolved_id R \<circ> res_path) rs, map (\<lambda>r. (res_path r, resolved_id R (res_path r))) rs)"
  by (induction rs) (auto simp: resolves_iff)

lemma resolve_resources_InrD:
  "resolve_resources R rs = Inr x \<Longrightarrow> r \<in> set rs \<Longrightarrow> resolves R (res_path r)"
  by (induction rs arbitrary: x) (auto simp: resolves_iff split: sum.splits if_splits)

lemma lookup_resolved_map:
  "lookup_resolved (map (\<lambda>r. (res_path r, f (res_path r))) rs) path =
     (if path \<in> res_path ` set rs then Some (f path) else None)"
  by (induction rs) auto

abbreviation resolved_pairs :: "file_resolver \<Rightarrow> resource_identity list \<Rightarrow> (string \<times> file_id) list" where
  "resolved_pairs R rs \<equiv> map (\<lambda>r. (res_path r, resolved_id R (res_path r))) rs"

lemma compile_rules_ok:
  assumes "\<forall>r \<in> set rs. res_path (rule_resource r) \<in> res_path ` set res \<and>
      resolves R (pid_value (rule_process r))"
  shows "compile_rules R (resolved_pairs R res) (word_of_nat k) rs =
    Inr (map2 (compiled_rule_of R) (map word_of_nat [k..<k + length rs]) rs)"
  using assms
proof (induction rs arbitrary: k)
  case Nil
  then show ?case by simp
next
  case (Cons r rs)
  obtain i where i: "R (pid_value (rule_process r)) = Inr i" "file_id_valid i"
    using Cons.prems by (auto simp: resolves_iff)
  have look: "lookup_resolved (resolved_pairs R res) (res_path (rule_resource r)) =
      Some (resolved_id R (res_path (rule_resource r)))"
    using Cons.prems by (simp add: lookup_resolved_map)
  have "compile_rules R (resolved_pairs R res) (word_of_nat (Suc k)) rs =
      Inr (map2 (compiled_rule_of R) (map word_of_nat [Suc k..<Suc k + length rs]) rs)"
    using Cons by (intro Cons.IH) simp
  moreover have "[k..<k + length (r # rs)] = k # [Suc k..<Suc k + length rs]"
    by (simp add: upt_rec)
  ultimately show ?case
    using i look by (simp add: compiled_rule_of_def add.commute)
qed

lemma compile_rules_InrD:
  "compile_rules R resolved k rs = Inr x \<Longrightarrow> r \<in> set rs \<Longrightarrow>
     resolves R (pid_value (rule_process r))"
  by (induction rs arbitrary: k x)
     (auto simp: resolves_iff split: sum.splits if_splits option.splits)

lemma policy_wf_rule_protected:
  "policy_wf p \<Longrightarrow> r \<in> set (pol_rules p) \<Longrightarrow>
     res_path (rule_resource r) \<in> res_path ` set (pol_resources p)"
  by (auto simp: policy_wf_def rule_wf_def protected_paths_def)

lemma resolve_resources_Inl:
  "resolve_resources R rs = Inl e \<Longrightarrow> \<exists>r \<in> set rs. R (res_path r) = Inl e \<or>
     (\<exists>i. R (res_path r) = Inr i \<and> ino i = 0 \<and>
        e = ''resolved zero inode for protected resource '' @ quoted (res_path r))"
  by (induction rs) (auto simp: file_id_valid_def split: sum.splits if_splits)

lemma compile_rules_Inl:
  "compile_rules R (resolved_pairs R res) k rs = Inl e \<Longrightarrow>
     \<forall>r \<in> set rs. res_path (rule_resource r) \<in> res_path ` set res \<Longrightarrow>
     \<exists>r \<in> set rs. R (pid_value (rule_process r)) = Inl e \<or>
     (\<exists>i. R (pid_value (rule_process r)) = Inr i \<and> ino i = 0 \<and>
        e = ''resolved zero inode for process '' @ quoted (pid_value (rule_process r)))"
  by (induction rs arbitrary: k)
     (auto simp: file_id_valid_def lookup_resolved_map split: sum.splits if_splits)

lemma compile_ok:
  assumes wf: "policy_wf p" and res: "\<forall>path \<in> policy_paths p. resolves R path"
  shows "compile R p = Inr (compiled_form R p)"
proof -
  have "resolve_resources R (pol_resources p) =
      Inr (map (resolved_id R \<circ> res_path) (pol_resources p), resolved_pairs R (pol_resources p))"
    using res by (intro resolve_resources_ok) (auto simp: policy_paths_def protected_paths_def)
  moreover have "compile_rules R (resolved_pairs R (pol_resources p)) (word_of_nat 1) (pol_rules p) =
      Inr (map2 (compiled_rule_of R) (map word_of_nat [1..<1 + length (pol_rules p)]) (pol_rules p))"
    using res wf by (intro compile_rules_ok) (auto simp: policy_paths_def policy_wf_rule_protected)
  ultimately show ?thesis
    using wf by (simp add: compile_def compiled_form_def flip: validate_iff_wf)
qed

lemma compile_InrD:
  assumes "compile R p = Inr c"
  shows "policy_wf p" and "\<forall>path \<in> policy_paths p. resolves R path"
proof -
  show "policy_wf p"
    using assms by (auto simp: compile_def split: sum.splits simp flip: validate_iff_wf)
  obtain ids resolved rules where "resolve_resources R (pol_resources p) = Inr (ids, resolved)"
    and "compile_rules R resolved 1 (pol_rules p) = Inr rules"
    using assms by (auto simp: compile_def split: sum.splits)
  then show "\<forall>path \<in> policy_paths p. resolves R path"
    by (auto simp: policy_paths_def protected_paths_def
        dest: resolve_resources_InrD compile_rules_InrD)
qed

section \<open>Properties\<close>

text \<open>C18. Compilation is exact: \<open>compile\<close> succeeds precisely on the well-formed policies all of
  whose paths resolve to a nonzero inode, and then the result is the policy's version, the
  identities of the protected resources in order, and one compiled rule per rule in order with
  1-based rule ids.\<close>

theorem compile_iff:
  "compile R p = Inr c \<longleftrightarrow>
     policy_wf p \<and> policy_paths p \<subseteq> Collect (resolves R) \<and> c = compiled_form R p"
proof
  assume c: "compile R p = Inr c"
  from compile_InrD [OF c] have "policy_wf p" "\<forall>path \<in> policy_paths p. resolves R path" .
  with c compile_ok [of p R] show
    "policy_wf p \<and> policy_paths p \<subseteq> Collect (resolves R) \<and> c = compiled_form R p"
    by auto
qed (auto intro: compile_ok)

text \<open>Every failure of \<open>compile\<close> is one of three: validation's own message, the
  resolver's message for a path the policy mentions, or a zero inode; the ``internal error''
  branch of the rule loop is never taken.\<close>

theorem compile_errors:
  assumes "compile R p = Inl e"
  shows "validate p = Inl e \<or> (\<exists>path. path \<in> policy_paths p \<and> R path = Inl e) \<or>
    (\<exists>path i. path \<in> policy_paths p \<and> R path = Inr i \<and> ino i = 0 \<and>
       e \<in> {''resolved zero inode for protected resource '' @ quoted path,
            ''resolved zero inode for process '' @ quoted path})"
proof (cases "validate p")
  case (Inl e')
  with assms show ?thesis by (simp add: compile_def)
next
  case (Inr u)
  then have wf: "policy_wf p" by (simp flip: validate_iff_wf)
  show ?thesis
  proof (cases "resolve_resources R (pol_resources p)")
    case (Inl e')
    with Inr assms have "resolve_resources R (pol_resources p) = Inl e" by (simp add: compile_def)
    from resolve_resources_Inl [OF this] obtain r where r: "r \<in> set (pol_resources p)"
      and e: "R (res_path r) = Inl e \<or> (\<exists>i. R (res_path r) = Inr i \<and> ino i = 0 \<and>
        e = ''resolved zero inode for protected resource '' @ quoted (res_path r))" by blast
    from r have "res_path r \<in> policy_paths p"
      by (auto simp: policy_paths_def protected_paths_def)
    with e show ?thesis by blast
  next
    case res: (Inr x)
    then have x: "x = (map (resolved_id R \<circ> res_path) (pol_resources p),
        resolved_pairs R (pol_resources p))"
      using resolve_resources_InrD [OF res] resolve_resources_ok [of "pol_resources p" R] by force
    have "compile_rules R (resolved_pairs R (pol_resources p)) 1 (pol_rules p) = Inl e"
      using assms Inr res by (simp add: compile_def x split: sum.splits)
    from compile_rules_Inl [OF this] wf obtain r where r: "r \<in> set (pol_rules p)"
      and e: "R (pid_value (rule_process r)) = Inl e \<or>
        (\<exists>i. R (pid_value (rule_process r)) = Inr i \<and> ino i = 0 \<and>
          e = ''resolved zero inode for process '' @ quoted (pid_value (rule_process r)))"
      by (auto simp: policy_wf_rule_protected)
    from r have "pid_value (rule_process r) \<in> policy_paths p"
      by (auto simp: policy_paths_def)
    with e show ?thesis by blast
  qed
qed

definition zero_inode_policy :: policy where
  "zero_inode_policy = \<lparr>pol_version = 1, pol_default_action = Deny,
     pol_resources = [\<lparr>res_path = ''/a'', res_operation = None\<rparr>], pol_rules = []\<rparr>"

theorem compile_errors_witness:
  "compile (\<lambda>_. Inr \<lparr>dev_major = 8, dev_minor = 1, ino = 0\<rparr>) zero_inode_policy =
     Inl (''resolved zero inode for protected resource '' @ quoted ''/a'') \<and>
   policy_paths zero_inode_policy = {''/a''}"
proof -
  let ?R = "\<lambda>_. Inr \<lparr>dev_major = 8, dev_minor = 1, ino = 0\<rparr> :: file_id result"
  let ?e = "''resolved zero inode for protected resource '' @ quoted ''/a''"
  have paths: "policy_paths zero_inode_policy = {''/a''}"
    by (simp add: zero_inode_policy_def policy_paths_def protected_paths_def)
  have valid: "validate zero_inode_policy = Inr ()"
    by (simp add: zero_inode_policy_def validate_def)
  have e: "compile ?R zero_inode_policy = Inl ?e"
    using valid by (simp add: zero_inode_policy_def compile_def file_id_valid_def)
  from compile_errors [OF e] valid paths e show ?thesis by auto
qed

end
