(* ===== verification/Decision_Engine.thy ===== *)
theory Decision_Engine
  imports Policy_Model
begin

text \<open>
  The userspace decision: \<open>include/fileguard/decision_engine.hpp\<close> and
  \<open>src/decision_engine.cpp\<close>. \<open>evaluate\<close> is the path-level semantics of a policy that the
  kernel program is meant to agree with.
\<close>

datatype reason = PolicyRule | DefaultDeny | UnknownProcess | ResourceUnprotected | ReasonRaw u8

definition reason_of_code :: "u8 \<Rightarrow> reason" where
  "reason_of_code w =
     (if w = FG_REASON_POLICY_RULE then PolicyRule
      else if w = FG_REASON_DEFAULT_DENY then DefaultDeny
      else if w = FG_REASON_UNKNOWN_PROCESS then UnknownProcess
      else if w = FG_REASON_UNKNOWN_RESOURCE then ResourceUnprotected
      else ReasonRaw w)"

fun reason_code :: "reason \<Rightarrow> u8" where
  "reason_code PolicyRule = FG_REASON_POLICY_RULE"
| "reason_code DefaultDeny = FG_REASON_DEFAULT_DENY"
| "reason_code UnknownProcess = FG_REASON_UNKNOWN_PROCESS"
| "reason_code ResourceUnprotected = FG_REASON_UNKNOWN_RESOURCE"
| "reason_code (ReasonRaw w) = w"

lemma reason_code_of_code [simp]: "reason_code (reason_of_code w) = w"
  by (simp add: reason_of_code_def)

fun reason_name :: "reason \<Rightarrow> string" where
  "reason_name PolicyRule = ''POLICY_RULE''"
| "reason_name DefaultDeny = ''DEFAULT_DENY''"
| "reason_name UnknownProcess = ''UNKNOWN_PROCESS''"
| "reason_name ResourceUnprotected = ''RESOURCE_UNPROTECTED''"
| "reason_name (ReasonRaw w) = ''?''"

record access_request =
  req_resource_path :: string
  req_process :: process_identity
  req_operation :: operation

record decision =
  dec_action :: action
  dec_reason :: reason
  dec_matched_rule_id :: string
  dec_matched_rule_index :: u32

definition initial_decision :: decision where
  "initial_decision = \<lparr>dec_action = Deny, dec_reason = DefaultDeny,
     dec_matched_rule_id = [], dec_matched_rule_index = 0\<rparr>"

definition evaluate :: "policy \<Rightarrow> access_request \<Rightarrow> decision" where
  "evaluate p request =
     (let decision = initial_decision\<lparr>dec_action := Deny, dec_reason := DefaultDeny\<rparr> in
      if \<not> is_protected p (req_resource_path request) then
        decision\<lparr>dec_action := Allow, dec_reason := ResourceUnprotected\<rparr>
      else case find_rule p (req_resource_path request) (req_process request) (req_operation request) of
          Some rule \<Rightarrow> decision\<lparr>dec_action := rule_action rule, dec_reason := PolicyRule,
                                dec_matched_rule_id := rule_name rule\<rparr>
        | None \<Rightarrow> decision\<lparr>dec_action := pol_default_action p, dec_reason := DefaultDeny\<rparr>)"

lemmas evaluate_simps = evaluate_def initial_decision_def Let_def

text \<open>The three branches, each with its whole result.\<close>

lemma evaluate_unprotected:
  "req_resource_path q \<notin> protected_paths p \<Longrightarrow>
   evaluate p q = \<lparr>dec_action = Allow, dec_reason = ResourceUnprotected,
     dec_matched_rule_id = [], dec_matched_rule_index = 0\<rparr>"
  by (simp add: evaluate_simps is_protected_iff)

lemma evaluate_rule:
  "req_resource_path q \<in> protected_paths p \<Longrightarrow>
   find_rule p (req_resource_path q) (req_process q) (req_operation q) = Some r \<Longrightarrow>
   evaluate p q = \<lparr>dec_action = rule_action r, dec_reason = PolicyRule,
     dec_matched_rule_id = rule_name r, dec_matched_rule_index = 0\<rparr>"
  by (simp add: evaluate_simps is_protected_iff)

lemma evaluate_default:
  "req_resource_path q \<in> protected_paths p \<Longrightarrow>
   find_rule p (req_resource_path q) (req_process q) (req_operation q) = None \<Longrightarrow>
   evaluate p q = \<lparr>dec_action = pol_default_action p, dec_reason = DefaultDeny,
     dec_matched_rule_id = [], dec_matched_rule_index = 0\<rparr>"
  by (simp add: evaluate_simps is_protected_iff)

text \<open>The allow-list model: under a default-DENY policy a request is allowed exactly
  when its resource is not protected or the first rule for this resource, process and operation
  says ALLOW.\<close>

theorem evaluate_allow_list:
  assumes "pol_default_action p = Deny"
  shows "dec_action (evaluate p q) = Allow \<longleftrightarrow>
    req_resource_path q \<notin> res_path ` set (pol_resources p) \<or>
    (\<exists>r. find (rule_matches (req_resource_path q) (req_process q) (req_operation q)) (pol_rules p)
           = Some r \<and> rule_action r = Allow)"
  using assms
  by (auto simp: evaluate_simps is_protected_iff protected_paths_def find_rule_eq_find
           split: option.splits)

definition demo_policy :: policy where
  "demo_policy = \<lparr>pol_version = 1, pol_default_action = Deny,
     pol_resources = [\<lparr>res_path = ''/s'', res_operation = Some Open\<rparr>],
     pol_rules = [\<lparr>rule_name = ''r1'', rule_resource = \<lparr>res_path = ''/s'', res_operation = None\<rparr>,
       rule_process = \<lparr>pid_type = ExePath, pid_value = ''/bin/b''\<rparr>, rule_operation = Open,
       rule_action = Allow\<rparr>]\<rparr>"

definition demo_request :: "string \<Rightarrow> string \<Rightarrow> access_request" where
  "demo_request res exe = \<lparr>req_resource_path = res,
     req_process = \<lparr>pid_type = ExePath, pid_value = exe\<rparr>, req_operation = Open\<rparr>"

theorem evaluate_allow_list_witness:
  "dec_action (evaluate demo_policy (demo_request ''/s'' ''/bin/b'')) = Allow \<and>
   dec_action (evaluate demo_policy (demo_request ''/s'' ''/bin/cat'')) \<noteq> Allow \<and>
   dec_action (evaluate demo_policy (demo_request ''/t'' ''/bin/cat'')) = Allow"
proof -
  have d: "pol_default_action demo_policy = Deny" by (simp add: demo_policy_def)
  note iff = evaluate_allow_list [OF d]
  show ?thesis
    unfolding iff by (simp add: demo_policy_def demo_request_def rule_matches_def)
qed

text \<open>A protected resource that no rule covers takes the policy's default action with
  reason DEFAULT_DENY and no rule name, and a covered one takes the action, reason and name of
  the first rule in policy order.\<close>

theorem evaluate_protected:
  assumes "req_resource_path q \<in> res_path ` set (pol_resources p)"
  shows "evaluate p q =
    (case find (rule_matches (req_resource_path q) (req_process q) (req_operation q)) (pol_rules p) of
       Some r \<Rightarrow> \<lparr>dec_action = rule_action r, dec_reason = PolicyRule,
                   dec_matched_rule_id = rule_name r, dec_matched_rule_index = 0\<rparr>
     | None \<Rightarrow> \<lparr>dec_action = pol_default_action p, dec_reason = DefaultDeny,
                 dec_matched_rule_id = [], dec_matched_rule_index = 0\<rparr>)"
  using assms
  by (auto simp: evaluate_simps is_protected_iff protected_paths_def find_rule_eq_find
           split: option.splits)

theorem evaluate_protected_witness:
  "evaluate demo_policy (demo_request ''/s'' ''/bin/b'') =
     \<lparr>dec_action = Allow, dec_reason = PolicyRule, dec_matched_rule_id = ''r1'',
      dec_matched_rule_index = 0\<rparr>"
  by (subst evaluate_protected)
     (simp_all add: demo_policy_def demo_request_def rule_matches_def)

end
