(* ===== verification/Security_Events.thy ===== *)
theory Security_Events
  imports Decision_Engine
begin

text \<open>
  Events in userspace: \<open>include/fileguard/security_event.hpp\<close> and the reverse resolver
  \<open>include/fileguard/path_resolver.hpp\<close>, \<open>src/path_resolver.cpp\<close>. The resolver's
  \<open>std::unordered_map\<close> is a finite map from identities to paths.
\<close>

section \<open>\<open>RawEvent\<close> and \<open>SecurityEvent\<close>\<close>

record raw_event =
  raw_timestamp_ns :: u64
  raw_pid :: u32
  raw_tgid :: u32
  raw_uid :: u32
  raw_gid :: u32
  raw_resource :: file_id
  raw_process :: file_id
  raw_rule_id :: u32
  raw_operation :: operation
  raw_action :: action
  raw_reason :: reason
  raw_comm :: string

record security_event =
  se_timestamp :: string
  se_pid :: u32
  se_tgid :: u32
  se_uid :: u32
  se_gid :: u32
  se_comm :: string
  se_process_path :: string
  se_resource_path :: string
  se_operation :: operation
  se_action :: action
  se_reason :: reason
  se_rule_id :: u32

section \<open>\<open>PathResolver\<close>\<close>

type_synonym path_resolver = "file_id \<rightharpoonup> string"

definition resolver_new :: path_resolver where
  "resolver_new = Map.empty"

definition resolver_add :: "file_id \<Rightarrow> string \<Rightarrow> path_resolver \<Rightarrow> path_resolver" where
  "resolver_add i path m = m(i \<mapsto> path)"

definition resolver_resolve :: "path_resolver \<Rightarrow> file_id \<Rightarrow> string" where
  "resolver_resolve m i = (case m i of Some path \<Rightarrow> path | None \<Rightarrow> file_id_to_string i)"

definition resolver_size :: "path_resolver \<Rightarrow> nat" where
  "resolver_size m = card (dom m)"

lemma resolve_add:
  "resolver_resolve (resolver_add i path m) j = (if j = i then path else resolver_resolve m j)"
  by (simp add: resolver_resolve_def resolver_add_def)

lemma resolve_new [simp]: "resolver_resolve resolver_new i = file_id_to_string i"
  by (simp add: resolver_resolve_def resolver_new_def)

lemma file_id_to_string_relative: "\<not> absolute (file_id_to_string i)"
proof -
  obtain c cs where c: "show_u32 (dev_major i) = c # cs"
    by (cases "show_u32 (dev_major i)") (simp_all add: show_u32_def)
  then have "is_digit c" using show_nat_digits [of c "unat (dev_major i)"] by (simp add: show_u32_def)
  then show ?thesis by (auto simp: file_id_to_string_def c is_digit_def)
qed

end
