(* ===== verification/Enforcer.thy ===== *)
theory Enforcer
  imports Policy_Compiler Security_Events
begin

text \<open>
  The backend interface \<open>IEnforcer\<close> (\<open>include/fileguard/enforcer.hpp\<close>) and the pass-through
  backend \<open>NullEnforcer\<close> (\<open>src/enforcer.cpp\<close>). An operation is a function from the backend's
  state to a result and the next state; \<open>apply_policy\<close> may also not return, so its result is an
  option. The contract that the controller relies on is the locale \<open>enforcement_backend\<close>.
\<close>

record enforcer_status =
  st_attached :: bool
  st_enforcing :: bool
  st_backend :: string
  st_policy_version :: i32
  st_protected_count :: nat
  st_rule_count :: nat
  st_detail :: string

definition initial_status :: enforcer_status where
  "initial_status = \<lparr>st_attached = False, st_enforcing = False, st_backend = ''none'',
     st_policy_version = 0, st_protected_count = 0, st_rule_count = 0, st_detail = []\<rparr>"

record enforcer_config =
  ec_ringbuf_bytes :: u32
  ec_map_entries :: u32
  ec_runtime_dir :: string
  ec_on_event :: bool \<comment> \<open>a handler is set\<close>

definition default_enforcer_config :: enforcer_config where
  "default_enforcer_config = \<lparr>ec_ringbuf_bytes = push_bit 20 1, ec_map_entries = 4096,
     ec_runtime_dir = [], ec_on_event = False\<rparr>"

text \<open>The interface as a value: what a controller is given.\<close>

record 'e enforcer_ops =
  op_load :: "'e \<Rightarrow> unit result \<times> 'e"
  op_apply :: "'e \<Rightarrow> compiled_policy \<Rightarrow> (unit result \<times> 'e) option"
  op_status :: "'e \<Rightarrow> enforcer_status"
  op_detach :: "'e \<Rightarrow> unit result \<times> 'e"

section \<open>The contract\<close>

text \<open>
  After a successful install, the status shows the installed policy's counts and version;
  detaching always succeeds and leaves nothing attached or enforcing. \<open>inv\<close> is the backend's
  own invariant.
\<close>

locale enforcement_backend =
  fixes load :: "'e \<Rightarrow> unit result \<times> 'e"
    and apply_pol :: "'e \<Rightarrow> compiled_policy \<Rightarrow> (unit result \<times> 'e) option"
    and status :: "'e \<Rightarrow> enforcer_status"
    and detach :: "'e \<Rightarrow> unit result \<times> 'e"
    and inv :: "'e \<Rightarrow> bool"
  assumes inv_load: "inv e \<Longrightarrow> inv (snd (load e))"
    and apply_returns: "inv e \<Longrightarrow> \<exists>r e'. apply_pol e cp = Some (r, e') \<and> inv e'"
    and apply_status: "inv e \<Longrightarrow> apply_pol e cp = Some (Inr (), e') \<Longrightarrow>
      st_policy_version (status e') = cp_version cp \<and>
      st_protected_count (status e') = length (cp_protected_resources cp) \<and>
      st_rule_count (status e') = length (cp_rules cp)"
    and detach_ok: "inv e \<Longrightarrow> \<exists>e'. detach e = (Inr (), e') \<and> inv e' \<and>
      \<not> st_attached (status e') \<and> \<not> st_enforcing (status e')"
begin

lemma apply_inv: "inv e \<Longrightarrow> apply_pol e cp = Some (r, e') \<Longrightarrow> inv e'"
  using apply_returns [of e cp] by auto

end

section \<open>\<open>NullEnforcer\<close>\<close>

record null_enforcer =
  ne_config :: enforcer_config
  ne_status :: enforcer_status

definition null_new :: "enforcer_config \<Rightarrow> null_enforcer" where
  "null_new cfg = \<lparr>ne_config = cfg, ne_status = initial_status\<rparr>"

definition null_load :: "null_enforcer \<Rightarrow> unit result \<times> null_enforcer" where
  "null_load e = (Inr (), e\<lparr>ne_status := (ne_status e)\<lparr>st_backend := ''null'',
     st_detail := ''null backend: no kernel enforcement (non-Linux host)''\<rparr>\<rparr>)"

definition null_apply_policy ::
  "null_enforcer \<Rightarrow> compiled_policy \<Rightarrow> (unit result \<times> null_enforcer) option" where
  "null_apply_policy e p = Some (Inr (), e\<lparr>ne_status := (ne_status e)\<lparr>
     st_policy_version := cp_version p,
     st_protected_count := length (cp_protected_resources p),
     st_rule_count := length (cp_rules p),
     st_attached := False, st_enforcing := False\<rparr>\<rparr>)"

definition null_status :: "null_enforcer \<Rightarrow> enforcer_status" where
  "null_status e = ne_status e"

definition null_detach :: "null_enforcer \<Rightarrow> unit result \<times> null_enforcer" where
  "null_detach e = (Inr (), e\<lparr>ne_status := (ne_status e)\<lparr>st_attached := False,
     st_enforcing := False\<rparr>\<rparr>)"

definition null_ops :: "null_enforcer enforcer_ops" where
  "null_ops = \<lparr>op_load = null_load, op_apply = null_apply_policy, op_status = null_status,
     op_detach = null_detach\<rparr>"

text \<open>The pass-through backend never claims enforcement.\<close>

definition null_inv :: "null_enforcer \<Rightarrow> bool" where
  "null_inv e \<longleftrightarrow> \<not> st_attached (ne_status e) \<and> \<not> st_enforcing (ne_status e)"

lemmas null_simps = null_load_def null_apply_policy_def null_status_def null_detach_def null_inv_def

interpretation null_backend:
  enforcement_backend null_load null_apply_policy null_status null_detach null_inv
  by unfold_locales (auto simp: null_simps)

lemma null_new_inv [simp]: "null_inv (null_new cfg)"
  by (simp add: null_inv_def null_new_def initial_status_def)

end
