(* ===== verification/Kernel_Program.thy ===== *)
theory Kernel_Program
  imports Abi
begin

text \<open>
  The eBPF LSM program \<open>ebpf/fileguard.bpf.c\<close>. A run of the hook sees the maps through
  \<open>bpf_map_lookup_elem\<close>: these lookups are the fields of a \<open>kview\<close>. What the kernel helpers
  return for the opening task and for the ring-buffer reservation are the fields of an
  \<open>open_ctx\<close>; a reserved slot is memory the helper does not clear, so its old contents are an
  input. The result is the hook's return value and the event submitted, if any.
\<close>

section \<open>Inputs of a run\<close>

record kview =
  kv_config :: "fileguard_config option"
  kv_protected :: "fileguard_file_id \<Rightarrow> fileguard_protected_val option"
  kv_rules :: "fileguard_rule_key \<Rightarrow> fileguard_rule_val option"

text \<open>The sizes of the maps, as the program declares them.\<close>

record map_sizes =
  ms_protected :: u32 \<comment> \<open>\<open>max_entries\<close>\<close>
  ms_rules :: u32
  ms_events :: u32 \<comment> \<open>bytes of the ring buffer\<close>

definition program_sizes :: map_sizes where
  "program_sizes = \<lparr>ms_protected = 8192, ms_rules = 8192, ms_events = push_bit 20 1\<rparr>"

record inode =
  i_s_dev :: u32 \<comment> \<open>\<open>i_sb->s_dev\<close>\<close>
  i_ino :: u64

record kfile =
  f_inode :: "inode option"

record mm_struct =
  exe_file :: "kfile option"

record task_struct =
  task_mm :: "mm_struct option"

record open_ctx =
  ctx_task :: task_struct
  ctx_pid_tgid :: u64
  ctx_uid_gid :: u64
  ctx_ktime :: u64
  ctx_comm :: "char list"
  ctx_slot :: "fileguard_event option" \<comment> \<open>\<open>bpf_ringbuf_reserve\<close>: the slot with its old contents\<close>

definition EACCES :: i32 where "EACCES = 13"

section \<open>Helpers of the program\<close>

definition fg_enabled :: "kview \<Rightarrow> bool" where
  "fg_enabled v = (case kv_config v of None \<Rightarrow> False | Some cfg \<Rightarrow> conf_enabled cfg \<noteq> 0)"

definition fg_file_id :: "kfile \<Rightarrow> fileguard_file_id \<Rightarrow> fileguard_file_id" where
  "fg_file_id f out =
     (case f_inode f of None \<Rightarrow> out
      | Some inode \<Rightarrow>
          let dev = (ucast (i_s_dev inode) :: u64) in
          out\<lparr>abi_dev_major := ucast (drop_bit 20 dev),
              abi_dev_minor := ucast (dev AND 0xfffff),
              abi_ino := i_ino inode\<rparr>)"

definition fg_process_exe_id :: "task_struct \<Rightarrow> fileguard_file_id \<Rightarrow> fileguard_file_id" where
  "fg_process_exe_id task out =
     (case task_mm task of None \<Rightarrow> out
      | Some mm \<Rightarrow> (case exe_file mm of None \<Rightarrow> out | Some exe \<Rightarrow> fg_file_id exe out))"

text \<open>\<open>map_option\<close> is the program's \<open>if (ev)\<close>; the assignment to the \<open>u8\<close> field truncates.\<close>

definition fg_decision ::
  "kview \<Rightarrow> fileguard_file_id \<Rightarrow> fileguard_file_id \<Rightarrow> fileguard_event option \<Rightarrow>
     i32 \<times> fileguard_event option" where
  "fg_decision v res proc ev =
     (if abi_ino proc = 0 then
        (- EACCES, map_option (\<lambda>e. e\<lparr>ev_action := ucast FG_ACTION_DENY,
                                    ev_reason := FG_REASON_UNKNOWN_PROCESS\<rparr>) ev)
      else case kv_rules v \<lparr>key_res = res, key_proc = proc\<rparr> of
          Some rule \<Rightarrow>
            (if val_action rule = FG_ACTION_ALLOW then 0 else - EACCES,
             map_option (\<lambda>e. e\<lparr>ev_rule_id := val_rule_id rule,
                              ev_action := ucast (val_action rule),
                              ev_reason := FG_REASON_POLICY_RULE\<rparr>) ev)
        | None \<Rightarrow>
            (- EACCES, map_option (\<lambda>e. e\<lparr>ev_action := ucast FG_ACTION_DENY,
                                        ev_reason := FG_REASON_DEFAULT_DENY\<rparr>) ev))"

section \<open>The hook\<close>

definition fg_file_open :: "kview \<Rightarrow> open_ctx \<Rightarrow> kfile \<Rightarrow> i32 \<times> fileguard_event option" where
  "fg_file_open v ctx file =
     (if \<not> fg_enabled v then (0, None)
      else
        let res = fg_file_id file zero_file_id in
        if abi_ino res = 0 then (0, None)
        else if kv_protected v res = None then (0, None)
        else
          let ev = map_option (\<lambda>e. e\<lparr>ev_magic := FG_MAGIC,
                ev_timestamp_ns := ctx_ktime ctx,
                ev_pid := ucast (ctx_pid_tgid ctx),
                ev_tgid := ucast (drop_bit 32 (ctx_pid_tgid ctx)),
                ev_uid := ucast (ctx_uid_gid ctx),
                ev_gid := ucast (drop_bit 32 (ctx_uid_gid ctx)),
                ev_res := res,
                ev_operation := ucast FG_OP_OPEN,
                ev_comm := ctx_comm ctx\<rparr>) (ctx_slot ctx);
              proc = fg_process_exe_id (ctx_task ctx) zero_file_id
          in fg_decision v res proc ev)"

section \<open>The decision without the event\<close>

definition opened_id :: "kfile \<Rightarrow> fileguard_file_id" where
  "opened_id file = fg_file_id file zero_file_id"

definition exe_id :: "open_ctx \<Rightarrow> fileguard_file_id" where
  "exe_id ctx = fg_process_exe_id (ctx_task ctx) zero_file_id"

text \<open>Is the open mediated at all: enforcement on, the file identified and protected.\<close>

definition mediated :: "kview \<Rightarrow> kfile \<Rightarrow> bool" where
  "mediated v file \<longleftrightarrow> fg_enabled v \<and> abi_ino (opened_id file) \<noteq> 0 \<and>
     kv_protected v (opened_id file) \<noteq> None"

lemma EACCES_neq_0 [simp]: "- EACCES \<noteq> 0" "EACCES \<noteq> 0"
  by (simp_all add: EACCES_def)

lemma fg_decision_ret:
  "fst (fg_decision v res proc ev) =
     (if abi_ino proc \<noteq> 0 \<and> (\<exists>rule. kv_rules v \<lparr>key_res = res, key_proc = proc\<rparr> = Some rule \<and>
            val_action rule = FG_ACTION_ALLOW) then 0 else - EACCES)"
  by (auto simp: fg_decision_def split: option.splits)

lemma fg_file_open_ret:
  "fst (fg_file_open v ctx file) =
     (if mediated v file \<and> \<not> (abi_ino (exe_id ctx) \<noteq> 0 \<and>
          (\<exists>rule. kv_rules v \<lparr>key_res = opened_id file, key_proc = exe_id ctx\<rparr> = Some rule \<and>
             val_action rule = FG_ACTION_ALLOW)) then - EACCES else 0)"
  by (simp add: fg_file_open_def mediated_def opened_id_def exe_id_def Let_def fg_decision_ret)

lemma fg_file_open_pass: "\<not> mediated v file \<Longrightarrow> fg_file_open v ctx file = (0, None)"
  by (auto simp: fg_file_open_def mediated_def opened_id_def Let_def)

lemma fg_file_open_mediated:
  "mediated v file \<Longrightarrow> fg_file_open v ctx file =
     fg_decision v (opened_id file) (exe_id ctx)
       (map_option (\<lambda>e. e\<lparr>ev_magic := FG_MAGIC, ev_timestamp_ns := ctx_ktime ctx,
          ev_pid := ucast (ctx_pid_tgid ctx), ev_tgid := ucast (drop_bit 32 (ctx_pid_tgid ctx)),
          ev_uid := ucast (ctx_uid_gid ctx), ev_gid := ucast (drop_bit 32 (ctx_uid_gid ctx)),
          ev_res := opened_id file, ev_operation := ucast FG_OP_OPEN,
          ev_comm := ctx_comm ctx\<rparr>) (ctx_slot ctx))"
  by (auto simp: fg_file_open_def mediated_def opened_id_def exe_id_def Let_def)

text \<open>Device numbers: the program's split of \<open>s_dev\<close> loses nothing.\<close>

lemma fg_file_id_Some:
  "f_inode f = Some nd \<Longrightarrow> opened_id f =
     \<lparr>abi_dev_major = ucast (drop_bit 20 (ucast (i_s_dev nd) :: u64)),
      abi_dev_minor = ucast ((ucast (i_s_dev nd) :: u64) AND 0xfffff), abi_ino = i_ino nd\<rparr>"
  by (simp add: opened_id_def fg_file_id_def zero_file_id_def Let_def)

section \<open>Properties\<close>

text \<open>The enforcement decision never depends on the event path: the hook's return value is
  the same whether the ring-buffer reservation fails or succeeds and whatever the slot, the
  clock, the credentials and the comm are; only the maps, the file and the task's executable
  decide.\<close>

theorem enforcement_independent_of_events:
  "fst (fg_file_open v ctx file) =
   fst (fg_file_open v (ctx\<lparr>ctx_slot := slot, ctx_ktime := t, ctx_pid_tgid := pt,
                             ctx_uid_gid := ug, ctx_comm := cm\<rparr>) file)"
  by (simp add: fg_file_open_ret exe_id_def)

text \<open>C17. The kernel's allow-list: an open is denied with \<open>-EACCES\<close> exactly when enforcement is
  on, the file is identified and protected, and the process either cannot be identified (fail
  closed) or has no rule saying ALLOW for this file (default deny); every other open returns 0.\<close>

theorem fg_file_open_decision:
  "fst (fg_file_open v ctx file) =
     (if fg_enabled v \<and> abi_ino (opened_id file) \<noteq> 0 \<and> kv_protected v (opened_id file) \<noteq> None \<and>
         (abi_ino (exe_id ctx) = 0 \<or>
          kv_rules v \<lparr>key_res = opened_id file, key_proc = exe_id ctx\<rparr> = None \<or>
          val_action (the (kv_rules v \<lparr>key_res = opened_id file, key_proc = exe_id ctx\<rparr>))
            \<noteq> FG_ACTION_ALLOW)
      then - EACCES else 0)"
  by (auto simp: fg_file_open_ret mediated_def)

text \<open>One event per mediated open: the hook submits an event exactly when enforcement is on,
  the file is identified and protected, and the ring buffer had a slot; unprotected opens never
  produce events.\<close>

theorem fg_file_open_event_iff:
  "(\<exists>e. snd (fg_file_open v ctx file) = Some e) \<longleftrightarrow>
     fg_enabled v \<and> abi_ino (opened_id file) \<noteq> 0 \<and> kv_protected v (opened_id file) \<noteq> None \<and>
     ctx_slot ctx \<noteq> None"
proof (cases "mediated v file")
  case True
  then show ?thesis
    by (auto simp: fg_file_open_mediated fg_decision_def mediated_def split: option.splits)
next
  case False
  then show ?thesis by (auto simp: fg_file_open_pass mediated_def)
qed

lemma fg_file_open_event_mediated: "snd (fg_file_open v ctx file) = Some e \<Longrightarrow> mediated v file"
  by (metis fg_file_open_pass option.distinct(1) snd_conv)

text \<open>A protected file with one rule, and the runs the witnesses use.\<close>

definition demo_fid :: "u64 \<Rightarrow> fileguard_file_id" where
  "demo_fid i = \<lparr>abi_dev_major = 8, abi_dev_minor = 1, abi_ino = i\<rparr>"

definition demo_file :: "u64 \<Rightarrow> kfile" where
  "demo_file i = \<lparr>f_inode = Some \<lparr>i_s_dev = 0x800001, i_ino = i\<rparr>\<rparr>"

definition demo_slot :: "u64 \<Rightarrow> fileguard_event" where
  "demo_slot stale = \<lparr>ev_magic = 0, ev_timestamp_ns = 0, ev_pid = 0, ev_tgid = 0, ev_uid = 0,
     ev_gid = 0, ev_res = zero_file_id, ev_proc = demo_fid stale, ev_rule_id = 77, ev_operation = 0,
     ev_action = 0, ev_reason = 0, ev_pad = 0, ev_comm = replicate 16 (CHR 0x00)\<rparr>"

definition demo_ctx :: "u64 \<Rightarrow> u64 \<Rightarrow> open_ctx" where
  "demo_ctx exe stale = \<lparr>ctx_task = \<lparr>task_mm = Some \<lparr>exe_file = Some (demo_file exe)\<rparr>\<rparr>,
     ctx_pid_tgid = 0x0000000700000009, ctx_uid_gid = 0, ctx_ktime = 1000,
     ctx_comm = ''cat'' @ replicate 13 (CHR 0x00), ctx_slot = Some (demo_slot stale)\<rparr>"

definition demo_view :: kview where
  "demo_view = \<lparr>kv_config = Some \<lparr>conf_policy_version = 1, conf_enabled = 1, conf_reserved = (0, 0)\<rparr>,
     kv_protected = [demo_fid 100 \<mapsto> \<lparr>prot_reserved = 0\<rparr>],
     kv_rules = [\<lparr>key_res = demo_fid 100, key_proc = demo_fid 200\<rparr> \<mapsto>
        \<lparr>val_rule_id = 1, val_action = 0, val_operation = 1, val_reserved = 0\<rparr>]\<rparr>"

lemma demo_file_id: "opened_id (demo_file i) = demo_fid i"
  by (simp add: fg_file_id_Some demo_file_def demo_fid_def)

lemma demo_exe_id: "exe_id (demo_ctx exe stale) = demo_fid exe"
  using demo_file_id [of exe] by (simp add: exe_id_def demo_ctx_def fg_process_exe_id_def opened_id_def)

lemma demo_mediated: "mediated demo_view (demo_file 100)"
  by (simp add: mediated_def fg_enabled_def demo_view_def demo_file_id demo_fid_def)

lemma demo_denied_event:
  "snd (fg_file_open demo_view (demo_ctx 300 stale) (demo_file 100)) =
     Some ((demo_slot stale)\<lparr>ev_magic := FG_MAGIC, ev_timestamp_ns := 1000, ev_pid := 9, ev_tgid := 7,
       ev_uid := 0, ev_gid := 0, ev_res := demo_fid 100, ev_operation := 1,
       ev_comm := ''cat'' @ replicate 13 (CHR 0x00), ev_action := 1, ev_reason := 2\<rparr>)"
  by (simp add: fg_file_open_mediated [OF demo_mediated] fg_decision_def demo_exe_id demo_file_id)
     (simp add: demo_fid_def demo_view_def demo_ctx_def fg_codes)

text \<open>A submitted event describes the decision that was returned: the opened file, the
  actor's ids and comm, the reason of the branch taken, and, unless a rule decided, action DENY
  together with the return value \<open>-EACCES\<close>.\<close>

theorem fg_file_open_event_content:
  assumes "snd (fg_file_open v ctx file) = Some e"
  shows "ev_magic e = FG_MAGIC \<and> ev_timestamp_ns e = ctx_ktime ctx \<and> ev_res e = opened_id file \<and>
    ev_pid e = ucast (ctx_pid_tgid ctx) \<and> ev_tgid e = ucast (drop_bit 32 (ctx_pid_tgid ctx)) \<and>
    ev_uid e = ucast (ctx_uid_gid ctx) \<and> ev_gid e = ucast (drop_bit 32 (ctx_uid_gid ctx)) \<and>
    ev_comm e = ctx_comm ctx \<and> ev_operation e = 1 \<and>
    (if abi_ino (exe_id ctx) = 0
     then ev_reason e = FG_REASON_UNKNOWN_PROCESS \<and> ev_action e = 1 \<and>
       fst (fg_file_open v ctx file) = - EACCES
     else case kv_rules v \<lparr>key_res = opened_id file, key_proc = exe_id ctx\<rparr> of
        None \<Rightarrow> ev_reason e = FG_REASON_DEFAULT_DENY \<and> ev_action e = 1 \<and>
          fst (fg_file_open v ctx file) = - EACCES
      | Some r \<Rightarrow> ev_reason e = FG_REASON_POLICY_RULE \<and> ev_rule_id e = val_rule_id r \<and>
          ev_action e = ucast (val_action r) \<and>
          fst (fg_file_open v ctx file) = (if val_action r = FG_ACTION_ALLOW then 0 else - EACCES))"
  using assms fg_file_open_mediated [OF fg_file_open_event_mediated [OF assms], of ctx]
  by (auto simp: fg_decision_def fg_codes split: option.splits if_splits)

theorem fg_file_open_event_content_witness:
  "\<exists>e. snd (fg_file_open demo_view (demo_ctx 300 5) (demo_file 100)) = Some e \<and>
     ev_pid e = 9 \<and> ev_reason e = FG_REASON_DEFAULT_DENY \<and>
     fst (fg_file_open demo_view (demo_ctx 300 5) (demo_file 100)) = - EACCES"
proof -
  obtain e where e: "snd (fg_file_open demo_view (demo_ctx 300 5) (demo_file 100)) = Some e"
    using demo_denied_event by blast
  have r: "kv_rules demo_view \<lparr>key_res = demo_fid 100, key_proc = demo_fid 300\<rparr> = None"
    and i: "abi_ino (demo_fid 300) \<noteq> 0"
    by (simp_all add: demo_view_def demo_fid_def)
  have p: "ctx_pid_tgid (demo_ctx 300 5) = 0x0000000700000009" by (simp add: demo_ctx_def)
  from e fg_file_open_event_content [OF e] show ?thesis
    unfolding demo_file_id demo_exe_id by (simp add: r i p)
qed

theorem fg_file_open_decision_witness:
  "fst (fg_file_open demo_view (demo_ctx 300 5) (demo_file 100)) = - EACCES \<and>
   fst (fg_file_open (demo_view\<lparr>kv_config := None\<rparr>) (demo_ctx 300 5) (demo_file 100)) = 0"
  using fg_file_open_decision [of demo_view "demo_ctx 300 5" "demo_file 100"]
    fg_file_open_decision [of "demo_view\<lparr>kv_config := None\<rparr>" "demo_ctx 300 5" "demo_file 100"]
  unfolding demo_file_id demo_exe_id by (simp add: demo_view_def demo_fid_def fg_enabled_def)

text \<open>The process identity in an event is never written: whatever the opening executable,
  the event's \<open>proc\<close> field is the stale content of the reserved ring-buffer slot, and without a
  matching rule so is its \<open>rule_id\<close>.\<close>

theorem event_process_is_stale:
  assumes "snd (fg_file_open v ctx file) = Some e" and "ctx_slot ctx = Some slot"
  shows "ev_proc e = ev_proc slot \<and> ev_pad e = ev_pad slot \<and>
    (if ev_reason e = FG_REASON_POLICY_RULE then True else ev_rule_id e = ev_rule_id slot)"
  using assms fg_file_open_mediated [OF fg_file_open_event_mediated [OF assms(1)], of ctx]
  by (auto simp: fg_decision_def split: option.splits if_splits)

theorem event_process_is_stale_witness:
  "\<exists>e. snd (fg_file_open demo_view (demo_ctx 300 555) (demo_file 100)) = Some e \<and>
     exe_id (demo_ctx 300 555) = demo_fid 300 \<and> ev_proc e = demo_fid 555"
proof -
  obtain e where e: "snd (fg_file_open demo_view (demo_ctx 300 555) (demo_file 100)) = Some e"
    using demo_denied_event by blast
  have "ctx_slot (demo_ctx 300 555) = Some (demo_slot 555)" by (simp add: demo_ctx_def)
  from e event_process_is_stale [OF e this] show ?thesis
    by (simp add: demo_exe_id demo_slot_def)
qed

end
