(* ===== verification/Ebpf_Manager.thy ===== *)
theory Ebpf_Manager
  imports Enforcer Kernel_Program
begin

text \<open>
  The Linux backend \<open>LinuxEBPFEnforcer\<close>: \<open>include/fileguard/ebpf_manager.hpp\<close> and
  \<open>src/ebpf_manager_linux.cpp\<close>. The kernel's hash and array maps are reached through libbpf
  only, so the map operations are arguments of the model (\<open>map_ops\<close>), on an abstract map type;
  what bpf(2) documents of them is the hypothesis \<open>map_laws\<close>. Every map content that a
  concurrent open can see while a policy is replaced is recorded in \<open>km_log\<close>, an observation
  that no operation reads.
\<close>

section \<open>libbpf as the code uses it\<close>

datatype update_flag = BPF_ANY | BPF_NOEXIST

text \<open>Each operation gives the call's return value and \<open>errno\<close>, and the map after the call.\<close>

record ('m, 'k, 'v) map_ops =
  mo_update :: "'m \<Rightarrow> 'k \<Rightarrow> 'v \<Rightarrow> update_flag \<Rightarrow> (int \<times> nat) \<times> 'm"
  mo_lookup :: "'m \<Rightarrow> 'k \<Rightarrow> 'v option"
  mo_delete :: "'m \<Rightarrow> 'k \<Rightarrow> 'm"
  mo_next :: "'m \<Rightarrow> 'k option \<Rightarrow> (int \<times> nat) \<times> 'k"

definition ENOENT :: nat where "ENOENT = 2"
definition EEXIST :: nat where "EEXIST = 17"

record ('p, 'r, 'c) bpf_sys =
  bs_protected :: "('p, fileguard_file_id, fileguard_protected_val) map_ops"
  bs_rules :: "('r, fileguard_rule_key, fileguard_rule_val) map_ops"
  bs_config :: "('c, u32, fileguard_config) map_ops"
  bs_strerror :: "nat \<Rightarrow> string"

text \<open>The outcome of the calls that \<open>load\<close> makes: \<open>None\<close> is success, \<open>Some e\<close> a failure with
  \<open>errno = e\<close>; the kernel's LSM list as read from \<open>/sys/kernel/security/lsm\<close>; the maps of the
  freshly loaded object. Loading depends on the sizes set on the maps.\<close>

record ('p, 'r, 'c) load_env =
  env_open :: "nat option"
  env_load :: "map_sizes \<Rightarrow> nat option"
  env_attach :: "nat option"
  env_lsm_list :: "string option"
  env_ring_new :: "nat option"
  env_maps :: "map_sizes \<Rightarrow> 'p \<times> 'r \<times> 'c"

section \<open>State\<close>

record ('p, 'r, 'c) kernel_maps =
  km_protected :: 'p
  km_rules :: 'r
  km_config :: 'c
  km_log :: "('p \<times> 'r \<times> 'c) list"

record ('p, 'r, 'c) linux_enforcer =
  le_cfg :: enforcer_config
  le_skel :: bool \<comment> \<open>\<open>skel_ != nullptr\<close>\<close>
  le_ring :: bool \<comment> \<open>\<open>ring_ != nullptr\<close>\<close>
  le_status :: enforcer_status
  le_maps :: "('p, 'r, 'c) kernel_maps" \<comment> \<open>the maps of the loaded object\<close>

text \<open>The constructor; before \<open>load\<close> there are no maps, so \<open>maps\<close> is never read.\<close>

definition linux_new :: "('p, 'r, 'c) kernel_maps \<Rightarrow> enforcer_config \<Rightarrow> ('p, 'r, 'c) linux_enforcer" where
  "linux_new maps cfg = \<lparr>le_cfg = cfg, le_skel = False, le_ring = False, le_status = initial_status,
     le_maps = maps\<rparr>"

definition bpf_err :: "('p, 'r, 'c) bpf_sys \<Rightarrow> nat \<Rightarrow> string" where
  "bpf_err B e = '' (errno='' @ show_nat e @ '': '' @ bs_strerror B e @ '')''"

section \<open>\<open>load\<close>\<close>

fun starts_with :: "string \<Rightarrow> string \<Rightarrow> bool" where
  "starts_with [] s = True"
| "starts_with (c # cs) [] = False"
| "starts_with (c # cs) (d # ds) = (c = d \<and> starts_with cs ds)"

text \<open>\<open>s.find(sub) != npos\<close>\<close>

fun contains_substring :: "string \<Rightarrow> string \<Rightarrow> bool" where
  "contains_substring sub [] = (sub = [])"
| "contains_substring sub (c # cs) = (starts_with sub (c # cs) \<or> contains_substring sub cs)"

text \<open>\<open>bpf_map__set_max_entries\<close> on the opened object, for the sizes that are configured.\<close>

definition load_sizes :: "enforcer_config \<Rightarrow> map_sizes" where
  "load_sizes cfg =
     (let s1 = (if ec_map_entries cfg > 0
          then program_sizes\<lparr>ms_protected := ec_map_entries cfg, ms_rules := ec_map_entries cfg\<rparr>
          else program_sizes)
      in if ec_ringbuf_bytes cfg > 0 then s1\<lparr>ms_events := ec_ringbuf_bytes cfg\<rparr> else s1)"

definition linux_load ::
  "('p, 'r, 'c) bpf_sys \<Rightarrow> ('p, 'r, 'c) load_env \<Rightarrow> ('p, 'r, 'c) linux_enforcer \<Rightarrow>
     unit result \<times> ('p, 'r, 'c) linux_enforcer" where
  "linux_load B env e =
     (if le_skel e then (Inl ''enforcer already loaded'', e)
      else case env_open env of
        Some n \<Rightarrow> (Inl (''fileguard_bpf__open failed: '' @ bpf_err B n), e)
      | None \<Rightarrow>
        (let sizes = load_sizes (le_cfg e); (p, r, c) = env_maps env sizes in
         case env_load env sizes of
           Some n \<Rightarrow> (Inl (''fileguard_bpf__load failed'' @ bpf_err B n @ '' '' @ em_dash @
             '' check the verifier log above; the kernel needs CONFIG_BPF=y, CONFIG_BPF_LSM=y, CONFIG_BPF_RINGBUF=y, CONFIG_DEBUG_INFO_BTF=y and CAP_BPF/CAP_SYS_ADMIN.''), e)
         | None \<Rightarrow>
           (case env_attach env of
              Some n \<Rightarrow> (Inl (''fileguard_bpf__attach failed'' @ bpf_err B n @ '' '' @ em_dash @
                '' check that the kernel was booted with the bpf LSM in the CONFIG_LSM=... ordering.''), e)
            | None \<Rightarrow>
              (case env_lsm_list env of
                 None \<Rightarrow> (Inl (''cannot read /sys/kernel/security/lsm '' @ em_dash @
                   '' the kernel LSM framework (CONFIG_SECURITY) may be disabled. The security_file_open hook would never run. Refusing to claim enforcement (fail-open).''), e)
               | Some lsm_list \<Rightarrow>
                 if \<not> contains_substring ''bpf'' lsm_list then
                   (Inl (''the bpf LSM is not enabled on this kernel (CONFIG_LSM order: '' @ lsm_list @
                     ''). The security_file_open hook would never fire, so nothing would be enforced. Refusing to claim enforcement (fail-open).''), e)
                 else (case env_ring_new env of
                   Some n \<Rightarrow> (Inl (''ring_buffer__new failed'' @ bpf_err B n), e\<lparr>le_ring := False\<rparr>)
                 | None \<Rightarrow>
                   (Inr (), e\<lparr>le_skel := True, le_ring := True,
                      le_maps := \<lparr>km_protected = p, km_rules = r, km_config = c, km_log = []\<rparr>,
                      le_status := (le_status e)\<lparr>st_attached := True, st_enforcing := False,
                        st_backend := ''ebpf-lsm'',
                        st_detail := ''LSM hook security_file_open attached''\<rparr>\<rparr>))))))"

section \<open>\<open>clear_map\<close>\<close>

text \<open>The deletion loop; it ends when \<open>bpf_map_get_next_key\<close> does not return 0. The list
  collects the map after each deletion.\<close>

partial_function (option) clear_loop ::
  "('m, 'k, 'v) map_ops \<Rightarrow> 'm \<Rightarrow> 'm list \<Rightarrow> 'k \<Rightarrow> ((int \<times> nat) \<times> 'm \<times> 'm list) option" where
  "clear_loop A m log key =
     (let m' = mo_delete A m key in
      case mo_next A m' (Some key) of
        ((res, errno), next_key) \<Rightarrow>
          if res = 0 then clear_loop A m' (log @ [m']) next_key
          else Some ((res, errno), m', log @ [m']))"

definition clear_map ::
  "('p, 'r, 'c) bpf_sys \<Rightarrow> string \<Rightarrow> ('m, 'k, 'v) map_ops \<Rightarrow> 'm \<Rightarrow> (unit result \<times> 'm \<times> 'm list) option" where
  "clear_map B map_name A m =
     (case mo_next A m None of
        ((res0, errno0), key) \<Rightarrow>
          (case (if res0 = 0 then clear_loop A m [] key else Some ((res0, errno0), m, [])) of
             None \<Rightarrow> None
           | Some ((res, errno), m', log) \<Rightarrow>
               Some (if res \<noteq> 0 \<and> res \<noteq> - int ENOENT
                     then Inl (''clear_map: iteration failed for '' @ quoted map_name @ bpf_err B errno)
                     else Inr (), m', log)))"

section \<open>\<open>apply_policy\<close>\<close>

definition snapshot :: "('p, 'r, 'c) kernel_maps \<Rightarrow> 'p \<times> 'r \<times> 'c" where
  "snapshot m = (km_protected m, km_rules m, km_config m)"

definition set_config ::
  "('p, 'r, 'c) bpf_sys \<Rightarrow> fileguard_config \<Rightarrow> ('p, 'r, 'c) kernel_maps \<Rightarrow>
     (int \<times> nat) \<times> ('p, 'r, 'c) kernel_maps" where
  "set_config B cfg m =
     (case mo_update (bs_config B) (km_config m) 0 cfg BPF_ANY of
        (ret, c) \<Rightarrow> (ret, m\<lparr>km_config := c,
                          km_log := km_log m @ [(km_protected m, km_rules m, c)]\<rparr>))"

definition clear_protected ::
  "('p, 'r, 'c) bpf_sys \<Rightarrow> ('p, 'r, 'c) kernel_maps \<Rightarrow> (unit result \<times> ('p, 'r, 'c) kernel_maps) option" where
  "clear_protected B m =
     map_option (\<lambda>(r, p, log). (r, m\<lparr>km_protected := p,
         km_log := km_log m @ map (\<lambda>q. (q, km_rules m, km_config m)) log\<rparr>))
       (clear_map B ''fileguard_protected'' (bs_protected B) (km_protected m))"

definition clear_rules ::
  "('p, 'r, 'c) bpf_sys \<Rightarrow> ('p, 'r, 'c) kernel_maps \<Rightarrow> (unit result \<times> ('p, 'r, 'c) kernel_maps) option" where
  "clear_rules B m =
     map_option (\<lambda>(r, q, log). (r, m\<lparr>km_rules := q,
         km_log := km_log m @ map (\<lambda>q. (km_protected m, q, km_config m)) log\<rparr>))
       (clear_map B ''fileguard_rules'' (bs_rules B) (km_rules m))"

text \<open>\<open>clear_map\<close> takes the map by its name; the descriptor of a loaded map is never negative.\<close>

definition clear_by_name ::
  "('p, 'r, 'c) bpf_sys \<Rightarrow> string \<Rightarrow> ('p, 'r, 'c) kernel_maps \<Rightarrow> (unit result \<times> ('p, 'r, 'c) kernel_maps) option" where
  "clear_by_name B map_name m =
     (if map_name = FG_MAP_PROTECTED then clear_protected B m
      else if map_name = FG_MAP_RULES then clear_rules B m
      else Some (Inl (''clear_map: unknown map '' @ quoted map_name), m))"

lemma clear_by_name_simps [simp]:
  "clear_by_name B FG_MAP_PROTECTED m = clear_protected B m" "clear_by_name B FG_MAP_RULES m = clear_rules B m"
  by (simp_all add: clear_by_name_def FG_MAP_PROTECTED_def FG_MAP_RULES_def)

fun insert_protected ::
  "('p, 'r, 'c) bpf_sys \<Rightarrow> file_id list \<Rightarrow> ('p, 'r, 'c) kernel_maps \<Rightarrow>
     unit result \<times> ('p, 'r, 'c) kernel_maps" where
  "insert_protected B [] m = (Inr (), m)"
| "insert_protected B (i # ids) m =
     (case mo_update (bs_protected B) (km_protected m) (to_abi i) \<lparr>prot_reserved = 0\<rparr> BPF_NOEXIST of
        ((ret, errno), p) \<Rightarrow>
          (let m' = m\<lparr>km_protected := p, km_log := km_log m @ [(p, km_rules m, km_config m)]\<rparr> in
           if ret < 0 \<and> errno \<noteq> EEXIST then
             (Inl (''cannot insert protected resource'' @ bpf_err B errno), m')
           else insert_protected B ids m'))"

definition rule_key :: "compiled_rule \<Rightarrow> fileguard_rule_key" where
  "rule_key r = \<lparr>key_res = to_abi (cr_resource r), key_proc = to_abi (cr_process r)\<rparr>"

definition rule_val :: "compiled_rule \<Rightarrow> fileguard_rule_val" where
  "rule_val r = \<lparr>val_rule_id = cr_rule_id r, val_action = ucast (action_code (cr_action r)),
     val_operation = ucast (operation_code (cr_operation r)), val_reserved = 0\<rparr>"

fun insert_rules ::
  "('p, 'r, 'c) bpf_sys \<Rightarrow> compiled_rule list \<Rightarrow> ('p, 'r, 'c) kernel_maps \<Rightarrow>
     unit result \<times> ('p, 'r, 'c) kernel_maps" where
  "insert_rules B [] m = (Inr (), m)"
| "insert_rules B (r # rs) m =
     (case mo_update (bs_rules B) (km_rules m) (rule_key r) (rule_val r) BPF_NOEXIST of
        ((ret, errno), q) \<Rightarrow>
          (let m' = m\<lparr>km_rules := q, km_log := km_log m @ [(km_protected m, q, km_config m)]\<rparr> in
           if ret < 0 \<and> errno \<noteq> EEXIST then
             (Inl (''cannot insert policy rule'' @ bpf_err B errno), m')
           else insert_rules B rs m'))"

text \<open>Phases 1 to 3 on the maps; \<open>None\<close> is a clearing loop that does not end.\<close>

definition install_maps ::
  "('p, 'r, 'c) bpf_sys \<Rightarrow> compiled_policy \<Rightarrow> ('p, 'r, 'c) kernel_maps \<Rightarrow>
     (unit result \<times> ('p, 'r, 'c) kernel_maps) option" where
  "install_maps B policy m0 =
     (case set_config B (zero_config\<lparr>conf_enabled := 0\<rparr>) m0 of
        ((ret1, errno1), m1) \<Rightarrow>
        if ret1 < 0 then Some (Inl (''cannot pause enforcement (config map)'' @ bpf_err B errno1), m1)
        else case clear_by_name B FG_MAP_PROTECTED m1 of
          None \<Rightarrow> None
        | Some (Inl e, m2) \<Rightarrow> Some (Inl e, m2)
        | Some (Inr _, m2) \<Rightarrow>
          (case clear_by_name B FG_MAP_RULES m2 of
             None \<Rightarrow> None
           | Some (Inl e, m3) \<Rightarrow> Some (Inl e, m3)
           | Some (Inr _, m3) \<Rightarrow>
             (case insert_protected B (cp_protected_resources policy) m3 of
                (Inl e, m4) \<Rightarrow> Some (Inl e, m4)
              | (Inr _, m4) \<Rightarrow>
                (case insert_rules B (cp_rules policy) m4 of
                   (Inl e, m5) \<Rightarrow> Some (Inl e, m5)
                 | (Inr _, m5) \<Rightarrow>
                   (case set_config B (zero_config\<lparr>conf_enabled := 1,
                            conf_policy_version := cp_version policy\<rparr>) m5 of
                      ((ret6, errno6), m6) \<Rightarrow>
                        if ret6 < 0
                        then Some (Inl (''cannot enable policy (config map)'' @ bpf_err B errno6), m6)
                        else Some (Inr (), m6))))))"

definition linux_apply_policy ::
  "('p, 'r, 'c) bpf_sys \<Rightarrow> ('p, 'r, 'c) linux_enforcer \<Rightarrow> compiled_policy \<Rightarrow>
     (unit result \<times> ('p, 'r, 'c) linux_enforcer) option" where
  "linux_apply_policy B e policy =
     (if \<not> le_skel e then Some (Inl ''enforcer not loaded'', e)
      else case install_maps B policy (le_maps e) of
        None \<Rightarrow> None
      | Some (Inl msg, m) \<Rightarrow> Some (Inl msg, e\<lparr>le_maps := m\<rparr>)
      | Some (Inr _, m) \<Rightarrow>
          Some (Inr (), e\<lparr>le_maps := m, le_status := (le_status e)\<lparr>
            st_policy_version := cp_version policy,
            st_protected_count := length (cp_protected_resources policy),
            st_rule_count := length (cp_rules policy),
            st_enforcing := True\<rparr>\<rparr>))"

section \<open>\<open>status\<close>, \<open>detach\<close>, \<open>run\<close>\<close>

definition linux_status :: "('p, 'r, 'c) bpf_sys \<Rightarrow> ('p, 'r, 'c) linux_enforcer \<Rightarrow> enforcer_status" where
  "linux_status B e =
     (let s = le_status e in
      if le_skel e then
        (case mo_lookup (bs_config B) (km_config (le_maps e)) 0 of
           Some cfg \<Rightarrow> s\<lparr>st_enforcing := (conf_enabled cfg \<noteq> 0),
                          st_policy_version := conf_policy_version cfg\<rparr>
         | None \<Rightarrow> s)
      else s)"

definition linux_detach :: "('p, 'r, 'c) linux_enforcer \<Rightarrow> unit result \<times> ('p, 'r, 'c) linux_enforcer" where
  "linux_detach e = (Inr (), e\<lparr>le_ring := False, le_skel := False,
     le_status := (le_status e)\<lparr>st_attached := False, st_enforcing := False, st_policy_version := 0,
       st_detail := ''detached: enforcement removed (fail-open)''\<rparr>\<rparr>)"

text \<open>The destructor detaches; after a \<open>detach\<close> it finds nothing left to release.\<close>

definition linux_destroy :: "('p, 'r, 'c) linux_enforcer \<Rightarrow> ('p, 'r, 'c) linux_enforcer" where
  "linux_destroy e = snd (linux_detach e)"

lemma linux_destroy_detached: "linux_destroy (snd (linux_detach e)) = snd (linux_detach e)"
  by (simp add: linux_destroy_def linux_detach_def)

text \<open>\<open>run\<close>: the poll results until the stop request, each a return value and \<open>errno\<close>; the
  records delivered by a poll go through \<open>ring_callback\<close> below.\<close>

fun linux_run ::
  "('p, 'r, 'c) bpf_sys \<Rightarrow> (int \<times> nat) list \<Rightarrow> ('p, 'r, 'c) linux_enforcer \<Rightarrow> ('p, 'r, 'c) linux_enforcer" where
  "linux_run B [] e = e"
| "linux_run B ((n, errno) # polls) e =
     (if \<not> le_ring e then e
      else if n < 0 then e\<lparr>le_status := (le_status e)\<lparr>st_detail :=
             ''ring buffer poll error'' @ bpf_err B errno\<rparr>\<rparr>
      else linux_run B polls e)"

section \<open>\<open>ring_callback\<close>\<close>

text \<open>\<open>sizeof(fileguard_event_t)\<close>: 4 bytes of padding after \<open>magic\<close> align the timestamp.\<close>

definition sizeof_event :: nat where "sizeof_event = 88"

definition decode_event :: "fileguard_event \<Rightarrow> raw_event" where
  "decode_event e = \<lparr>raw_timestamp_ns = ev_timestamp_ns e, raw_pid = ev_pid e, raw_tgid = ev_tgid e,
     raw_uid = ev_uid e, raw_gid = ev_gid e, raw_resource = from_abi (ev_res e),
     raw_process = from_abi (ev_proc e), raw_rule_id = ev_rule_id e,
     raw_operation = operation_of_code (ev_operation e), raw_action = action_of_code (ev_action e),
     raw_reason = reason_of_code (ev_reason e),
     raw_comm = takeWhile (\<lambda>c. c \<noteq> CHR 0x00) (take FG_MAX_COMM (ev_comm e))\<rparr>"

text \<open>The record delivered to \<open>on_event\<close>, if any, and the enforcer after the call.\<close>

definition ring_callback ::
  "('p, 'r, 'c) linux_enforcer \<Rightarrow> fileguard_event option \<Rightarrow> nat \<Rightarrow>
     raw_event option \<times> ('p, 'r, 'c) linux_enforcer" where
  "ring_callback self data sz =
     (case data of
        None \<Rightarrow> (None, self\<lparr>le_status := (le_status self)\<lparr>st_detail := ''malformed ring buffer record''\<rparr>\<rparr>)
      | Some e \<Rightarrow>
          if sz \<noteq> sizeof_event then
            (None, self\<lparr>le_status := (le_status self)\<lparr>st_detail := ''malformed ring buffer record''\<rparr>\<rparr>)
          else if ev_magic e \<noteq> FG_MAGIC then
            (None, self\<lparr>le_status := (le_status self)\<lparr>st_detail := ''ring buffer magic mismatch''\<rparr>\<rparr>)
          else (if ec_on_event (le_cfg self) then Some (decode_event e) else None, self))"

section \<open>What bpf(2) documents of the maps\<close>

text \<open>
  A hash map holds finitely many keys. A failed update changes nothing; a successful one stores
  the value; \<open>BPF_NOEXIST\<close> fails with \<open>EEXIST\<close> on a present key, and only then with this
  error. Deletion removes the key. \<open>bpf_map_get_next_key\<close> with no key, or with a key that is
  not in the map, gives some key of the map, and \<open>-ENOENT\<close> when there is none.
\<close>

definition hash_map_laws :: "('m, 'k, 'v) map_ops \<Rightarrow> bool" where
  "hash_map_laws A \<longleftrightarrow>
     (\<forall>m. finite (dom (mo_lookup A m))) \<and>
     (\<forall>m k v fl ret errno m'. mo_update A m k v fl = ((ret, errno), m') \<longrightarrow>
        mo_lookup A m' = (if ret < 0 then mo_lookup A m else (mo_lookup A m)(k \<mapsto> v))) \<and>
     (\<forall>m k v ret errno m'. mo_update A m k v BPF_NOEXIST = ((ret, errno), m') \<longrightarrow>
        (ret < 0 \<and> errno = EEXIST \<longleftrightarrow> mo_lookup A m k \<noteq> None)) \<and>
     (\<forall>m k. mo_lookup A (mo_delete A m k) = (mo_lookup A m)(k := None)) \<and>
     (\<forall>m ko ret errno key. mo_next A m ko = ((ret, errno), key) \<longrightarrow>
        (case ko of None \<Rightarrow> True | Some k \<Rightarrow> mo_lookup A m k = None) \<longrightarrow>
        (if mo_lookup A m = Map.empty then ret = - int ENOENT
         else ret = 0 \<and> mo_lookup A m key \<noteq> None))"

text \<open>The one-element array map: its element is replaced, or the call fails and nothing
  changes.\<close>

definition config_map_laws :: "('c, u32, fileguard_config) map_ops \<Rightarrow> bool" where
  "config_map_laws A \<longleftrightarrow>
     (\<forall>m v ret errno m'. mo_update A m 0 v BPF_ANY = ((ret, errno), m') \<longrightarrow>
        mo_lookup A m' 0 = (if ret < 0 then mo_lookup A m 0 else Some v))"

definition bpf_laws :: "('p, 'r, 'c) bpf_sys \<Rightarrow> bool" where
  "bpf_laws B \<longleftrightarrow> hash_map_laws (bs_protected B) \<and> hash_map_laws (bs_rules B) \<and>
     config_map_laws (bs_config B)"

lemma hash_finite: "hash_map_laws A \<Longrightarrow> finite (dom (mo_lookup A m))"
  by (simp add: hash_map_laws_def)

lemma hash_update:
  "hash_map_laws A \<Longrightarrow> mo_update A m k v fl = ((ret, errno), m') \<Longrightarrow>
     mo_lookup A m' = (if ret < 0 then mo_lookup A m else (mo_lookup A m)(k \<mapsto> v))"
  unfolding hash_map_laws_def by meson

lemma hash_noexist:
  "hash_map_laws A \<Longrightarrow> mo_update A m k v BPF_NOEXIST = ((ret, errno), m') \<Longrightarrow>
     ret < 0 \<and> errno = EEXIST \<longleftrightarrow> mo_lookup A m k \<noteq> None"
  by (drule iffD1 [OF hash_map_laws_def], elim conjE)
     (drule spec [of _ m], drule spec [of _ m], blast)

lemma hash_delete [simp]:
  "hash_map_laws A \<Longrightarrow> mo_lookup A (mo_delete A m k) = (mo_lookup A m)(k := None)"
  by (simp add: hash_map_laws_def)

lemma hash_next_empty:
  "hash_map_laws A \<Longrightarrow> mo_next A m ko = ((ret, errno), key) \<Longrightarrow>
     (case ko of None \<Rightarrow> True | Some k \<Rightarrow> mo_lookup A m k = None) \<Longrightarrow>
     mo_lookup A m = Map.empty \<Longrightarrow> ret = - int ENOENT"
  unfolding hash_map_laws_def by meson

lemma hash_next_some:
  "hash_map_laws A \<Longrightarrow> mo_next A m ko = ((ret, errno), key) \<Longrightarrow>
     (case ko of None \<Rightarrow> True | Some k \<Rightarrow> mo_lookup A m k = None) \<Longrightarrow>
     mo_lookup A m \<noteq> Map.empty \<Longrightarrow> ret = 0 \<and> mo_lookup A m key \<noteq> None"
  unfolding hash_map_laws_def by meson

section \<open>\<open>clear_map\<close> ends and empties the map\<close>

lemma clear_loop_empties:
  assumes laws: "hash_map_laws A" and key: "mo_lookup A m key \<noteq> None"
  shows "\<exists>errno m' log'. clear_loop A m log key = Some ((- int ENOENT, errno), m', log') \<and>
    mo_lookup A m' = Map.empty"
  using key
proof (induction "card (dom (mo_lookup A m))" arbitrary: m key log rule: less_induct)
  case less
  define m' where "m' = mo_delete A m key"
  obtain res errno nk where nx: "mo_next A m' (Some key) = ((res, errno), nk)"
    by (metis prod.exhaust)
  have lk: "mo_lookup A m' = (mo_lookup A m)(key := None)" using laws by (simp add: m'_def)
  note unf = clear_loop.simps [of A m log key] m'_def [symmetric] nx
  show ?case
  proof (cases "mo_lookup A m' = Map.empty")
    case True
    with hash_next_empty [OF laws nx] lk have "res = - int ENOENT" by simp
    then show ?thesis using True by (simp add: unf ENOENT_def Let_def)
  next
    case False
    with hash_next_some [OF laws nx] lk have n: "res = 0" "mo_lookup A m' nk \<noteq> None" by simp_all
    have "card (dom (mo_lookup A m')) < card (dom (mo_lookup A m))"
      using less.prems by (intro psubset_card_mono [OF hash_finite [OF laws]]) (auto simp: lk)
    from less.hyps [OF this n(2)] show ?thesis using n by (simp add: unf Let_def)
  qed
qed

lemma clear_map_empties:
  assumes "hash_map_laws A"
  shows "\<exists>m' log. clear_map B name A m = Some (Inr (), m', log) \<and> mo_lookup A m' = Map.empty"
proof -
  obtain res errno key where nx: "mo_next A m None = ((res, errno), key)" by (metis prod.exhaust)
  show ?thesis
  proof (cases "mo_lookup A m = Map.empty")
    case True
    with hash_next_empty [OF assms nx] show ?thesis by (simp add: clear_map_def nx ENOENT_def)
  next
    case False
    with hash_next_some [OF assms nx] clear_loop_empties [OF assms, of m key "[]"]
    show ?thesis by (auto simp: clear_map_def nx)
  qed
qed

section \<open>The maps after an install\<close>

definition view_of :: "('p, 'r, 'c) bpf_sys \<Rightarrow> 'p \<times> 'r \<times> 'c \<Rightarrow> kview" where
  "view_of B s = \<lparr>kv_config = mo_lookup (bs_config B) (snd (snd s)) 0,
     kv_protected = mo_lookup (bs_protected B) (fst s),
     kv_rules = mo_lookup (bs_rules B) (fst (snd s))\<rparr>"

text \<open>What the kernel should see once a compiled policy is installed.\<close>

definition installed_view :: "compiled_policy \<Rightarrow> kview" where
  "installed_view cp = \<lparr>kv_config = Some \<lparr>conf_policy_version = cp_version cp, conf_enabled = 1,
       conf_reserved = (0, 0)\<rparr>,
     kv_protected = (\<lambda>k. if k \<in> to_abi ` set (cp_protected_resources cp)
       then Some \<lparr>prot_reserved = 0\<rparr> else None),
     kv_rules = (\<lambda>k. map_option rule_val (find (\<lambda>r. rule_key r = k) (cp_rules cp)))\<rparr>"

text \<open>One insertion under \<open>BPF_NOEXIST\<close> that is not a hard failure keeps a present entry and
  adds an absent one.\<close>

lemma noexist_step:
  assumes "hash_map_laws A" and "mo_update A m k v BPF_NOEXIST = ((ret, errno), m')"
    and "\<not> (ret < 0 \<and> errno \<noteq> EEXIST)"
  shows "mo_lookup A m' = (\<lambda>j. if j = k \<and> mo_lookup A m k = None then Some v else mo_lookup A m j)"
  using hash_update [OF assms(1,2)] hash_noexist [OF assms(1,2)] assms(3) by fastforce

lemma insert_protected_Inr:
  assumes "hash_map_laws (bs_protected B)" and "insert_protected B ids m = (Inr (), m')"
  shows "mo_lookup (bs_protected B) (km_protected m') =
    (\<lambda>k. if k \<in> to_abi ` set ids \<and> mo_lookup (bs_protected B) (km_protected m) k = None
         then Some \<lparr>prot_reserved = 0\<rparr> else mo_lookup (bs_protected B) (km_protected m) k)"
  using assms
proof (induction B ids m rule: insert_protected.induct)
  case (2 B i ids m)
  obtain ret errno p where up: "mo_update (bs_protected B) (km_protected m) (to_abi i)
      \<lparr>prot_reserved = 0\<rparr> BPF_NOEXIST = ((ret, errno), p)"
    by (metis prod.exhaust)
  have soft: "\<not> (ret < 0 \<and> errno \<noteq> EEXIST)"
    using "2.prems"(2) by (auto simp: up Let_def split: if_splits)
  show ?case
    using "2.IH" [OF up [symmetric] refl refl soft "2.prems"(1)] "2.prems"(2)
      noexist_step [OF "2.prems"(1) up soft] soft
    by (auto simp: up Let_def fun_eq_iff)
qed simp

lemma insert_rules_Inr:
  assumes "hash_map_laws (bs_rules B)" and "insert_rules B rs m = (Inr (), m')"
  shows "mo_lookup (bs_rules B) (km_rules m') =
    (\<lambda>k. case mo_lookup (bs_rules B) (km_rules m) k of Some v \<Rightarrow> Some v
         | None \<Rightarrow> map_option rule_val (find (\<lambda>r. rule_key r = k) rs))"
  using assms
proof (induction B rs m rule: insert_rules.induct)
  case (1 B m)
  then show ?case by (auto split: option.splits)
next
  case (2 B r rs m)
  obtain ret errno q where up: "mo_update (bs_rules B) (km_rules m) (rule_key r)
      (rule_val r) BPF_NOEXIST = ((ret, errno), q)"
    by (metis prod.exhaust)
  have soft: "\<not> (ret < 0 \<and> errno \<noteq> EEXIST)"
    using "2.prems"(2) by (auto simp: up Let_def split: if_splits)
  show ?case
    using "2.IH" [OF up [symmetric] refl refl soft "2.prems"(1)] "2.prems"(2)
      noexist_step [OF "2.prems"(1) up soft] soft
    by (auto simp: up Let_def fun_eq_iff split: option.splits)
qed

text \<open>The window between the two config writes: the steps that leave the config map alone and
  log only contents with that config.\<close>

definition quiet :: "('p, 'r, 'c) kernel_maps \<Rightarrow> ('p, 'r, 'c) kernel_maps \<Rightarrow> bool" where
  "quiet m m' \<longleftrightarrow> km_config m' = km_config m \<and>
     (\<exists>l. km_log m' = km_log m @ l \<and> (\<forall>s \<in> set l. snd (snd s) = km_config m))"

lemma quiet_refl [simp]: "quiet m m"
  by (simp add: quiet_def)

lemma quiet_trans: "quiet m m' \<Longrightarrow> quiet m' m'' \<Longrightarrow> quiet m m''"
  by (auto simp: quiet_def)

lemma quiet_logI:
  "\<forall>s \<in> set l. snd (snd s) = km_config m \<Longrightarrow> km_config m' = km_config m \<Longrightarrow>
     km_log m' = km_log m @ l \<Longrightarrow> quiet m m'"
  by (auto simp: quiet_def)

lemma clear_protected_quiet: "clear_protected B m = Some (r, m') \<Longrightarrow> quiet m m'"
  by (auto simp: clear_protected_def quiet_def)

lemma clear_rules_quiet: "clear_rules B m = Some (r, m') \<Longrightarrow> quiet m m'"
  by (auto simp: clear_rules_def quiet_def)

lemma insert_protected_quiet: "insert_protected B ids m = (r, m') \<Longrightarrow> quiet m m'"
proof (induction B ids m rule: insert_protected.induct)
  case (2 B i ids m)
  obtain ret errno p where up: "mo_update (bs_protected B) (km_protected m) (to_abi i)
      \<lparr>prot_reserved = 0\<rparr> BPF_NOEXIST = ((ret, errno), p)"
    by (metis prod.exhaust)
  let ?m1 = "m\<lparr>km_protected := p, km_log := km_log m @ [(p, km_rules m, km_config m)]\<rparr>"
  have q1: "quiet m ?m1" by (rule quiet_logI [where l = "[(p, km_rules m, km_config m)]"]) simp_all
  show ?case
  proof (cases "ret < 0 \<and> errno \<noteq> EEXIST")
    case True
    then show ?thesis using 2 q1 by (auto simp: up)
  next
    case False
    then have "insert_protected B ids ?m1 = (r, m')"
      using "2.prems" by (auto simp: up Let_def split: if_splits)
    with "2.IH" [OF up [symmetric] refl refl False] have "quiet ?m1 m'" by simp
    with q1 show ?thesis by (rule quiet_trans)
  qed
qed simp

lemma insert_rules_quiet: "insert_rules B rs m = (r, m') \<Longrightarrow> quiet m m'"
proof (induction B rs m rule: insert_rules.induct)
  case (2 B r1 rs m)
  obtain ret errno q where up: "mo_update (bs_rules B) (km_rules m) (rule_key r1)
      (rule_val r1) BPF_NOEXIST = ((ret, errno), q)"
    by (metis prod.exhaust)
  let ?m1 = "m\<lparr>km_rules := q, km_log := km_log m @ [(km_protected m, q, km_config m)]\<rparr>"
  have q1: "quiet m ?m1" by (rule quiet_logI [where l = "[(km_protected m, q, km_config m)]"]) simp_all
  show ?case
  proof (cases "ret < 0 \<and> errno \<noteq> EEXIST")
    case True
    then show ?thesis using 2 q1 by (auto simp: up)
  next
    case False
    then have "insert_rules B rs ?m1 = (r, m')"
      using "2.prems" by (auto simp: up Let_def split: if_splits)
    with "2.IH" [OF up [symmetric] refl refl False] have "quiet ?m1 m'" by simp
    with q1 show ?thesis by (rule quiet_trans)
  qed
qed simp

lemma insert_protected_rules: "insert_protected B ids m = (r, m') \<Longrightarrow> km_rules m' = km_rules m"
  by (induction B ids m rule: insert_protected.induct)
     (auto simp: Let_def split: prod.splits if_splits)

lemma insert_rules_protected: "insert_rules B rs m = (r, m') \<Longrightarrow> km_protected m' = km_protected m"
  by (induction B rs m rule: insert_rules.induct)
     (auto simp: Let_def split: prod.splits if_splits)

lemma clear_protected_total:
  "hash_map_laws (bs_protected B) \<Longrightarrow> \<exists>m'. clear_protected B m = Some (Inr (), m') \<and>
     mo_lookup (bs_protected B) (km_protected m') = Map.empty \<and> km_rules m' = km_rules m"
  using clear_map_empties [of "bs_protected B" B "''fileguard_protected''" "km_protected m"]
  by (auto simp: clear_protected_def)

lemma clear_rules_total:
  "hash_map_laws (bs_rules B) \<Longrightarrow> \<exists>m'. clear_rules B m = Some (Inr (), m') \<and>
     mo_lookup (bs_rules B) (km_rules m') = Map.empty \<and> km_protected m' = km_protected m"
  using clear_map_empties [of "bs_rules B" B "''fileguard_rules''" "km_rules m"]
  by (auto simp: clear_rules_def)

text \<open>The run of \<open>install_maps\<close> under the documented laws, phase by phase.\<close>

definition pause_fails :: "('p, 'r, 'c) bpf_sys \<Rightarrow> ('p, 'r, 'c) kernel_maps \<Rightarrow> bool" where
  "pause_fails B m \<longleftrightarrow> fst (fst (set_config B (zero_config\<lparr>conf_enabled := 0\<rparr>) m)) < 0"

lemma set_config_config:
  "config_map_laws (bs_config B) \<Longrightarrow> set_config B cfg m = ((ret, errno), m') \<Longrightarrow>
     mo_lookup (bs_config B) (km_config m') 0 =
       (if ret < 0 then mo_lookup (bs_config B) (km_config m) 0 else Some cfg)"
  by (auto simp: set_config_def config_map_laws_def split: prod.splits)

lemma set_config_frame:
  "set_config B cfg m = (r, m') \<Longrightarrow> km_protected m' = km_protected m \<and> km_rules m' = km_rules m \<and>
     km_log m' = km_log m @ [snapshot m']"
  by (auto simp: set_config_def snapshot_def split: prod.splits)


text \<open>Between the two config writes: the maps are quiet since the pause.\<close>

definition paused_run ::
  "('p, 'r, 'c) bpf_sys \<Rightarrow> ('p, 'r, 'c) kernel_maps \<Rightarrow> ('p, 'r, 'c) kernel_maps \<Rightarrow> bool" where
  "paused_run B m0 m \<longleftrightarrow> mo_lookup (bs_config B) (km_config m) 0 = Some zero_config \<and>
     (\<exists>w. km_log m = km_log m0 @ w \<and>
        (\<forall>s \<in> set w. mo_lookup (bs_config B) (snd (snd s)) 0 = Some zero_config))"

lemma paused_run_quiet: "paused_run B m0 m \<Longrightarrow> quiet m m' \<Longrightarrow> paused_run B m0 m'"
  unfolding paused_run_def quiet_def by (elim conjE exE) (rule conjI, simp, rule_tac x = "w @ l" in exI, auto)

lemma pause_ok:
  assumes "config_map_laws (bs_config B)"
    and "set_config B (zero_config\<lparr>conf_enabled := 0\<rparr>) m0 = ((ret, errno), m1)" and "\<not> ret < 0"
  shows "paused_run B m0 m1"
proof -
  have "zero_config\<lparr>conf_enabled := 0\<rparr> = zero_config" by (simp add: zero_config_def)
  with set_config_config [OF assms(1,2)] set_config_frame [OF assms(2)] assms(3)
  show ?thesis unfolding paused_run_def by (auto simp: snapshot_def)
qed

text \<open>Phase 3 after the inserts.\<close>

lemma enable_phase:
  assumes "config_map_laws (bs_config B)" and "paused_run B m0 m5"
    and "set_config B (zero_config\<lparr>conf_enabled := 1, conf_policy_version := v\<rparr>) m5 = ((ret, errno), m6)"
  shows "if ret < 0 then paused_run B m0 m6
    else mo_lookup (bs_config B) (km_config m6) 0 =
           Some \<lparr>conf_policy_version = v, conf_enabled = 1, conf_reserved = (0, 0)\<rparr> \<and>
         (\<exists>w. km_log m6 = km_log m0 @ w @ [snapshot m6] \<and>
           (\<forall>s \<in> set w. mo_lookup (bs_config B) (snd (snd s)) 0 = Some zero_config))"
  using set_config_config [OF assms(1,3)] set_config_frame [OF assms(3)] assms(2)
  by (auto simp: paused_run_def snapshot_def zero_config_def)

definition install_outcome ::
  "('p, 'r, 'c) bpf_sys \<Rightarrow> compiled_policy \<Rightarrow> ('p, 'r, 'c) kernel_maps \<Rightarrow> unit result \<Rightarrow>
     ('p, 'r, 'c) kernel_maps \<Rightarrow> bool" where
  "install_outcome B cp m0 r m' \<longleftrightarrow>
     (if pause_fails B m0 then r \<noteq> Inr () \<and> view_of B (snapshot m') = view_of B (snapshot m0) \<and>
        km_log m' = km_log m0 @ [snapshot m']
      else if r \<noteq> Inr () then paused_run B m0 m'
      else view_of B (snapshot m') = installed_view cp \<and>
        (\<exists>w. km_log m' = km_log m0 @ w @ [snapshot m'] \<and>
           (\<forall>s \<in> set w. mo_lookup (bs_config B) (snd (snd s)) 0 = Some zero_config)))"

lemma install_maps_run:
  assumes laws: "bpf_laws B"
  shows "\<exists>r m'. install_maps B cp m0 = Some (r, m') \<and> install_outcome B cp m0 r m'"
proof -
  have L: "hash_map_laws (bs_protected B)" "hash_map_laws (bs_rules B)" "config_map_laws (bs_config B)"
    using laws by (simp_all add: bpf_laws_def)
  obtain ret1 errno1 m1 where s1: "set_config B (zero_config\<lparr>conf_enabled := 0\<rparr>) m0 = ((ret1, errno1), m1)"
    by (metis prod.exhaust)
  have pf: "pause_fails B m0 \<longleftrightarrow> ret1 < 0" by (simp add: pause_fails_def s1)
  show ?thesis
  proof (cases "ret1 < 0")
    case True
    then show ?thesis
      using set_config_config [OF L(3) s1] set_config_frame [OF s1] pf
      by (auto simp: install_maps_def s1 install_outcome_def view_of_def snapshot_def)
  next
    case False
    obtain m2 where m2: "clear_protected B m1 = Some (Inr (), m2)"
      and p2: "mo_lookup (bs_protected B) (km_protected m2) = Map.empty"
      using clear_protected_total [OF L(1)] by blast
    obtain m3 where m3: "clear_rules B m2 = Some (Inr (), m3)"
      and r3: "mo_lookup (bs_rules B) (km_rules m3) = Map.empty" and pp: "km_protected m3 = km_protected m2"
      using clear_rules_total [OF L(2)] by blast
    have p3: "mo_lookup (bs_protected B) (km_protected m3) = Map.empty" using p2 pp by simp
    have run3: "paused_run B m0 m3"
      using pause_ok [OF L(3) s1 False] clear_protected_quiet [OF m2] clear_rules_quiet [OF m3]
      by (blast intro: paused_run_quiet)
    obtain x4 m4 where m4: "insert_protected B (cp_protected_resources cp) m3 = (x4, m4)"
      by (metis prod.exhaust)
    have run4: "paused_run B m0 m4" using run3 insert_protected_quiet [OF m4] by (rule paused_run_quiet)
    note base = install_maps_def s1 False m2 m3 m4 install_outcome_def pf
    show ?thesis
    proof (cases x4)
      case (Inl e)
      with run4 show ?thesis by (simp add: base)
    next
      case (Inr u)
      obtain x5 m5 where m5: "insert_rules B (cp_rules cp) m4 = (x5, m5)" by (metis prod.exhaust)
      have run5: "paused_run B m0 m5" using run4 insert_rules_quiet [OF m5] by (rule paused_run_quiet)
      show ?thesis
      proof (cases x5)
        case (Inl e)
        with run5 show ?thesis by (simp add: base Inr m5)
      next
        case x5: (Inr u')
        obtain ret6 errno6 m6 where s6: "set_config B (zero_config\<lparr>conf_enabled := 1,
            conf_policy_version := cp_version cp\<rparr>) m5 = ((ret6, errno6), m6)" by (metis prod.exhaust)
        have "kv_protected (view_of B (snapshot m6)) = kv_protected (installed_view cp)"
          using insert_protected_Inr [OF L(1) m4 [unfolded Inr, simplified]] p3
            insert_rules_protected [OF m5] set_config_frame [OF s6]
          by (auto simp: view_of_def snapshot_def installed_view_def fun_eq_iff)
        moreover have "kv_rules (view_of B (snapshot m6)) = kv_rules (installed_view cp)"
          using insert_rules_Inr [OF L(2) m5 [unfolded x5, simplified]] r3
            insert_protected_rules [OF m4] set_config_frame [OF s6]
          by (simp add: view_of_def snapshot_def installed_view_def)
        ultimately show ?thesis
          using enable_phase [OF L(3) run5 s6]
          by (auto simp: base Inr m5 x5 s6 view_of_def snapshot_def installed_view_def)
      qed
    qed
  qed
qed

end
