(* ===== verification/Ebpf_Install.thy ===== *)
theory Ebpf_Install
  imports Ebpf_Manager
begin

text \<open>
  Correctness of the Linux backend of \<open>Ebpf_Manager\<close> under the documented map behaviour: the
  backend meets the contract of \<open>Enforcer\<close>, clearing ends, an install leaves exactly the
  compiled policy in the kernel, the update window is fail-open, and loading claims enforcement
  only when the kernel would run the hook. A bounded association list with the documented
  behaviour serves the witnesses.
\<close>

section \<open>The contract\<close>

lemma linux_apply_returns:
  assumes "bpf_laws B"
  shows "\<exists>r e'. linux_apply_policy B e cp = Some (r, e')"
  using install_maps_run [OF assms, of cp "le_maps e"]
  by (auto simp: linux_apply_policy_def split: sum.splits)

lemma linux_apply_Inr:
  assumes laws: "bpf_laws B" and ok: "linux_apply_policy B e cp = Some (Inr (), e')"
  shows "le_skel e \<and> le_skel e' \<and> view_of B (snapshot (le_maps e')) = installed_view cp \<and>
    le_status e' = (le_status e)\<lparr>st_policy_version := cp_version cp,
      st_protected_count := length (cp_protected_resources cp),
      st_rule_count := length (cp_rules cp), st_enforcing := True\<rparr>"
proof -
  obtain r m' where run: "install_maps B cp (le_maps e) = Some (r, m')"
      "install_outcome B cp (le_maps e) r m'"
    using install_maps_run [OF laws] by blast
  have sk: "le_skel e" using ok by (auto simp: linux_apply_policy_def split: if_splits)
  then have r: "r = Inr ()" and e': "e' = e\<lparr>le_maps := m', le_status := (le_status e)\<lparr>
      st_policy_version := cp_version cp, st_protected_count := length (cp_protected_resources cp),
      st_rule_count := length (cp_rules cp), st_enforcing := True\<rparr>\<rparr>"
    using ok run(1) by (auto simp: linux_apply_policy_def split: sum.splits)
  then show ?thesis
    using run(2) sk by (auto simp: install_outcome_def split: if_splits)
qed

lemma linux_status_Inr:
  assumes "bpf_laws B" and "linux_apply_policy B e cp = Some (Inr (), e')"
  shows "linux_status B e' = (le_status e')\<lparr>st_enforcing := True, st_policy_version := cp_version cp\<rparr>"
proof -
  note a = linux_apply_Inr [OF assms]
  then have "kv_config (view_of B (snapshot (le_maps e'))) = kv_config (installed_view cp)" by simp
  then show ?thesis using a by (simp add: linux_status_def view_of_def snapshot_def installed_view_def)
qed

interpretation linux_backend:
  enforcement_backend "linux_load B env" "linux_apply_policy B" "linux_status B" linux_detach
    "\<lambda>e. bpf_laws B" for B env
proof unfold_locales
  fix e cp e'
  assume "bpf_laws B" "linux_apply_policy B e cp = Some (Inr (), e')"
  then show "st_policy_version (linux_status B e') = cp_version cp \<and>
      st_protected_count (linux_status B e') = length (cp_protected_resources cp) \<and>
      st_rule_count (linux_status B e') = length (cp_rules cp)"
    using linux_apply_Inr [of B e cp e'] linux_status_Inr [of B e cp e'] by simp
qed (simp_all add: linux_apply_returns linux_detach_def linux_status_def)

section \<open>Maps for the witnesses\<close>

text \<open>A bounded association list with the documented behaviour, and a sample backend on it.\<close>

definition alist_next :: "'k \<Rightarrow> ('k \<times> 'v) list \<Rightarrow> 'k option \<Rightarrow> (int \<times> nat) \<times> 'k" where
  "alist_next d m ko =
     (let rest = (case ko of None \<Rightarrow> m
        | Some k \<Rightarrow> if k \<in> fst ` set m then tl (dropWhile (\<lambda>p. fst p \<noteq> k) m) else m)
      in case rest of [] \<Rightarrow> ((- int ENOENT, ENOENT), d) | p # _ \<Rightarrow> ((0, 0), fst p))"

definition alist_update ::
  "nat \<Rightarrow> ('k \<times> 'v) list \<Rightarrow> 'k \<Rightarrow> 'v \<Rightarrow> update_flag \<Rightarrow> (int \<times> nat) \<times> ('k \<times> 'v) list" where
  "alist_update cap m k v fl =
     (if k \<in> fst ` set m then
        (if fl = BPF_NOEXIST then ((- 1, EEXIST), m) else ((0, 0), (k, v) # filter (\<lambda>p. fst p \<noteq> k) m))
      else if length (remdups (map fst m)) \<ge> cap then ((- 1, 7), m)
      else ((0, 0), (k, v) # m))"

definition alist_ops :: "nat \<Rightarrow> 'k \<Rightarrow> (('k \<times> 'v) list, 'k, 'v) map_ops" where
  "alist_ops cap d = \<lparr>mo_update = alist_update cap, mo_lookup = map_of,
     mo_delete = (\<lambda>m k. filter (\<lambda>p. fst p \<noteq> k) m), mo_next = alist_next d\<rparr>"

lemma map_of_filter_key: "map_of (filter (\<lambda>p. fst p \<noteq> k) m) = (map_of m)(k := None)"
  by (induction m) (auto simp: fun_eq_iff)

lemma alist_laws: "hash_map_laws (alist_ops cap d)"
proof -
  have "map_of m k \<noteq> None \<longleftrightarrow> k \<in> fst ` set m" for m :: "('k \<times> 'v) list" and k
    by (metis map_of_eq_None_iff)
  then show ?thesis
    unfolding hash_map_laws_def alist_ops_def
    by (auto simp: finite_dom_map_of alist_update_def alist_next_def map_of_filter_key Let_def
        fun_eq_iff map_of_eq_None_iff EEXIST_def split: if_splits option.splits list.splits)
qed

definition demo_sys ::
  "((fileguard_file_id \<times> fileguard_protected_val) list,
    (fileguard_rule_key \<times> fileguard_rule_val) list, fileguard_config) bpf_sys" where
  "demo_sys = \<lparr>bs_protected = alist_ops 4096 zero_file_id,
     bs_rules = alist_ops 4096 \<lparr>key_res = zero_file_id, key_proc = zero_file_id\<rparr>,
     bs_config = \<lparr>mo_update = (\<lambda>m k v fl. ((0, 0), v)), mo_lookup = (\<lambda>m k. if k = 0 then Some m else None),
        mo_delete = (\<lambda>m k. m), mo_next = (\<lambda>m ko. ((0, 0), 0))\<rparr>,
     bs_strerror = (\<lambda>e. ''error'')\<rparr>"

lemma demo_sys_laws: "bpf_laws demo_sys"
  by (simp add: bpf_laws_def demo_sys_def alist_laws config_map_laws_def)


definition demo_compiled :: "u64 \<Rightarrow> compiled_policy" where
  "demo_compiled n = \<lparr>cp_version = 5, cp_protected_resources = [FileId 8 1 100],
     cp_rules = [\<lparr>cr_rule_id = 1, cr_resource = FileId 8 1 100, cr_process = FileId 8 1 n,
       cr_operation = Open, cr_action = Allow\<rparr>]\<rparr>"

definition demo_prot :: "(fileguard_file_id \<times> fileguard_protected_val) list" where
  "demo_prot = [(demo_fid 100, \<lparr>prot_reserved = 0\<rparr>)]"

definition demo_rules :: "u64 \<Rightarrow> (fileguard_rule_key \<times> fileguard_rule_val) list" where
  "demo_rules n = [(\<lparr>key_res = demo_fid 100, key_proc = demo_fid n\<rparr>,
     \<lparr>val_rule_id = 1, val_action = 0, val_operation = 1, val_reserved = 0\<rparr>)]"

definition demo_conf :: "u32 \<Rightarrow> u32 \<Rightarrow> fileguard_config" where
  "demo_conf v en = \<lparr>conf_policy_version = v, conf_enabled = en, conf_reserved = (0, 0)\<rparr>"

definition demo_enforcer ::
  "((fileguard_file_id \<times> fileguard_protected_val) list,
    (fileguard_rule_key \<times> fileguard_rule_val) list, fileguard_config) linux_enforcer" where
  "demo_enforcer = \<lparr>le_cfg = default_enforcer_config\<lparr>ec_on_event := True\<rparr>, le_skel = True, le_ring = True,
     le_status = initial_status, le_maps = \<lparr>km_protected = demo_prot, km_rules = demo_rules 200,
       km_config = demo_conf 4 1, km_log = []\<rparr>\<rparr>"

definition demo_env ::
  "((fileguard_file_id \<times> fileguard_protected_val) list,
    (fileguard_rule_key \<times> fileguard_rule_val) list, fileguard_config) load_env" where
  "demo_env = \<lparr>env_open = None, env_load = (\<lambda>_. None), env_attach = None, env_lsm_list = Some ''lockdown,bpf'',
     env_ring_new = None, env_maps = (\<lambda>_. ([], [], demo_conf 0 0))\<rparr>"

definition demo_log ::
  "u64 \<Rightarrow> ((fileguard_file_id \<times> fileguard_protected_val) list \<times>
    (fileguard_rule_key \<times> fileguard_rule_val) list \<times> fileguard_config) list" where
  "demo_log n = [(demo_prot, demo_rules 200, demo_conf 0 0), ([], demo_rules 200, demo_conf 0 0),
     ([], [], demo_conf 0 0), (demo_prot, [], demo_conf 0 0), (demo_prot, demo_rules n, demo_conf 0 0),
     (demo_prot, demo_rules n, demo_conf 5 1)]"

definition demo_enforcer' ::
  "u64 \<Rightarrow> ((fileguard_file_id \<times> fileguard_protected_val) list,
    (fileguard_rule_key \<times> fileguard_rule_val) list, fileguard_config) linux_enforcer" where
  "demo_enforcer' n = demo_enforcer\<lparr>le_status := initial_status\<lparr>st_policy_version := 5,
       st_protected_count := 1, st_rule_count := 1, st_enforcing := True\<rparr>,
     le_maps := \<lparr>km_protected = demo_prot, km_rules = demo_rules n, km_config = demo_conf 5 1,
       km_log = demo_log n\<rparr>\<rparr>"

lemmas demo_defs = demo_compiled_def demo_prot_def demo_rules_def demo_conf_def demo_enforcer_def
  demo_log_def demo_enforcer'_def

lemma demo_apply:
  "linux_apply_policy demo_sys demo_enforcer (demo_compiled n) = Some (Inr (), demo_enforcer' n)"
  by (simp add: linux_apply_policy_def install_maps_def demo_defs demo_sys_def set_config_def
    clear_protected_def clear_rules_def clear_map_def clear_loop.simps alist_ops_def alist_next_def
    alist_update_def Let_def to_abi_def demo_fid_def ENOENT_def zero_config_def rule_key_def rule_val_def)

lemma contains_substring_iff: "contains_substring sub s \<longleftrightarrow> (\<exists>a b. s = a @ sub @ b)"
proof -
  have sw: "starts_with sub s \<longleftrightarrow> (\<exists>b. s = sub @ b)" for sub s
    by (induction sub s rule: starts_with.induct) auto
  show ?thesis
  proof (induction s)
    case Nil
    then show ?case by simp
  next
    case (Cons c cs)
    show ?case
      by (simp add: Cons sw del: starts_with.simps) (metis append_Cons append_Nil list.exhaust list.inject)
  qed
qed

section \<open>Properties\<close>

text \<open>The deletion loop of \<open>clear_map\<close> ends on every map content and leaves the map empty,
  although it deletes the key that it then passes to \<open>bpf_map_get_next_key\<close>.\<close>

theorem clear_map_terminates:
  assumes "hash_map_laws A"
  shows "\<exists>m' log. clear_map B name A m = Some (Inr (), m', log) \<and> (\<forall>k. mo_lookup A m' k = None)"
  using clear_map_empties [OF assms, of B name m] by (metis)

theorem clear_map_terminates_witness:
  "\<exists>m' log. clear_map demo_sys ''fileguard_rules'' (alist_ops 8 (0::nat)) [(1, True), (2, False)]
      = Some (Inr (), m', log) \<and> (\<forall>k. map_of m' k = None)"
  using clear_map_terminates [OF alist_laws, of demo_sys "''fileguard_rules''" 8 "0::nat"
      "[(1, True), (2, False)]"]
  by (simp add: alist_ops_def)

text \<open>C15. A successful \<open>apply_policy\<close> leaves in the kernel exactly the compiled policy:
  enforcement is on with the policy's version, the protected map holds precisely the compiled
  resources, and a rule lookup gives the first compiled rule for the key, whatever policy was
  installed before.\<close>

theorem apply_policy_installs:
  assumes "bpf_laws B" and "linux_apply_policy B e cp = Some (Inr (), e')"
  shows "view_of B (snapshot (le_maps e')) =
    \<lparr>kv_config = Some \<lparr>conf_policy_version = cp_version cp, conf_enabled = 1, conf_reserved = (0, 0)\<rparr>,
     kv_protected = (\<lambda>k. if k \<in> to_abi ` set (cp_protected_resources cp)
       then Some \<lparr>prot_reserved = 0\<rparr> else None),
     kv_rules = (\<lambda>k. map_option rule_val (find (\<lambda>r. rule_key r = k) (cp_rules cp)))\<rparr>"
  using linux_apply_Inr [OF assms] by (simp add: installed_view_def)

theorem apply_policy_installs_witness:
  "kv_rules (view_of demo_sys (snapshot (le_maps (demo_enforcer' 300))))
      \<lparr>key_res = demo_fid 100, key_proc = demo_fid 300\<rparr> =
    Some \<lparr>val_rule_id = 1, val_action = 0, val_operation = 1, val_reserved = 0\<rparr> \<and>
   kv_rules (view_of demo_sys (snapshot (le_maps (demo_enforcer' 300))))
      \<lparr>key_res = demo_fid 100, key_proc = demo_fid 200\<rparr> = None"
  unfolding apply_policy_installs [OF demo_sys_laws demo_apply [of 300]]
  by (simp add: demo_compiled_def rule_key_def rule_val_def to_abi_def demo_fid_def)

lemma disabled_passes:
  "mo_lookup (bs_config B) (snd (snd s)) 0 = Some zero_config \<Longrightarrow> fg_file_open (view_of B s) ctx file = (0, None)"
  by (rule fg_file_open_pass) (simp add: mediated_def fg_enabled_def view_of_def zero_config_def)

lemma linux_apply_outcome:
  assumes "bpf_laws B" and "linux_apply_policy B e cp = Some (r, e')" and "le_skel e"
  shows "install_outcome B cp (le_maps e) r (le_maps e')"
  using install_maps_run [OF assms(1), of cp "le_maps e"] assms(2,3)
  by (auto simp: linux_apply_policy_def split: sum.splits)

text \<open>The update window is fail-open, never partially enforcing: once the pause is written,
  every content the maps go through until the policy is enabled lets every open pass without an
  event, whether the install succeeds or fails, and only the final content of a successful
  install enforces.\<close>

theorem update_window_fail_open:
  assumes "bpf_laws B" and "linux_apply_policy B e cp = Some (r, e')" and "le_skel e"
    and "\<not> pause_fails B (le_maps e)"
  shows "\<exists>w. km_log (le_maps e') =
      km_log (le_maps e) @ w @ (if r = Inr () then [snapshot (le_maps e')] else []) \<and>
    list_all (\<lambda>s. fg_file_open (view_of B s) ctx file = (0, None)) w"
  using linux_apply_outcome [OF assms(1-3)] assms(4)
  by (auto simp: install_outcome_def paused_run_def list_all_iff disabled_passes split: if_splits)

theorem update_window_fail_open_witness:
  "\<exists>w. demo_log 300 = w @ [snapshot (le_maps (demo_enforcer' 300))] \<and>
    list_all (\<lambda>s. fg_file_open (view_of demo_sys s) (demo_ctx 300 0) (demo_file 100) = (0, None)) w"
proof -
  have "le_skel demo_enforcer" "\<not> pause_fails demo_sys (le_maps demo_enforcer)"
    by (simp_all add: demo_enforcer_def pause_fails_def set_config_def demo_sys_def)
  from update_window_fail_open [OF demo_sys_laws demo_apply [of 300] this, of "demo_ctx 300 0" "demo_file 100"]
  show ?thesis by (simp add: demo_enforcer_def demo_enforcer'_def)
qed

text \<open>A failed install does not keep the running policy: after an error past the pause the
  kernel lets every open pass, while the status record still holds the old resource and rule
  counts.\<close>

theorem failed_install_disables:
  assumes "bpf_laws B" and "linux_apply_policy B e cp = Some (Inl msg, e')" and "le_skel e"
    and "\<not> pause_fails B (le_maps e)"
  shows "fg_file_open (view_of B (snapshot (le_maps e'))) ctx file = (0, None) \<and>
    st_enforcing (linux_status B e') = False \<and> st_policy_version (linux_status B e') = 0 \<and>
    st_rule_count (linux_status B e') = st_rule_count (le_status e)"
proof -
  have c: "mo_lookup (bs_config B) (km_config (le_maps e')) 0 = Some zero_config"
    using linux_apply_outcome [OF assms(1-3)] assms(4) by (simp add: install_outcome_def paused_run_def)
  have s: "le_status e' = le_status e" "le_skel e'"
    using assms(2,3) by (auto simp: linux_apply_policy_def split: option.splits sum.splits)
  show ?thesis
    using disabled_passes [of B "snapshot (le_maps e')"] c s
    by (simp add: snapshot_def linux_status_def zero_config_def)
qed

text \<open>A backend whose maps take one entry: the second resource does not fit.\<close>

definition tiny_sys ::
  "((fileguard_file_id \<times> fileguard_protected_val) list,
    (fileguard_rule_key \<times> fileguard_rule_val) list, fileguard_config) bpf_sys" where
  "tiny_sys = demo_sys\<lparr>bs_protected := alist_ops 1 zero_file_id\<rparr>"

lemma tiny_sys_laws: "bpf_laws tiny_sys"
  using demo_sys_laws by (simp add: bpf_laws_def tiny_sys_def alist_laws)

lemma tiny_apply:
  "\<exists>msg e'. linux_apply_policy tiny_sys demo_enforcer
     ((demo_compiled 300)\<lparr>cp_protected_resources := [FileId 8 1 100, FileId 8 1 101]\<rparr>) = Some (Inl msg, e')"
  by (simp add: linux_apply_policy_def install_maps_def demo_defs tiny_sys_def demo_sys_def set_config_def
    clear_protected_def clear_rules_def clear_map_def clear_loop.simps alist_ops_def alist_next_def
    alist_update_def Let_def to_abi_def demo_fid_def ENOENT_def EEXIST_def zero_config_def)

theorem failed_install_disables_witness:
  "fst (fg_file_open (view_of tiny_sys (snapshot (le_maps demo_enforcer))) (demo_ctx 300 0) (demo_file 100))
     = - EACCES \<and>
   (\<exists>msg e'. linux_apply_policy tiny_sys demo_enforcer
       ((demo_compiled 300)\<lparr>cp_protected_resources := [FileId 8 1 100, FileId 8 1 101]\<rparr>) = Some (Inl msg, e') \<and>
     fg_file_open (view_of tiny_sys (snapshot (le_maps e'))) (demo_ctx 300 0) (demo_file 100) = (0, None))"
proof -
  have h: "le_skel demo_enforcer" "\<not> pause_fails tiny_sys (le_maps demo_enforcer)"
    by (simp_all add: demo_enforcer_def pause_fails_def set_config_def demo_sys_def tiny_sys_def)
  obtain msg e' where a: "linux_apply_policy tiny_sys demo_enforcer
     ((demo_compiled 300)\<lparr>cp_protected_resources := [FileId 8 1 100, FileId 8 1 101]\<rparr>) = Some (Inl msg, e')"
    using tiny_apply by blast
  from failed_install_disables [OF tiny_sys_laws a h]
  have "fg_file_open (view_of tiny_sys (snapshot (le_maps e'))) (demo_ctx 300 0) (demo_file 100) = (0, None)"
    by simp
  moreover have "fst (fg_file_open (view_of tiny_sys (snapshot (le_maps demo_enforcer)))
      (demo_ctx 300 0) (demo_file 100)) = - EACCES"
    by (simp add: fg_file_open_ret mediated_def fg_enabled_def demo_file_id demo_exe_id)
       (simp add: view_of_def snapshot_def tiny_sys_def demo_sys_def demo_defs alist_ops_def demo_fid_def)
  ultimately show ?thesis using a by blast
qed

text \<open>The pause does not cover a run of the hook that has already read the config: replacing
  a policy by one that allows the same access can deny that access once, when the hook reads the
  config and the protected map before the update and the rules map during it.\<close>

theorem update_race_denies:
  "linux_apply_policy demo_sys demo_enforcer (demo_compiled 200) = Some (Inr (), demo_enforcer' 200) \<and>
   (\<exists>s \<in> set (km_log (le_maps (demo_enforcer' 200))).
      let before = view_of demo_sys (snapshot (le_maps demo_enforcer));
          after = view_of demo_sys (snapshot (le_maps (demo_enforcer' 200)))
      in fst (fg_file_open before (demo_ctx 200 0) (demo_file 100)) = 0 \<and>
         fst (fg_file_open after (demo_ctx 200 0) (demo_file 100)) = 0 \<and>
         fst (fg_file_open (before\<lparr>kv_rules := kv_rules (view_of demo_sys s)\<rparr>)
           (demo_ctx 200 0) (demo_file 100)) = - EACCES)"
proof -
  have in_log: "([], [], demo_conf 0 0) \<in> set (km_log (le_maps (demo_enforcer' 200)))"
    by (simp add: demo_enforcer'_def demo_log_def)
  show ?thesis
    unfolding Let_def
    by (rule conjI [OF demo_apply bexI [OF _ in_log]])
       (simp add: fg_file_open_ret mediated_def fg_enabled_def demo_file_id demo_exe_id
          view_of_def snapshot_def demo_sys_def demo_defs alist_ops_def demo_fid_def FG_ACTION_ALLOW_def)
qed

text \<open>\<open>load\<close> claims enforcement only when it is real: it succeeds exactly when the object was
  not loaded yet, every libbpf call succeeds and the kernel's LSM list contains \<open>bpf\<close>; every
  failure leaves the backend unloaded and its status unchanged.\<close>

theorem load_succeeds_iff:
  "(if \<not> le_skel e \<and> env_open env = None \<and> env_load env (load_sizes (le_cfg e)) = None \<and> env_attach env = None \<and>
       env_ring_new env = None \<and> (\<exists>a b. env_lsm_list env = Some (a @ ''bpf'' @ b))
    then fst (linux_load B env e) = Inr () \<and> le_skel (snd (linux_load B env e)) \<and>
      st_attached (le_status (snd (linux_load B env e))) \<and>
      \<not> st_enforcing (le_status (snd (linux_load B env e)))
    else (\<exists>msg. fst (linux_load B env e) = Inl msg) \<and>
      le_skel (snd (linux_load B env e)) = le_skel e \<and>
      le_status (snd (linux_load B env e)) = le_status e)"
  by (cases "env_open env"; cases "env_load env (load_sizes (le_cfg e))"; cases "env_attach env"; cases "env_lsm_list env";
      cases "env_ring_new env")
     (simp_all add: linux_load_def Let_def contains_substring_iff split: prod.splits)

text \<open>\<open>ring_callback\<close> hands on precisely the well-formed records: a record of the event's size
  with the magic is decoded without loss of its numeric fields and codes, anything else is
  dropped and leaves only a status text.\<close>

theorem ring_callback_decodes:
  "(case fst (ring_callback self data sz) of
      None \<Rightarrow> \<not> (ec_on_event (le_cfg self) \<and> sz = 88 \<and> (\<exists>e. data = Some e \<and> ev_magic e = FG_MAGIC))
    | Some raw \<Rightarrow> sz = 88 \<and> (\<exists>e. data = Some e \<and> ev_magic e = FG_MAGIC \<and>
        raw_timestamp_ns raw = ev_timestamp_ns e \<and> raw_pid raw = ev_pid e \<and> raw_tgid raw = ev_tgid e \<and>
        raw_uid raw = ev_uid e \<and> raw_gid raw = ev_gid e \<and> to_abi (raw_resource raw) = ev_res e \<and>
        to_abi (raw_process raw) = ev_proc e \<and> raw_rule_id raw = ev_rule_id e \<and>
        operation_code (raw_operation raw) = ev_operation e \<and> action_code (raw_action raw) = ev_action e \<and>
        reason_code (raw_reason raw) = ev_reason e)) \<and>
   le_maps (snd (ring_callback self data sz)) = le_maps self"
  by (auto simp: ring_callback_def decode_event_def sizeof_event_def split: option.splits)

end
