(* ===== verification/Event_Queue.thy ===== *)
theory Event_Queue
  imports Fg_Prelude
begin

text \<open>
  The bounded single-producer/single-consumer queue \<open>include/fileguard/event_queue.hpp\<close>, each
  operation run on its own (\<open>Queue_Concurrency\<close> models their interleavings). The ring is a list
  of slots; a moved-from slot keeps its old value here, which no operation reads before it is
  written again. An operation that would block forever on the given state gives \<open>None\<close>.
\<close>

section \<open>The ring\<close>

record 'a spsc_queue =
  q_slots :: "'a list"
  q_head :: nat
  q_tail :: nat
  q_stop :: bool

definition spsc_new :: "'a \<Rightarrow> nat \<Rightarrow> 'a spsc_queue outcome" where
  "spsc_new default_value capacity =
     (if capacity < 2 then Throws ''SpscQueue capacity must be >= 2''
      else Returns \<lparr>q_slots = replicate capacity default_value, q_head = 0, q_tail = 0, q_stop = False\<rparr>)"

definition q_capacity :: "'a spsc_queue \<Rightarrow> nat" where
  "q_capacity q = length (q_slots q)"

definition q_next :: "'a spsc_queue \<Rightarrow> nat \<Rightarrow> nat" where
  "q_next q i = (i + 1) mod length (q_slots q)"

definition q_empty :: "'a spsc_queue \<Rightarrow> bool" where
  "q_empty q \<longleftrightarrow> q_head q = q_tail q"

definition q_full :: "'a spsc_queue \<Rightarrow> bool" where
  "q_full q \<longleftrightarrow> q_next q (q_head q) = q_tail q"

definition try_push :: "'a \<Rightarrow> 'a spsc_queue \<Rightarrow> bool \<times> 'a spsc_queue" where
  "try_push item q =
     (let h = q_head q; t = q_tail q in
      if q_next q h = t then (False, q)
      else (True, q\<lparr>q_slots := (q_slots q)[h := item], q_head := q_next q h\<rparr>))"

definition try_pop :: "'a spsc_queue \<Rightarrow> 'a option \<times> 'a spsc_queue" where
  "try_pop q =
     (let h = q_head q; t = q_tail q in
      if h = t then (None, q)
      else (Some (q_slots q ! t), q\<lparr>q_tail := q_next q t\<rparr>))"

definition push :: "'a \<Rightarrow> 'a spsc_queue \<Rightarrow> 'a spsc_queue option" where
  "push item q =
     (if \<not> (q_stop q \<or> \<not> q_full q) then None
      else if q_stop q then Some q
      else Some (q\<lparr>q_slots := (q_slots q)[q_head q := item], q_head := q_next q (q_head q)\<rparr>))"

definition pop :: "'a spsc_queue \<Rightarrow> ('a option \<times> 'a spsc_queue) option" where
  "pop q =
     (if \<not> (q_stop q \<or> \<not> q_empty q) then None
      else if q_empty q then Some (None, q)
      else Some (Some (q_slots q ! q_tail q), q\<lparr>q_tail := q_next q (q_tail q)\<rparr>))"

definition queue_request_stop :: "'a spsc_queue \<Rightarrow> 'a spsc_queue" where
  "queue_request_stop q = q\<lparr>q_stop := True\<rparr>"

section \<open>The list a ring holds\<close>

definition q_inv :: "'a spsc_queue \<Rightarrow> bool" where
  "q_inv q \<longleftrightarrow> 2 \<le> length (q_slots q) \<and> q_head q < length (q_slots q) \<and> q_tail q < length (q_slots q)"

definition q_count :: "'a spsc_queue \<Rightarrow> nat" where
  "q_count q = (q_head q + length (q_slots q) - q_tail q) mod length (q_slots q)"

definition q_contents :: "'a spsc_queue \<Rightarrow> 'a list" where
  "q_contents q = map (\<lambda>i. q_slots q ! ((q_tail q + i) mod length (q_slots q))) [0..<q_count q]"

text \<open>Index arithmetic on the ring.\<close>

lemma mod_ring: "(i::nat) < 2 * n \<Longrightarrow> i mod n = (if i < n then i else i - n)"
  by (simp add: mod_if)

lemma ring_count: "(h::nat) < n \<Longrightarrow> t < n \<Longrightarrow> (h + n - t) mod n = (if t \<le> h then h - t else h + n - t)"
  by (subst mod_ring) auto

lemma ring_next: "(i::nat) < n \<Longrightarrow> Suc i mod n = (if Suc i = n then 0 else Suc i)"
  by (subst mod_ring) auto

lemma ring_index: "(t::nat) < n \<Longrightarrow> i < n \<Longrightarrow> (t + i) mod n = (if t + i < n then t + i else t + i - n)"
  by (subst mod_ring) auto

lemma ring_count_less: "(h::nat) < n \<Longrightarrow> (h + n - t) mod n < n"
  by (rule mod_less_divisor) simp

lemma ring_head:
  "(h::nat) < n \<Longrightarrow> t < n \<Longrightarrow> (t + (h + n - t) mod n) mod n = h"
  by (simp add: ring_count ring_index mod_ring)

lemma ring_full:
  "(h::nat) < n \<Longrightarrow> t < n \<Longrightarrow> Suc h mod n = t \<longleftrightarrow> (h + n - t) mod n = n - 1"
  by (auto simp: ring_count ring_next)

lemma ring_empty: "(h::nat) < n \<Longrightarrow> t < n \<Longrightarrow> (h + n - t) mod n = 0 \<longleftrightarrow> h = t"
  by (auto simp: ring_count)

lemma ring_push:
  "(h::nat) < n \<Longrightarrow> t < n \<Longrightarrow> Suc h mod n \<noteq> t \<Longrightarrow>
     (Suc h mod n + n - t) mod n = Suc ((h + n - t) mod n)"
  by (auto simp: ring_count ring_next split: if_splits)

lemma ring_pop:
  "(h::nat) < n \<Longrightarrow> t < n \<Longrightarrow> h \<noteq> t \<Longrightarrow>
     (h + n - t) mod n = Suc ((h + n - Suc t mod n) mod n)"
  by (auto simp: ring_count ring_next split: if_splits)

lemma ring_fresh:
  "(h::nat) < n \<Longrightarrow> t < n \<Longrightarrow> i < (h + n - t) mod n \<Longrightarrow> (t + i) mod n \<noteq> h"
  using ring_count_less [of h n t]
  by (auto simp: ring_count ring_index split: if_splits)

lemma q_bounds: "q_inv q \<Longrightarrow> q_head q < length (q_slots q)" "q_inv q \<Longrightarrow> q_tail q < length (q_slots q)"
  "q_inv q \<Longrightarrow> 2 \<le> length (q_slots q)" "q_inv q \<Longrightarrow> 0 < length (q_slots q)"
  by (auto simp: q_inv_def)

lemma q_contents_length: "length (q_contents q) = q_count q"
  by (simp add: q_contents_def)

lemma q_count_less: "q_inv q \<Longrightarrow> length (q_contents q) < q_capacity q"
  by (simp add: q_contents_length q_count_def q_capacity_def ring_count_less q_bounds)

lemma q_empty_iff: "q_inv q \<Longrightarrow> q_empty q \<longleftrightarrow> q_contents q = []"
  using ring_empty [of "q_head q" "length (q_slots q)" "q_tail q"]
  by (simp add: q_bounds q_empty_def q_contents_def q_count_def)

lemma q_full_iff: "q_inv q \<Longrightarrow> q_full q \<longleftrightarrow> length (q_contents q) = q_capacity q - 1"
  using ring_full [of "q_head q" "length (q_slots q)" "q_tail q"]
  by (simp add: q_contents_length q_bounds q_full_def q_next_def q_count_def q_capacity_def)

lemma q_head_slot:
  "q_inv q \<Longrightarrow> (q_tail q + q_count q) mod length (q_slots q) = q_head q"
  by (simp add: q_count_def ring_head q_bounds)

definition q_store :: "'a \<Rightarrow> 'a spsc_queue \<Rightarrow> 'a spsc_queue" where
  "q_store item q = q\<lparr>q_slots := (q_slots q)[q_head q := item], q_head := q_next q (q_head q)\<rparr>"

definition q_drop :: "'a spsc_queue \<Rightarrow> 'a spsc_queue" where
  "q_drop q = q\<lparr>q_tail := q_next q (q_tail q)\<rparr>"

lemma q_store_inv [fg_inv]: "q_inv q \<Longrightarrow> q_inv (q_store x q)"
  using q_bounds (4) [of q] by (auto simp: q_inv_def q_store_def q_next_def)

lemma q_drop_inv [fg_inv]: "q_inv q \<Longrightarrow> q_inv (q_drop q)"
  using q_bounds (4) [of q] by (auto simp: q_inv_def q_drop_def q_next_def)

lemma q_store_count:
  "q_inv q \<Longrightarrow> \<not> q_full q \<Longrightarrow> q_count (q_store x q) = Suc (q_count q)"
  using ring_push [of "q_head q" "length (q_slots q)" "q_tail q"]
  by (simp add: q_bounds q_store_def q_next_def q_count_def q_full_def)

lemma q_store_contents:
  assumes "q_inv q" "\<not> q_full q"
  shows "q_contents (q_store x q) = q_contents q @ [x]"
proof -
  let ?n = "length (q_slots q)"
  have "(q_slots q)[q_head q := x] ! ((q_tail q + i) mod ?n) = q_slots q ! ((q_tail q + i) mod ?n)"
    if "i < q_count q" for i
    using ring_fresh [of "q_head q" ?n "q_tail q" i] that assms(1)
    by (simp add: q_count_def q_bounds)
  moreover have "(q_slots q)[q_head q := x] ! ((q_tail q + q_count q) mod ?n) = x"
    using assms by (simp add: q_head_slot q_bounds)
  ultimately show ?thesis
    using q_store_count [OF assms, of x]
    by (simp add: q_contents_def) (simp add: q_store_def)
qed

lemma q_drop_count:
  "q_inv q \<Longrightarrow> \<not> q_empty q \<Longrightarrow> q_count q = Suc (q_count (q_drop q))"
  using ring_pop [of "q_head q" "length (q_slots q)" "q_tail q"]
  by (simp add: q_bounds q_drop_def q_next_def q_count_def q_empty_def)

lemma q_drop_contents:
  assumes "q_inv q" "\<not> q_empty q"
  shows "q_contents q = q_slots q ! q_tail q # q_contents (q_drop q)"
proof -
  let ?n = "length (q_slots q)"
  have "(q_tail q + Suc i) mod ?n = (q_tail (q_drop q) + i) mod ?n" for i
    by (simp add: q_drop_def q_next_def mod_simps)
  then have "q_contents (q_drop q) =
      map (\<lambda>i. q_slots q ! ((q_tail q + Suc i) mod ?n)) [0..<q_count (q_drop q)]"
    by (simp add: q_contents_def) (simp add: q_drop_def)
  moreover have "[0..<Suc m] = 0 # map Suc [0..<m]" for m
    by (simp only: map_Suc_upt upt_conv_Cons [OF zero_less_Suc])
  ultimately show ?thesis
    using q_bounds (2) [OF assms(1)]
    by (simp add: q_contents_def [of q] q_drop_count [OF assms] del: upt_Suc)
qed

section \<open>The operations against the list\<close>

lemma try_push_store:
  "try_push x q = (if q_full q then (False, q) else (True, q_store x q))"
  by (simp add: try_push_def q_full_def q_store_def Let_def)

lemma try_pop_drop:
  "try_pop q = (if q_empty q then (None, q) else (Some (q_slots q ! q_tail q), q_drop q))"
  by (simp add: try_pop_def q_empty_def q_drop_def Let_def)

lemma push_store:
  "push x q = (if q_stop q then Some q else if q_full q then None else Some (q_store x q))"
  by (simp add: push_def q_store_def)

lemma pop_drop:
  "pop q = (if q_empty q then (if q_stop q then Some (None, q) else None)
     else Some (Some (q_slots q ! q_tail q), q_drop q))"
  by (simp add: pop_def q_drop_def)

lemma q_capacity_frame [simp]:
  "q_capacity (q_store x q) = q_capacity q" "q_capacity (q_drop q) = q_capacity q"
  "q_stop (q_store x q) = q_stop q" "q_stop (q_drop q) = q_stop q"
  by (simp_all add: q_capacity_def q_store_def q_drop_def)

subsection \<open>The interface\<close>

text \<open>
  What the event pipeline relies on: an accepted item goes to the end, a refused one changes
  nothing and is refused only at the limit, and items leave from the front.
\<close>

locale bounded_fifo =
  fixes enq :: "'a \<Rightarrow> 'q \<Rightarrow> bool \<times> 'q"
    and deq :: "'q \<Rightarrow> 'a option \<times> 'q"
    and contents :: "'q \<Rightarrow> 'a list"
    and limit :: "'q \<Rightarrow> nat"
    and inv :: "'q \<Rightarrow> bool"
  assumes enq_refused: "inv q \<Longrightarrow> length (contents q) = limit q \<Longrightarrow> enq x q = (False, q)"
    and enq_accepted: "inv q \<Longrightarrow> length (contents q) \<noteq> limit q \<Longrightarrow>
      \<exists>q'. enq x q = (True, q') \<and> inv q' \<and> contents q' = contents q @ [x] \<and> limit q' = limit q"
    and deq_empty: "inv q \<Longrightarrow> contents q = [] \<Longrightarrow> deq q = (None, q)"
    and deq_front: "inv q \<Longrightarrow> contents q \<noteq> [] \<Longrightarrow>
      \<exists>q'. deq q = (Some (hd (contents q)), q') \<and> inv q' \<and> contents q' = tl (contents q) \<and> limit q' = limit q"

datatype 'a queue_op = Enq 'a | Deq

text \<open>A session of the two ends: the accepted items, the items that came out, the queue after.\<close>

fun run_ops ::
  "('a \<Rightarrow> 'q \<Rightarrow> bool \<times> 'q) \<Rightarrow> ('q \<Rightarrow> 'a option \<times> 'q) \<Rightarrow> 'a queue_op list \<Rightarrow> 'q \<Rightarrow>
     'a list \<times> 'a list \<times> 'q" where
  "run_ops enq deq [] q = ([], [], q)"
| "run_ops enq deq (Enq x # ops) q =
     (let (ok, q1) = enq x q; (acc, out, q2) = run_ops enq deq ops q1
      in (if ok then x # acc else acc, out, q2))"
| "run_ops enq deq (Deq # ops) q =
     (let (r, q1) = deq q; (acc, out, q2) = run_ops enq deq ops q1
      in (acc, (case r of None \<Rightarrow> out | Some x \<Rightarrow> x # out), q2))"

context bounded_fifo
begin

lemma run_ops_fifo:
  "inv q \<Longrightarrow> run_ops enq deq ops q = (acc, out, q') \<Longrightarrow>
     inv q' \<and> limit q' = limit q \<and> contents q @ acc = out @ contents q'"
proof (induction ops arbitrary: q acc out q')
  case Nil
  then show ?case by simp
next
  case (Cons op ops)
  show ?case
  proof (cases op)
    case (Enq x)
    show ?thesis
    proof (cases "length (contents q) = limit q")
      case True
      with Enq Cons.prems enq_refused [OF Cons.prems(1) True, of x] show ?thesis
        by (auto split: prod.splits dest: Cons.IH)
    next
      case False
      from enq_accepted [OF Cons.prems(1) False, of x] obtain q1 where
        q1: "enq x q = (True, q1)" "inv q1" "contents q1 = contents q @ [x]" "limit q1 = limit q" by blast
      obtain acc1 out1 q2 where r: "run_ops enq deq ops q1 = (acc1, out1, q2)" by (metis prod.exhaust)
      from Cons.IH [OF q1(2) r] Cons.prems(2) show ?thesis by (auto simp: Enq q1 r)
    qed
  next
    case Deq
    show ?thesis
    proof (cases "contents q = []")
      case True
      with Deq Cons.prems deq_empty [OF Cons.prems(1) True] show ?thesis
        by (auto split: prod.splits dest: Cons.IH)
    next
      case False
      from deq_front [OF Cons.prems(1) False] obtain q1 where
        q1: "deq q = (Some (hd (contents q)), q1)" "inv q1" "contents q1 = tl (contents q)" "limit q1 = limit q"
        by blast
      obtain acc1 out1 q2 where r: "run_ops enq deq ops q1 = (acc1, out1, q2)" by (metis prod.exhaust)
      have c: "contents q @ xs = hd (contents q) # (contents q1 @ xs)" for xs using False q1 by simp
      from Cons.prems(2) have e: "acc = acc1" "out = hd (contents q) # out1" "q' = q2"
        by (simp_all add: Deq q1(1) r)
      from Cons.IH [OF q1(2) r] show ?thesis by (simp add: e c q1(4))
    qed
  qed
qed

end

text \<open>The lock-free ends and the blocking ends (a call that would block counts as refused) both
  provide the interface; the blocking ones while no stop was requested.\<close>

definition push_now :: "'a \<Rightarrow> 'a spsc_queue \<Rightarrow> bool \<times> 'a spsc_queue" where
  "push_now x q = (case push x q of None \<Rightarrow> (False, q) | Some q' \<Rightarrow> (True, q'))"

definition pop_now :: "'a spsc_queue \<Rightarrow> 'a option \<times> 'a spsc_queue" where
  "pop_now q = (case pop q of None \<Rightarrow> (None, q) | Some r \<Rightarrow> r)"

lemma q_hd_contents: "q_inv q \<Longrightarrow> q_contents q \<noteq> [] \<Longrightarrow>
  hd (q_contents q) = q_slots q ! q_tail q \<and> tl (q_contents q) = q_contents (q_drop q)"
  using q_drop_contents [of q] by (simp add: q_empty_iff)

interpretation try_ends: bounded_fifo try_push try_pop q_contents "\<lambda>q. q_capacity q - 1" q_inv
  by unfold_locales
     (auto simp: try_push_store try_pop_drop q_full_iff q_empty_iff q_hd_contents q_store_contents
       intro: fg_inv)

interpretation blocking_ends:
  bounded_fifo push_now pop_now q_contents "\<lambda>q. q_capacity q - 1" "\<lambda>q. q_inv q \<and> \<not> q_stop q"
  by unfold_locales
     (auto simp: push_now_def pop_now_def push_store pop_drop q_full_iff q_empty_iff q_hd_contents
       q_store_contents intro: fg_inv)

lemma spsc_new_inv:
  "spsc_new d n = Returns q \<Longrightarrow> q_inv q \<and> q_contents q = [] \<and> q_capacity q = n \<and> \<not> q_stop q"
  by (auto simp: spsc_new_def q_inv_def q_contents_def q_count_def q_capacity_def split: if_splits)

section \<open>Properties\<close>

text \<open>The queue is FIFO and loses nothing: over any interleaving of \<open>try_push\<close> and \<open>try_pop\<close>
  calls on a valid ring, what was in the ring followed by the accepted items is what came out
  followed by what is left.\<close>

theorem spsc_fifo:
  assumes "q_inv q" and "run_ops try_push try_pop ops q = (acc, out, q')"
  shows "q_contents q @ acc = out @ q_contents q' \<and> q_inv q' \<and> q_capacity q' = q_capacity q"
  using try_ends.run_ops_fifo [OF assms] q_count_less [OF assms(1)] q_count_less [of q'] by linarith

definition demo_queue :: "nat spsc_queue" where
  "demo_queue = \<lparr>q_slots = [0, 0, 0], q_head = 0, q_tail = 0, q_stop = False\<rparr>"

theorem spsc_fifo_witness:
  "run_ops try_push try_pop [Enq 4, Enq 5, Enq 6, Deq, Enq 7] demo_queue =
     ([4, 5, 7], [4], \<lparr>q_slots = [4, 5, 7], q_head = 0, q_tail = 1, q_stop = False\<rparr>) \<and>
   [4, 5, 7] = [4] @ q_contents \<lparr>q_slots = [4, 5, 7::nat], q_head = 0, q_tail = 1, q_stop = False\<rparr>"
proof -
  have inv: "q_inv demo_queue" and e: "q_contents demo_queue = []"
    by (simp_all add: q_inv_def demo_queue_def q_contents_def q_count_def)
  have run: "run_ops try_push try_pop [Enq 4, Enq 5, Enq 6, Deq, Enq 7] demo_queue =
     ([4, 5, 7], [4], \<lparr>q_slots = [4, 5, 7], q_head = 0, q_tail = 1, q_stop = False\<rparr>)"
    by (simp add: demo_queue_def try_push_def try_pop_def q_next_def Let_def)
  from spsc_fifo [OF inv run] run show ?thesis by (simp add: e)
qed

text \<open>A full ring refuses: \<open>try_push\<close> fails without changing the queue exactly when one slot
  less than the capacity is in use, and otherwise appends the item.\<close>

theorem try_push_spec:
  assumes "q_inv q"
  shows "(if length (q_contents q) = q_capacity q - 1 then try_push x q = (False, q)
    else fst (try_push x q) \<and> q_contents (snd (try_push x q)) = q_contents q @ [x])"
  using assms q_full_iff [OF assms] by (simp add: try_push_store q_store_contents)

theorem try_push_spec_witness:
  "try_push 9 \<lparr>q_slots = [4, 5, 0], q_head = 2, q_tail = 0, q_stop = False\<rparr> =
     (False, \<lparr>q_slots = [4, 5, 0::nat], q_head = 2, q_tail = 0, q_stop = False\<rparr>) \<and>
   q_contents (snd (try_push 9 demo_queue)) = [9]"
proof -
  let ?full = "\<lparr>q_slots = [4, 5, 0::nat], q_head = 2, q_tail = 0, q_stop = False\<rparr>"
  have "q_inv ?full" "length (q_contents ?full) = q_capacity ?full - 1"
    by (simp_all add: q_inv_def q_contents_length q_count_def q_capacity_def)
  moreover have "q_inv demo_queue" "q_contents demo_queue = []" "q_capacity demo_queue = 3"
    by (simp_all add: q_inv_def demo_queue_def q_contents_def q_count_def q_capacity_def)
  ultimately show ?thesis
    using try_push_spec [of ?full 9] try_push_spec [of demo_queue 9] by simp
qed

text \<open>The results of \<open>n\<close> calls of \<open>pop\<close> in a row; \<open>None\<close> when one of them blocks.\<close>

fun pops :: "nat \<Rightarrow> 'a spsc_queue \<Rightarrow> 'a option list option" where
  "pops 0 q = Some []"
| "pops (Suc n) q = (case pop q of None \<Rightarrow> None | Some (r, q') \<Rightarrow> map_option ((#) r) (pops n q'))"

lemma pops_stopped:
  "q_inv q \<Longrightarrow> q_stop q \<Longrightarrow> pops (Suc (length (q_contents q))) q = Some (map Some (q_contents q) @ [None])"
proof (induction "length (q_contents q)" arbitrary: q)
  case 0
  then have "q_contents q = []" by simp
  with 0 show ?case by (simp add: pop_drop q_empty_iff)
next
  case (Suc n)
  have ne: "\<not> q_empty q" using Suc.hyps(2) Suc.prems(1) by (auto simp: q_empty_iff)
  note d = q_drop_contents [OF Suc.prems(1) ne]
  have len: "length (q_contents q) = Suc (length (q_contents (q_drop q)))" using d by (metis length_Cons)
  have "pops (Suc (length (q_contents (q_drop q)))) (q_drop q) = Some (map Some (q_contents (q_drop q)) @ [None])"
    using Suc.prems Suc.hyps(2) len by (intro Suc.hyps(1)) (auto intro: fg_inv)
  then show ?case
    unfolding len by (subst pops.simps) (simp add: pop_drop ne d del: pops.simps )
qed

text \<open>Shutdown drains: after \<open>request_stop\<close> the consumer's \<open>pop\<close> calls return exactly the
  queued items in order and then false, without blocking, and a producer's \<open>push\<close> returns at
  once and its item is dropped.\<close>

theorem stop_drains:
  assumes "q_inv q"
  shows "pops (Suc (length (q_contents q))) (queue_request_stop q) = Some (map Some (q_contents q) @ [None]) \<and>
    push x (queue_request_stop q) = Some (queue_request_stop q)"
proof -
  have "q_inv (queue_request_stop q)" "q_stop (queue_request_stop q)"
    "q_contents (queue_request_stop q) = q_contents q"
    using assms by (simp_all add: q_inv_def queue_request_stop_def q_contents_def q_count_def)
  then show ?thesis using pops_stopped [of "queue_request_stop q"] by (simp add: push_store)
qed

theorem stop_drains_witness:
  "pops 3 (queue_request_stop \<lparr>q_slots = [4, 5, 0::nat], q_head = 2, q_tail = 0, q_stop = False\<rparr>) =
     Some [Some 4, Some 5, None]"
proof -
  let ?q = "\<lparr>q_slots = [4, 5, 0::nat], q_head = 2, q_tail = 0, q_stop = False\<rparr>"
  have "q_inv ?q" and c: "q_contents ?q = [4, 5]"
    by (simp_all add: q_inv_def q_contents_def q_count_def upt_rec)
  moreover have "Suc (length (q_contents ?q)) = 3" by (simp only: c) simp
  ultimately show ?thesis using stop_drains [of ?q 0] by (simp only: c) simp
qed

end
