(* ===== verification/Json_Lib.thy ===== *)
theory Json_Lib
  imports Fg_Prelude
begin

text \<open>
  The JSON library nlohmann/json is a dependency that is fetched by the build, so it is an
  argument of the model: a record of the operations the sources call on values of an abstract
  type. \<open>json_laws\<close> states the documented behaviour that theorems rely on. \<open>Throws\<close> is one of
  the library's \<open>type_error\<close> exceptions; \<open>parse\<close> reports its \<open>parse_error\<close> as \<open>Inl\<close> of
  \<open>what()\<close>, which the sources catch.
\<close>

record 'j json_lib =
  jl_parse :: "string \<Rightarrow> string + 'j"
  jl_dump :: "'j \<Rightarrow> string outcome"
  jl_is_object :: "'j \<Rightarrow> bool"
  jl_is_array :: "'j \<Rightarrow> bool"
  jl_is_string :: "'j \<Rightarrow> bool"
  jl_find :: "'j \<Rightarrow> string \<Rightarrow> 'j option"
  jl_elems :: "'j \<Rightarrow> 'j list"
  jl_get_string :: "'j \<Rightarrow> string outcome"
  jl_value_string :: "'j \<Rightarrow> string \<Rightarrow> string \<Rightarrow> string outcome"
  jl_value_int :: "'j \<Rightarrow> string \<Rightarrow> i32 \<Rightarrow> i32 outcome"
  jl_value_uint :: "'j \<Rightarrow> string \<Rightarrow> u32 \<Rightarrow> u32 outcome"
  jl_value_bool :: "'j \<Rightarrow> string \<Rightarrow> bool \<Rightarrow> bool outcome"
  jl_string :: "string \<Rightarrow> 'j"
  jl_number :: "int \<Rightarrow> 'j"
  jl_bool :: "bool \<Rightarrow> 'j"
  jl_array :: "'j list \<Rightarrow> 'j"
  jl_object :: "(string \<times> 'j) list \<Rightarrow> 'j"

definition jl_contains :: "'j json_lib \<Rightarrow> 'j \<Rightarrow> string \<Rightarrow> bool" where
  "jl_contains L j k \<longleftrightarrow> jl_find L j k \<noteq> None"

text \<open>The values the sources build themselves.\<close>

inductive built :: "'j json_lib \<Rightarrow> 'j \<Rightarrow> bool" for L where
  built_string: "built L (jl_string L s)"
| built_number: "built L (jl_number L i)"
| built_bool: "built L (jl_bool L b)"
| built_array: "\<forall>j \<in> set js. built L j \<Longrightarrow> built L (jl_array L js)"
| built_object: "\<forall>kv \<in> set kvs. built L (snd kv) \<Longrightarrow> distinct (map fst kvs) \<Longrightarrow>
    built L (jl_object L kvs)"

text \<open>Values they got from \<open>parse\<close> come in too, on their own or as a member of an object.\<close>

inductive handled :: "'j json_lib \<Rightarrow> 'j \<Rightarrow> bool" for L where
  handled_built: "built L j \<Longrightarrow> handled L j"
| handled_parsed: "jl_parse L t = Inr j \<Longrightarrow> handled L j"
| handled_object: "\<forall>kv \<in> set kvs. handled L (snd kv) \<Longrightarrow> distinct (map fst kvs) \<Longrightarrow> handled L (jl_object L kvs)"

section \<open>Documented behaviour\<close>

text \<open>\<open>value(key, default)\<close>: a type error on a non-object or a member of the wrong type.\<close>

definition value_law ::
  "'j json_lib \<Rightarrow> ('j \<Rightarrow> string \<Rightarrow> 'a \<Rightarrow> 'a outcome) \<Rightarrow> ('a \<Rightarrow> 'j) \<Rightarrow> bool" where
  "value_law L v mk \<longleftrightarrow>
     (\<forall>j k d. jl_is_object L j \<longrightarrow> jl_find L j k = None \<longrightarrow> v j k d = Returns d) \<and>
     (\<forall>j k d. \<not> jl_is_object L j \<longrightarrow> (\<exists>m. v j k d = Throws m)) \<and>
     (\<forall>j k d x. jl_is_object L j \<longrightarrow> jl_find L j k = Some (mk x) \<longrightarrow> v j k d = Returns x)"

definition scalar_laws :: "'j json_lib \<Rightarrow> bool" where
  "scalar_laws L \<longleftrightarrow>
     (\<forall>s. jl_is_string L (jl_string L s) \<and> \<not> jl_is_object L (jl_string L s) \<and>
        \<not> jl_is_array L (jl_string L s) \<and> jl_get_string L (jl_string L s) = Returns s) \<and>
     (\<forall>i. \<not> jl_is_string L (jl_number L i) \<and> \<not> jl_is_object L (jl_number L i) \<and>
        \<not> jl_is_array L (jl_number L i)) \<and>
     (\<forall>b. \<not> jl_is_string L (jl_bool L b) \<and> \<not> jl_is_object L (jl_bool L b) \<and>
        \<not> jl_is_array L (jl_bool L b)) \<and>
     (\<forall>j. jl_is_string L j \<longrightarrow> (\<exists>s. jl_get_string L j = Returns s))"

definition structure_laws :: "'j json_lib \<Rightarrow> bool" where
  "structure_laws L \<longleftrightarrow>
     (\<forall>js. jl_is_array L (jl_array L js) \<and> \<not> jl_is_object L (jl_array L js) \<and>
        \<not> jl_is_string L (jl_array L js) \<and> jl_elems L (jl_array L js) = js) \<and>
     (\<forall>kvs. jl_is_object L (jl_object L kvs) \<and> \<not> jl_is_array L (jl_object L kvs) \<and>
        \<not> jl_is_string L (jl_object L kvs)) \<and>
     (\<forall>kvs k. distinct (map fst kvs) \<longrightarrow> jl_find L (jl_object L kvs) k = map_of kvs k) \<and>
     (\<forall>j k. \<not> jl_is_object L j \<longrightarrow> jl_find L j k = None)"

definition json_laws :: "'j json_lib \<Rightarrow> bool" where
  "json_laws L \<longleftrightarrow> scalar_laws L \<and> structure_laws L \<and>
     value_law L (jl_value_string L) (jl_string L) \<and>
     value_law L (jl_value_int L) (\<lambda>w. jl_number L (sint w)) \<and>
     value_law L (jl_value_uint L) (\<lambda>w. jl_number L (uint w)) \<and>
     value_law L (jl_value_bool L) (jl_bool L) \<and>
     (\<forall>j s. jl_dump L j = Returns s \<longrightarrow> newline \<notin> set s \<and> s \<noteq> []) \<and>
     (\<forall>j s. built L j \<longrightarrow> jl_dump L j = Returns s \<longrightarrow> jl_parse L s = Inr j)"

text \<open>What was read and is written again reads as the same value.\<close>

definition reread_law :: "'j json_lib \<Rightarrow> bool" where
  "reread_law L \<longleftrightarrow> (\<forall>j s. handled L j \<longrightarrow> jl_dump L j = Returns s \<longrightarrow> jl_parse L s = Inr j)"

text \<open>A string is not a number: \<open>value("version", 0)\<close> on a string member throws.\<close>

definition mismatch_laws :: "'j json_lib \<Rightarrow> bool" where
  "mismatch_laws L \<longleftrightarrow>
     (\<forall>j k d v. jl_is_object L j \<longrightarrow> jl_find L j k = Some v \<longrightarrow> jl_is_string L v \<longrightarrow>
        (\<exists>m. jl_value_int L j k d = Throws m)) \<and>
     (\<forall>j k d v. jl_is_object L j \<longrightarrow> jl_find L j k = Some v \<longrightarrow> \<not> jl_is_string L v \<longrightarrow>
        (\<exists>m. jl_value_string L j k d = Throws m))"

lemma scalar_simps:
  assumes "json_laws L"
  shows "jl_is_string L (jl_string L s)" "jl_get_string L (jl_string L s) = Returns s"
    "\<not> jl_is_object L (jl_string L s)" "\<not> jl_is_object L (jl_number L i)" "\<not> jl_is_object L (jl_bool L b)"
    "\<not> jl_is_string L (jl_number L i)" "\<not> jl_is_string L (jl_bool L b)"
  using assms by (simp_all add: json_laws_def scalar_laws_def)

lemma structure_simps:
  assumes "json_laws L"
  shows "jl_is_array L (jl_array L js)" "jl_elems L (jl_array L js) = js"
    "\<not> jl_is_object L (jl_array L js)" "jl_is_object L (jl_object L kvs)"
    "distinct (map fst kvs) \<Longrightarrow> jl_find L (jl_object L kvs) k = map_of kvs k"
  using assms by (simp_all add: json_laws_def structure_laws_def)

lemma value_lawD:
  assumes "value_law L v mk" "jl_is_object L j"
  shows "jl_find L j k = None \<Longrightarrow> v j k d = Returns d"
    "jl_find L j k = Some (mk x) \<Longrightarrow> v j k d = Returns x"
  using assms by (simp_all add: value_law_def)

lemma value_object:
  assumes "json_laws L" "distinct (map fst kvs)"
  shows "map_of kvs k = Some (jl_string L s) \<Longrightarrow> jl_value_string L (jl_object L kvs) k ds = Returns s"
    "map_of kvs k = Some (jl_number L (sint i)) \<Longrightarrow> jl_value_int L (jl_object L kvs) k di = Returns i"
    "map_of kvs k = Some (jl_number L (uint w)) \<Longrightarrow> jl_value_uint L (jl_object L kvs) k dw = Returns w"
    "map_of kvs k = Some (jl_bool L b) \<Longrightarrow> jl_value_bool L (jl_object L kvs) k db = Returns b"
    "map_of kvs k = None \<Longrightarrow> jl_value_string L (jl_object L kvs) k ds = Returns ds"
proof -
  note o = structure_simps(4) [OF assms(1), of kvs]
  note f = structure_simps(5) [OF assms(1,2)]
  have laws: "value_law L (jl_value_string L) (jl_string L)"
    "value_law L (jl_value_int L) (\<lambda>w. jl_number L (sint w))"
    "value_law L (jl_value_uint L) (\<lambda>w. jl_number L (uint w))"
    "value_law L (jl_value_bool L) (jl_bool L)"
    using assms(1) by (simp_all add: json_laws_def)
  show "map_of kvs k = Some (jl_string L s) \<Longrightarrow> jl_value_string L (jl_object L kvs) k ds = Returns s"
    by (rule value_lawD(2) [OF laws(1) o]) (simp only: f)
  show "map_of kvs k = Some (jl_number L (sint i)) \<Longrightarrow> jl_value_int L (jl_object L kvs) k di = Returns i"
    by (rule value_lawD(2) [OF laws(2) o]) (simp only: f)
  show "map_of kvs k = Some (jl_number L (uint w)) \<Longrightarrow> jl_value_uint L (jl_object L kvs) k dw = Returns w"
    by (rule value_lawD(2) [OF laws(3) o]) (simp only: f)
  show "map_of kvs k = Some (jl_bool L b) \<Longrightarrow> jl_value_bool L (jl_object L kvs) k db = Returns b"
    by (rule value_lawD(2) [OF laws(4) o]) (simp only: f)
  show "map_of kvs k = None \<Longrightarrow> jl_value_string L (jl_object L kvs) k ds = Returns ds"
    by (rule value_lawD(1) [OF laws(1) o]) (simp only: f)
qed

lemma value_not_object:
  assumes "json_laws L" "\<not> jl_is_object L j"
  shows "\<exists>m. jl_value_string L j k d = Throws m"
  using assms by (simp add: json_laws_def value_law_def)

lemma dump_no_newline: "json_laws L \<Longrightarrow> jl_dump L j = Returns s \<Longrightarrow> newline \<notin> set s"
  by (simp add: json_laws_def)

lemma dump_nonempty: "json_laws L \<Longrightarrow> jl_dump L j = Returns s \<Longrightarrow> s \<noteq> []"
  by (simp add: json_laws_def)

lemma parse_dump: "json_laws L \<Longrightarrow> built L j \<Longrightarrow> jl_dump L j = Returns s \<Longrightarrow> jl_parse L s = Inr j"
  by (simp add: json_laws_def)

section \<open>An instance\<close>

text \<open>
  An instance of the interface for concrete runs: values as a datatype, and the texts of a given
  table as the only documents; a value without a text is one \<open>dump()\<close> refuses.
\<close>

datatype demo_json = DString string | DNumber int | DBool bool | DArray "demo_json list"
  | DObject "(string \<times> demo_json) list"

definition demo_json_lib :: "(string \<times> demo_json) list \<Rightarrow> demo_json json_lib" where
  "demo_json_lib table = \<lparr>
     jl_parse = (\<lambda>s. case map_of table s of Some j \<Rightarrow> Inr j | None \<Rightarrow> Inl ''syntax error''),
     jl_dump = (\<lambda>j. case map_of (map (\<lambda>(s, j). (j, s)) table) j of
        Some s \<Rightarrow> Returns s | None \<Rightarrow> Throws ''type_error.316''),
     jl_is_object = (\<lambda>j. case j of DObject _ \<Rightarrow> True | _ \<Rightarrow> False),
     jl_is_array = (\<lambda>j. case j of DArray _ \<Rightarrow> True | _ \<Rightarrow> False),
     jl_is_string = (\<lambda>j. case j of DString _ \<Rightarrow> True | _ \<Rightarrow> False),
     jl_find = (\<lambda>j k. case j of DObject kvs \<Rightarrow> map_of kvs k | _ \<Rightarrow> None),
     jl_elems = (\<lambda>j. case j of DArray js \<Rightarrow> js | _ \<Rightarrow> []),
     jl_get_string = (\<lambda>j. case j of DString s \<Rightarrow> Returns s | _ \<Rightarrow> Throws ''type_error.302''),
     jl_value_string = (\<lambda>j k d. case j of DObject kvs \<Rightarrow> (case map_of kvs k of None \<Rightarrow> Returns d
        | Some (DString s) \<Rightarrow> Returns s | Some _ \<Rightarrow> Throws ''type_error.302'') | _ \<Rightarrow> Throws ''type_error.306''),
     jl_value_int = (\<lambda>j k d. case j of DObject kvs \<Rightarrow> (case map_of kvs k of None \<Rightarrow> Returns d
        | Some (DNumber i) \<Rightarrow> Returns (word_of_int i) | Some _ \<Rightarrow> Throws ''type_error.302'') | _ \<Rightarrow> Throws ''type_error.306''),
     jl_value_uint = (\<lambda>j k d. case j of DObject kvs \<Rightarrow> (case map_of kvs k of None \<Rightarrow> Returns d
        | Some (DNumber i) \<Rightarrow> Returns (word_of_int i) | Some _ \<Rightarrow> Throws ''type_error.302'') | _ \<Rightarrow> Throws ''type_error.306''),
     jl_value_bool = (\<lambda>j k d. case j of DObject kvs \<Rightarrow> (case map_of kvs k of None \<Rightarrow> Returns d
        | Some (DBool b) \<Rightarrow> Returns b | Some _ \<Rightarrow> Throws ''type_error.302'') | _ \<Rightarrow> Throws ''type_error.306''),
     jl_string = DString, jl_number = DNumber, jl_bool = DBool, jl_array = DArray,
     jl_object = DObject\<rparr>"

definition demo_table_ok :: "(string \<times> demo_json) list \<Rightarrow> bool" where
  "demo_table_ok table \<longleftrightarrow> distinct (map fst table) \<and> distinct (map snd table) \<and>
     list_all (\<lambda>(s, j). newline \<notin> set s \<and> s \<noteq> []) table"

lemma demo_dump_parse:
  assumes "demo_table_ok table" "jl_dump (demo_json_lib table) j = Returns s"
  shows "(s, j) \<in> set table" and "jl_parse (demo_json_lib table) s = Inr j"
proof -
  have "map_of (map (\<lambda>(s, j). (j, s)) table) j = Some s"
    using assms(2) by (simp add: demo_json_lib_def split: option.splits)
  from map_of_SomeD [OF this] show m: "(s, j) \<in> set table" by auto
  with assms(1) have "map_of table s = Some j" by (simp add: demo_table_ok_def)
  then show "jl_parse (demo_json_lib table) s = Inr j" by (simp add: demo_json_lib_def)
qed

lemma demo_json_laws:
  assumes "demo_table_ok table"
  shows "json_laws (demo_json_lib table) \<and> mismatch_laws (demo_json_lib table)"
proof -
  have "scalar_laws (demo_json_lib table)" "structure_laws (demo_json_lib table)"
    "mismatch_laws (demo_json_lib table)"
    "value_law (demo_json_lib table) (jl_value_string (demo_json_lib table)) DString"
    "value_law (demo_json_lib table) (jl_value_int (demo_json_lib table)) (\<lambda>w. DNumber (sint w))"
    "value_law (demo_json_lib table) (jl_value_uint (demo_json_lib table)) (\<lambda>w. DNumber (uint w))"
    "value_law (demo_json_lib table) (jl_value_bool (demo_json_lib table)) DBool"
    by (auto simp: scalar_laws_def structure_laws_def mismatch_laws_def value_law_def demo_json_lib_def
        split: demo_json.splits)
  moreover have "newline \<notin> set s \<and> s \<noteq> []" if "jl_dump (demo_json_lib table) j = Returns s" for j s
    using demo_dump_parse(1) [OF assms that] assms by (auto simp: demo_table_ok_def list_all_iff)
  moreover have "jl_string (demo_json_lib table) = DString" "jl_number (demo_json_lib table) = DNumber"
    "jl_bool (demo_json_lib table) = DBool"
    by (simp_all add: demo_json_lib_def)
  ultimately show ?thesis
    using demo_dump_parse(2) [OF assms] by (auto simp: json_laws_def)
qed

lemma demo_reread: "demo_table_ok table \<Longrightarrow> reread_law (demo_json_lib table)"
  using demo_dump_parse(2) by (auto simp: reread_law_def)

end
