(* ===== verification/Event_Sink.thy ===== *)
theory Event_Sink
  imports Json_Lib Security_Events
begin

text \<open>
  The event sinks: \<open>include/fileguard/event_sink.hpp\<close>, \<open>src/event_sink.cpp\<close>. A stream is the
  text written to it so far. Writing a JSON line may throw (\<open>dump()\<close> refuses a string that is
  not UTF-8); the exception leaves \<open>SinkSet::write\<close>, so the sinks after it are not written.
\<close>

section \<open>\<open>ConsoleSink\<close>\<close>

definition kPidW :: nat where "kPidW = 8"
definition kUidW :: nat where "kUidW = 6"
definition kCommW :: nat where "kCommW = 16"
definition kProcW :: nat where "kProcW = 36"
definition kFileW :: nat where "kFileW = 44"
definition kOpW :: nat where "kOpW = 6"
definition kActionW :: nat where "kActionW = 7"
definition kReasonW :: nat where "kReasonW = 20"

lemmas column_widths = kPidW_def kUidW_def kCommW_def kProcW_def kFileW_def kOpW_def kActionW_def
  kReasonW_def

definition truncate_text :: "string \<Rightarrow> nat \<Rightarrow> string" where
  "truncate_text s w =
     (if length s \<le> w then s
      else if w \<le> 3 then take w s
      else take (w - 3) s @ ''...'')"

text \<open>\<open>std::left << std::setw(w) << s\<close>: padded on the right, never cut.\<close>

definition setw_left :: "nat \<Rightarrow> string \<Rightarrow> string" where
  "setw_left w s = s @ replicate (w - length s) (CHR '' '')"

record console_sink =
  cs_out :: string
  cs_header_printed :: bool

definition console_new :: console_sink where
  "console_new = \<lparr>cs_out = [], cs_header_printed = False\<rparr>"

definition console_header :: string where
  "console_header =
     setw_left kPidW ''PID'' @ setw_left kUidW ''UID'' @ setw_left kCommW ''COMM'' @
     setw_left kProcW ''PROCESS'' @ setw_left kFileW ''FILE'' @ setw_left kOpW ''OP'' @
     setw_left kActionW ''ACTION'' @ setw_left kReasonW ''REASON'' @ [newline]"

definition console_rule :: string where
  "console_rule =
     replicate (kPidW + kUidW + kCommW + kProcW + kFileW + kOpW + kActionW + kReasonW) (CHR ''-'') @ [newline]"

definition console_row :: "security_event \<Rightarrow> string" where
  "console_row e =
     setw_left kPidW (show_u32 (se_pid e)) @ setw_left kUidW (show_u32 (se_uid e)) @
     setw_left kCommW (truncate_text (se_comm e) kCommW) @
     setw_left kProcW (truncate_text (se_process_path e) kProcW) @
     setw_left kFileW (truncate_text (se_resource_path e) kFileW) @
     setw_left kOpW (operation_name (se_operation e)) @
     setw_left kActionW (action_name (se_action e)) @
     setw_left kReasonW (reason_name (se_reason e)) @ [newline]"

definition console_write :: "security_event \<Rightarrow> console_sink \<Rightarrow> console_sink" where
  "console_write e s =
     (let s1 = (if cs_header_printed s then s
                else s\<lparr>cs_out := cs_out s @ console_header @ console_rule, cs_header_printed := True\<rparr>)
      in s1\<lparr>cs_out := cs_out s1 @ console_row e\<rparr>)"

section \<open>\<open>JsonSink\<close>\<close>

definition event_json :: "'j json_lib \<Rightarrow> security_event \<Rightarrow> 'j" where
  "event_json L e = jl_object L
     [(''timestamp'', jl_string L (se_timestamp e)),
      (''pid'', jl_number L (uint (se_pid e))),
      (''tgid'', jl_number L (uint (se_tgid e))),
      (''uid'', jl_number L (uint (se_uid e))),
      (''gid'', jl_number L (uint (se_gid e))),
      (''comm'', jl_string L (se_comm e)),
      (''process'', jl_string L (se_process_path e)),
      (''resource'', jl_string L (se_resource_path e)),
      (''operation'', jl_string L (operation_name (se_operation e))),
      (''action'', jl_string L (action_name (se_action e))),
      (''reason'', jl_string L (reason_name (se_reason e))),
      (''rule_id'', jl_number L (uint (se_rule_id e)))]"

lemma event_json_built: "built L (event_json L e)"
  by (auto simp: event_json_def intro!: built.intros)

definition json_write :: "'j json_lib \<Rightarrow> security_event \<Rightarrow> string \<Rightarrow> string outcome" where
  "json_write L e out = obind (jl_dump L (event_json L e)) (\<lambda>line. Returns (out @ line @ [newline]))"

section \<open>\<open>SinkSet\<close>\<close>

datatype sink = Console_sink console_sink | Json_sink string

fun sink_write :: "'j json_lib \<Rightarrow> security_event \<Rightarrow> sink \<Rightarrow> sink \<times> unit outcome" where
  "sink_write L e (Console_sink s) = (Console_sink (console_write e s), Returns ())"
| "sink_write L e (Json_sink out) =
     (case json_write L e out of Returns out' \<Rightarrow> (Json_sink out', Returns ())
      | Throws m \<Rightarrow> (Json_sink out, Throws m))"

definition sinks_add :: "sink \<Rightarrow> sink list \<Rightarrow> sink list" where
  "sinks_add s sinks = sinks @ [s]"

fun sinks_write :: "'j json_lib \<Rightarrow> security_event \<Rightarrow> sink list \<Rightarrow> sink list \<times> unit outcome" where
  "sinks_write L e [] = ([], Returns ())"
| "sinks_write L e (s # ss) =
     (case sink_write L e s of
        (s', Throws m) \<Rightarrow> (s' # ss, Throws m)
      | (s', Returns _) \<Rightarrow> (let (ss', r) = sinks_write L e ss in (s' # ss', r)))"

text \<open>The lines of a JSON sink after a run of events.\<close>

fun json_write_all :: "'j json_lib \<Rightarrow> security_event list \<Rightarrow> string \<Rightarrow> string outcome" where
  "json_write_all L [] out = Returns out"
| "json_write_all L (e # es) out = obind (json_write L e out) (json_write_all L es)"

text \<open>A reader of newline-delimited text.\<close>

fun lines_of :: "string \<Rightarrow> string \<Rightarrow> string list" where
  "lines_of acc [] = (if acc = [] then [] else [acc])"
| "lines_of acc (c # cs) = (if c = newline then acc # lines_of [] cs else lines_of (acc @ [c]) cs)"

lemma lines_of_line: "newline \<notin> set l \<Longrightarrow> lines_of acc (l @ newline # cs) = (acc @ l) # lines_of [] cs"
  by (induction l arbitrary: acc) auto

lemma json_write_all_lines:
  assumes "json_laws L" "json_write_all L es out = Returns out'"
  shows "\<exists>ls. out' = out @ concat (map (\<lambda>l. l @ [newline]) ls) \<and>
    lines_of [] (concat (map (\<lambda>l. l @ [newline]) ls)) = ls \<and>
    map (jl_parse L) ls = map (\<lambda>e. Inr (event_json L e)) es"
  using assms(2)
proof (induction es arbitrary: out)
  case Nil
  then show ?case by (intro exI [of _ "[]"]) simp
next
  case (Cons e es)
  then obtain l where l: "jl_dump L (event_json L e) = Returns l"
    and rest: "json_write_all L es (out @ l @ [newline]) = Returns out'"
    by (auto simp: json_write_def obind_eq_Returns)
  from Cons.IH [OF rest] obtain ls where ls:
    "out' = (out @ l @ [newline]) @ concat (map (\<lambda>l. l @ [newline]) ls)"
    "lines_of [] (concat (map (\<lambda>l. l @ [newline]) ls)) = ls"
    "map (jl_parse L) ls = map (\<lambda>e. Inr (event_json L e)) es" by blast
  from parse_dump [OF assms(1) event_json_built l] dump_no_newline [OF assms(1) l] ls
  show ?case by (intro exI [of _ "l # ls"]) (simp add: lines_of_line)
qed

section \<open>Properties\<close>

lemma truncate_length: "length (truncate_text s w) \<le> w"
  by (auto simp: truncate_text_def)

lemma setw_length: "length s \<le> w \<Longrightarrow> length (setw_left w s) = w"
  by (simp add: setw_left_def)

lemma name_lengths:
  "length (operation_name p) \<le> kOpW" "length (action_name a) \<le> kActionW" "length (reason_name r) \<le> kReasonW"
  by (cases p; cases a; cases r; simp add: column_widths)+

text \<open>The console table is aligned: with a pid below \<open>10 ^ 8\<close> and a uid below \<open>10 ^ 6\<close>, whatever the
  paths and names are, the row has the width of the header and of the ruler under it, and the
  paths are cut to their columns.\<close>

theorem console_row_aligned:
  assumes "unat (se_pid e) < 10 ^ 8" and "unat (se_uid e) < 10 ^ 6"
  shows "length (console_row e) = length console_header \<and> length (console_row e) = length console_rule \<and>
    take kFileW (drop (kPidW + kUidW + kCommW + kProcW) (console_row e)) =
      setw_left kFileW (truncate_text (se_resource_path e) kFileW)"
proof -
  have "length (show_u32 (se_pid e)) \<le> kPidW" "length (show_u32 (se_uid e)) \<le> kUidW"
    using assms by (auto simp: show_u32_def column_widths intro: show_nat_length)
  note l = this [THEN setw_length] truncate_length [THEN setw_length] name_lengths [THEN setw_length]
  show ?thesis
    by (simp add: console_row_def console_header_def console_rule_def l)
       (simp add: setw_left_def column_widths)
qed

definition long_pid_event :: "u32 \<Rightarrow> security_event" where
  "long_pid_event pid = \<lparr>se_timestamp = [], se_pid = pid, se_tgid = 1, se_uid = 0, se_gid = 0,
     se_comm = ''cat'', se_process_path = ''/bin/cat'', se_resource_path = ''/protected/secret.txt'',
     se_operation = Open, se_action = Deny, se_reason = DefaultDeny, se_rule_id = 0\<rparr>"

theorem console_row_aligned_witness:
  "length (console_row (long_pid_event 4194304)) = length console_header"
  using console_row_aligned [of "long_pid_event 4194304"] by (simp add: long_pid_event_def)

text \<open>The JSON log is one object per line: after any sequence of events is written without an
  exception, what was appended splits at newlines into exactly one line per event, in order, and
  each line parses back to the event's object.\<close>

theorem json_sink_lines:
  assumes "json_laws L" and "json_write_all L es out = Returns out'"
  shows "\<exists>text. out' = out @ text \<and>
    map (jl_parse L) (lines_of [] text) = map (\<lambda>e. Inr (event_json L e)) es"
  using json_write_all_lines [OF assms] by metis

definition log_lib :: "demo_json json_lib" where
  "log_lib = demo_json_lib [(''e'', event_json (demo_json_lib []) (long_pid_event 7))]"

lemma log_lib_laws: "json_laws log_lib"
  using demo_json_laws [of "[(''e'', event_json (demo_json_lib []) (long_pid_event 7))]"]
  by (simp add: log_lib_def demo_table_ok_def)

lemma log_lib_dump: "jl_dump log_lib (event_json log_lib (long_pid_event 7)) = Returns ''e''"
  by (simp add: log_lib_def demo_json_lib_def event_json_def)

theorem json_sink_lines_witness:
  "json_write_all log_lib [long_pid_event 7, long_pid_event 7] [] = Returns [CHR ''e'', newline, CHR ''e'', newline] \<and>
   (\<exists>text. [CHR ''e'', newline, CHR ''e'', newline] = [] @ text \<and>
     map (jl_parse log_lib) (lines_of [] text) =
       map (\<lambda>e. Inr (event_json log_lib e)) [long_pid_event 7, long_pid_event 7])"
proof -
  have w: "json_write_all log_lib [long_pid_event 7, long_pid_event 7] [] =
      Returns [CHR ''e'', newline, CHR ''e'', newline]"
    by (simp add: json_write_def log_lib_dump)
  from json_sink_lines [OF log_lib_laws w] w show ?thesis by blast
qed

end
