(* ===== verification/Config_Parser.thy ===== *)
theory Config_Parser
  imports Json_Lib Policy_Model
begin

text \<open>
  \<open>ConfigParser\<close> (\<open>include/fileguard/config_parser.hpp\<close>, \<open>src/config_parser.cpp\<close>): from policy
  JSON to a validated \<open>Policy\<close>. A parse may end in three ways: a policy, an error message, or a
  \<open>type_error\<close> of the JSON library, which nothing here catches.
\<close>

definition parse_operation :: "'j json_lib \<Rightarrow> 'j \<Rightarrow> operation result outcome" where
  "parse_operation L j =
     (if \<not> jl_is_string L j then Returns (Inl (quoted ''operation'' @ '' must be a string''))
      else obind (jl_get_string L j) (\<lambda>op.
        if op = ''OPEN'' then Returns (Inr Open)
        else Returns (Inl (''unsupported operation '' @ quoted op @ '' (MVP supports OPEN only)''))))"

definition parse_action :: "'j json_lib \<Rightarrow> 'j \<Rightarrow> action result outcome" where
  "parse_action L j =
     (if \<not> jl_is_string L j then Returns (Inl (quoted ''action'' @ '' must be a string''))
      else obind (jl_get_string L j) (\<lambda>a.
        if a = ''ALLOW'' then Returns (Inr Allow)
        else if a = ''DENY'' then Returns (Inr Deny)
        else Returns (Inl (''invalid action '' @ quoted a @ '' (expected ALLOW or DENY)''))))"

definition parse_process :: "'j json_lib \<Rightarrow> 'j \<Rightarrow> process_identity result outcome" where
  "parse_process L j =
     (if \<not> jl_is_object L j then
        Returns (Inl (quoted ''process'' @ '' must be an object with '' @ quoted ''type'' @ '' and '' @ quoted ''value''))
      else obind (jl_value_string L j ''type'' []) (\<lambda>type.
        if type \<noteq> ''exe_path'' then
          Returns (Inl (''unsupported process identity type '' @ quoted type @ '' (MVP supports exe_path only)''))
        else
          let no_path = Returns (Inl (quoted ''process.value'' @ '' must be a non-empty path'')) in
          case jl_find L j ''value'' of
            None \<Rightarrow> no_path
          | Some v \<Rightarrow>
              if \<not> jl_is_string L v then no_path
              else obind (jl_get_string L v) (\<lambda>value.
                if value = [] then no_path
                else if hd value \<noteq> CHR ''/'' then
                  Returns (Inl (''process path must be absolute: '' @ quoted value))
                else Returns (Inr \<lparr>pid_type = ExePath, pid_value = value\<rparr>))))"

text \<open>The optional \<open>defaults.action\<close>.\<close>

definition parse_default_action :: "'j json_lib \<Rightarrow> 'j \<Rightarrow> action result outcome" where
  "parse_default_action L root =
     (case jl_find L root ''defaults'' of
        None \<Rightarrow> Returns (Inr Deny)
      | Some defaults \<Rightarrow>
          if \<not> jl_is_object L defaults then Returns (Inl (quoted ''defaults'' @ '' must be an object''))
          else case jl_find L defaults ''action'' of
              None \<Rightarrow> Returns (Inr Deny)
            | Some a \<Rightarrow> parse_action L a)"

definition parse_resource :: "'j json_lib \<Rightarrow> 'j \<Rightarrow> resource_identity result outcome" where
  "parse_resource L item =
     (if \<not> jl_is_object L item then Returns (Inl ''each protected resource must be an object'')
      else obind (jl_value_string L item ''path'' []) (\<lambda>path.
        if path = [] \<or> hd path \<noteq> CHR ''/'' then
          Returns (Inl (''protected resource path must be absolute: '' @ quoted path))
        else case jl_find L item ''operation'' of
            None \<Rightarrow> Returns (Inr \<lparr>res_path = path, res_operation = None\<rparr>)
          | Some j \<Rightarrow> rbind (parse_operation L j) (\<lambda>op.
              Returns (Inr \<lparr>res_path = path, res_operation = Some op\<rparr>))))"

text \<open>The members of \<open>PolicyRule\<close> that the document may leave out keep their initial values.\<close>

definition default_rule :: policy_rule where
  "default_rule = \<lparr>rule_name = [], rule_resource = \<lparr>res_path = [], res_operation = None\<rparr>,
     rule_process = \<lparr>pid_type = ExePath, pid_value = []\<rparr>, rule_operation = Open, rule_action = Allow\<rparr>"

definition optional_member ::
  "'j json_lib \<Rightarrow> 'j \<Rightarrow> string \<Rightarrow> ('j \<Rightarrow> 'a result outcome) \<Rightarrow> 'a \<Rightarrow> 'a result outcome" where
  "optional_member L item key parse d =
     (case jl_find L item key of None \<Rightarrow> Returns (Inr d) | Some j \<Rightarrow> parse j)"

definition parse_rule :: "'j json_lib \<Rightarrow> 'j \<Rightarrow> policy_rule result outcome" where
  "parse_rule L item =
     (if \<not> jl_is_object L item then Returns (Inl ''each rule must be an object'')
      else obind (jl_value_string L item ''id'' []) (\<lambda>id.
        obind (jl_value_string L item ''resource'' []) (\<lambda>resource.
        rbind (optional_member L item ''operation'' (parse_operation L) (rule_operation default_rule)) (\<lambda>op.
        rbind (optional_member L item ''process'' (parse_process L) (rule_process default_rule)) (\<lambda>proc.
        rbind (optional_member L item ''action'' (parse_action L) (rule_action default_rule)) (\<lambda>a.
        Returns (Inr \<lparr>rule_name = id, rule_resource = \<lparr>res_path = resource, res_operation = None\<rparr>,
          rule_process = proc, rule_operation = op, rule_action = a\<rparr>)))))))"

text \<open>A loop that appends one parsed element per array element and returns at the first error.\<close>

fun parse_each :: "('j \<Rightarrow> 'a result outcome) \<Rightarrow> 'j list \<Rightarrow> 'a list result outcome" where
  "parse_each f [] = Returns (Inr [])"
| "parse_each f (item # rest) =
     rbind (f item) (\<lambda>x. rbind (parse_each f rest) (\<lambda>xs. Returns (Inr (x # xs))))"

definition parse_array ::
  "'j json_lib \<Rightarrow> 'j \<Rightarrow> string \<Rightarrow> ('j \<Rightarrow> 'a result outcome) \<Rightarrow> 'a list result outcome" where
  "parse_array L root key f =
     (case jl_find L root key of
        None \<Rightarrow> Returns (Inr [])
      | Some list \<Rightarrow>
          if \<not> jl_is_array L list then Returns (Inl (quoted key @ '' must be an array''))
          else parse_each f (jl_elems L list))"

definition from_json :: "'j json_lib \<Rightarrow> string \<Rightarrow> policy result outcome" where
  "from_json L json_text =
     (case jl_parse L json_text of
        Inl what \<Rightarrow> Returns (Inl (''policy JSON parse error: '' @ what))
      | Inr root \<Rightarrow>
          if \<not> jl_is_object L root then Returns (Inl ''policy must be a JSON object'')
          else obind (jl_value_int L root ''version'' 0) (\<lambda>version.
            rbind (parse_default_action L root) (\<lambda>default_action.
            rbind (parse_array L root ''protected_resources'' (parse_resource L)) (\<lambda>resources.
            rbind (parse_array L root ''rules'' (parse_rule L)) (\<lambda>rules.
            let policy = \<lparr>pol_version = version, pol_default_action = default_action,
                  pol_resources = resources, pol_rules = rules\<rparr> in
            rbind (Returns (validate policy)) (\<lambda>_. Returns (Inr policy)))))))"

text \<open>
  Reading a file: the file system says whether the file opens, what its bytes are, and whether
  the stream went bad while reading.
\<close>

type_synonym file_system = "string \<Rightarrow> (string \<times> bool) option"

definition from_file :: "'j json_lib \<Rightarrow> file_system \<Rightarrow> string \<Rightarrow> policy result outcome" where
  "from_file L fs path =
     (case fs path of
        None \<Rightarrow> Returns (Inl (''cannot open policy file '' @ quoted path))
      | Some (contents, bad) \<Rightarrow>
          if bad then Returns (Inl (''error reading policy file '' @ quoted path))
          else from_json L contents)"

section \<open>The document of a policy\<close>

text \<open>The JSON schema of the header, as the encoder of a policy.\<close>

definition operation_json :: "'j json_lib \<Rightarrow> operation \<Rightarrow> 'j" where
  "operation_json L op = jl_string L (operation_name op)"

definition resource_json :: "'j json_lib \<Rightarrow> resource_identity \<Rightarrow> 'j" where
  "resource_json L r = jl_object L ((''path'', jl_string L (res_path r)) #
     (case res_operation r of None \<Rightarrow> [] | Some op \<Rightarrow> [(''operation'', operation_json L op)]))"

definition rule_json :: "'j json_lib \<Rightarrow> policy_rule \<Rightarrow> 'j" where
  "rule_json L r = jl_object L
     [(''id'', jl_string L (rule_name r)),
      (''resource'', jl_string L (res_path (rule_resource r))),
      (''operation'', operation_json L (rule_operation r)),
      (''process'', jl_object L [(''type'', jl_string L ''exe_path''),
         (''value'', jl_string L (pid_value (rule_process r)))]),
      (''action'', jl_string L (action_name (rule_action r)))]"

definition policy_json :: "'j json_lib \<Rightarrow> policy \<Rightarrow> 'j" where
  "policy_json L p = jl_object L
     [(''version'', jl_number L (sint (pol_version p))),
      (''defaults'', jl_object L [(''action'', jl_string L (action_name (pol_default_action p)))]),
      (''protected_resources'', jl_array L (map (resource_json L) (pol_resources p))),
      (''rules'', jl_array L (map (rule_json L) (pol_rules p)))]"

text \<open>The policies the schema can express: named actions, absolute process paths, and rules
  whose resource carries no operation of its own.\<close>

definition named_action :: "action \<Rightarrow> bool" where
  "named_action a \<longleftrightarrow> a = Allow \<or> a = Deny"

definition expressible :: "policy \<Rightarrow> bool" where
  "expressible p \<longleftrightarrow> policy_wf p \<and> named_action (pol_default_action p) \<and>
     (\<forall>r \<in> set (pol_rules p). named_action (rule_action r) \<and> absolute (pid_value (rule_process r)) \<and>
        res_operation (rule_resource r) = None)"

lemma parse_each_map:
  "(\<And>x. x \<in> set xs \<Longrightarrow> f (enc x) = Returns (Inr x)) \<Longrightarrow>
     parse_each f (map enc xs) = Returns (Inr xs)"
  by (induction xs) auto

lemma parse_each_InrD:
  "parse_each f js = Returns (Inr xs) \<Longrightarrow> x \<in> set xs \<Longrightarrow> \<exists>j \<in> set js. f j = Returns (Inr x)"
  by (induction js arbitrary: xs) (auto simp: rbind_eq_Inr)

lemma parse_action_name:
  "json_laws L \<Longrightarrow> named_action a \<Longrightarrow> parse_action L (jl_string L (action_name a)) = Returns (Inr a)"
  by (auto simp: parse_action_def named_action_def scalar_simps)

lemma parse_resource_json:
  assumes "json_laws L" "resource_wf r"
  shows "parse_resource L (resource_json L r) = Returns (Inr r)"
proof (cases "res_operation r")
  case None
  let ?kvs = "[(''path'', jl_string L (res_path r))]"
  from None assms show ?thesis
    by (cases r)
       (auto simp: parse_resource_def resource_json_def structure_simps value_object(1) resource_wf_def absolute_def)
next
  case (Some op)
  with assms(2) have op: "op = Open" by (simp add: resource_wf_def)
  with Some assms show ?thesis
    by (cases r)
       (auto simp: parse_resource_def resource_json_def structure_simps value_object(1) resource_wf_def absolute_def
         parse_operation_def operation_json_def scalar_simps)
qed

lemma parse_process_json:
  assumes "json_laws L" "absolute v"
  shows "parse_process L (jl_object L [(''type'', jl_string L ''exe_path''), (''value'', jl_string L v)]) =
    Returns (Inr \<lparr>pid_type = ExePath, pid_value = v\<rparr>)"
  using assms
  by (auto simp: parse_process_def structure_simps value_object(1) scalar_simps absolute_def)

lemma parse_rule_json:
  assumes "json_laws L" "rule_wf paths r" "named_action (rule_action r)"
    "absolute (pid_value (rule_process r))" "res_operation (rule_resource r) = None"
  shows "parse_rule L (rule_json L r) = Returns (Inr r)"
proof -
  have "rule_operation r = Open" "pid_type (rule_process r) = ExePath"
    using assms(2) by (simp_all add: rule_wf_def)
  then show ?thesis
    using assms
    by (auto simp: parse_rule_def rule_json_def structure_simps value_object(1) optional_member_def
        parse_operation_def operation_json_def scalar_simps parse_process_json parse_action_name)
qed

lemma from_json_policy_json:
  assumes L: "json_laws L" and p: "expressible p" and parsed: "jl_parse L t = Inr (policy_json L p)"
  shows "from_json L t = Returns (Inr p)"
proof -
  have "parse_each (parse_resource L) (map (resource_json L) (pol_resources p)) = Returns (Inr (pol_resources p))"
    using L p by (intro parse_each_map parse_resource_json) (auto simp: expressible_def policy_wf_def)
  moreover have "parse_each (parse_rule L) (map (rule_json L) (pol_rules p)) = Returns (Inr (pol_rules p))"
    using L p by (intro parse_each_map parse_rule_json) (auto simp: expressible_def policy_wf_def)
  moreover have "jl_value_int L (policy_json L p) ''version'' 0 = Returns (pol_version p)"
    unfolding policy_json_def by (rule value_object(2) [OF L]) simp_all
  moreover have "validate p = Inr ()" using p by (simp add: expressible_def validate_iff_wf)
  ultimately show ?thesis
    using p L
    by (simp add: from_json_def parsed expressible_def parse_action_name parse_default_action_def parse_array_def)
       (cases p, simp add: policy_json_def structure_simps parse_action_name Let_def)
qed

text \<open>What each parser lets through.\<close>

lemma obind_Inr:
  "obind m f = Returns (Inr y) \<longleftrightarrow> (\<exists>x. m = Returns x \<and> f x = Returns (Inr y))"
  by (rule obind_eq_Returns)

lemma parse_action_InrD: "parse_action L j = Returns (Inr a) \<Longrightarrow> named_action a"
  by (auto simp: parse_action_def named_action_def obind_Inr split: if_splits)

lemma parse_process_InrD:
  "parse_process L j = Returns (Inr p) \<Longrightarrow> absolute (pid_value p)"
  by (auto simp: parse_process_def absolute_def obind_Inr Let_def split: if_splits option.splits)

lemma parse_default_action_InrD: "parse_default_action L j = Returns (Inr a) \<Longrightarrow> named_action a"
  by (auto simp: parse_default_action_def named_action_def split: option.splits if_splits
      dest!: parse_action_InrD)

lemma optional_member_InrD:
  "optional_member L item key f d = Returns (Inr x) \<Longrightarrow> x = d \<or> (\<exists>j. f j = Returns (Inr x))"
  by (auto simp: optional_member_def split: option.splits)

lemma parse_rule_InrD:
  assumes "parse_rule L j = Returns (Inr r)"
  shows "named_action (rule_action r)" "res_operation (rule_resource r) = None"
    "pid_value (rule_process r) \<noteq> [] \<Longrightarrow> absolute (pid_value (rule_process r))"
  using assms
  by (auto simp: parse_rule_def obind_Inr rbind_eq_Inr default_rule_def named_action_def
      split: if_splits dest!: optional_member_InrD dest: parse_action_InrD parse_process_InrD)

lemma parse_array_InrD:
  "parse_array L root key f = Returns (Inr xs) \<Longrightarrow> x \<in> set xs \<Longrightarrow> \<exists>j. f j = Returns (Inr x)"
  by (auto simp: parse_array_def split: option.splits if_splits dest: parse_each_InrD)

lemma from_json_expressible:
  assumes "from_json L t = Returns (Inr p)"
  shows "expressible p"
proof -
  obtain root where root: "jl_parse L t = Inr root" "jl_is_object L root"
    using assms by (auto simp: from_json_def split: sum.splits if_splits)
  with assms obtain resources rules where
    act: "parse_default_action L root = Returns (Inr (pol_default_action p))"
    and rules: "parse_array L root ''rules'' (parse_rule L) = Returns (Inr (pol_rules p))"
    and valid: "validate p = Inr ()"
    by (auto simp: from_json_def obind_Inr rbind_eq_Inr Let_def split: sum.splits)
  from valid have wf: "policy_wf p" by (simp add: validate_iff_wf)
  moreover have "named_action (rule_action r) \<and> absolute (pid_value (rule_process r)) \<and>
      res_operation (rule_resource r) = None" if "r \<in> set (pol_rules p)" for r
  proof -
    from parse_array_InrD [OF rules that] obtain j where j: "parse_rule L j = Returns (Inr r)" ..
    have "pid_value (rule_process r) \<noteq> []" using wf that by (auto simp: policy_wf_def rule_wf_def)
    with parse_rule_InrD [OF j] show ?thesis by blast
  qed
  ultimately show ?thesis
    using parse_default_action_InrD [OF act] by (simp add: expressible_def)
qed

section \<open>Properties\<close>

text \<open>C24. The parser is sound: every policy it returns satisfies the invariant of a validated
  policy, names its actions, gives every rule an absolute executable path and no resource
  operation of its own; no text slips past validation.\<close>

theorem from_json_sound:
  assumes "from_json L t = Returns (Inr p)"
  shows "expressible p"
  using from_json_expressible [OF assms] .

definition sample_policy :: policy where
  "sample_policy = \<lparr>pol_version = 3, pol_default_action = Deny,
     pol_resources = [\<lparr>res_path = ''/protected/secret.txt'', res_operation = Some Open\<rparr>],
     pol_rules = [\<lparr>rule_name = ''allow-backup'',
        rule_resource = \<lparr>res_path = ''/protected/secret.txt'', res_operation = None\<rparr>,
        rule_process = \<lparr>pid_type = ExePath, pid_value = ''/usr/local/bin/backup-agent''\<rparr>,
        rule_operation = Open, rule_action = Allow\<rparr>]\<rparr>"

definition sample_lib :: "demo_json json_lib" where
  "sample_lib = demo_json_lib [(''{}'', policy_json (demo_json_lib []) sample_policy)]"

lemma sample_lib_laws: "json_laws sample_lib" "mismatch_laws sample_lib"
  using demo_json_laws [of "[(''{}'', policy_json (demo_json_lib []) sample_policy)]"]
  by (simp_all add: sample_lib_def demo_table_ok_def)

lemma sample_parse: "jl_parse sample_lib ''{}'' = Inr (policy_json sample_lib sample_policy)"
  by (simp add: sample_lib_def demo_json_lib_def policy_json_def resource_json_def rule_json_def
      operation_json_def sample_policy_def)

lemma sample_expressible: "expressible sample_policy"
  by (simp add: sample_policy_def expressible_def policy_wf_def resource_wf_def rule_wf_def
      protected_paths_def named_action_def)

theorem from_json_sound_witness:
  "from_json sample_lib ''{}'' = Returns (Inr sample_policy) \<and> expressible sample_policy"
  using from_json_sound [of sample_lib "''{}''" sample_policy]
    from_json_policy_json [OF sample_lib_laws(1) sample_expressible sample_parse] by blast

text \<open>C23. The parser is complete for the documented schema: the document of any expressible policy
  parses back to exactly that policy, so the two directions together make \<open>expressible\<close> the range
  of the parser.\<close>

theorem from_json_roundtrip:
  assumes "json_laws L" and "expressible p" and "jl_dump L (policy_json L p) = Returns t"
  shows "from_json L t = Returns (Inr p)"
proof -
  have "built L (policy_json L p)"
    by (auto simp: policy_json_def resource_json_def rule_json_def operation_json_def
        split: option.splits intro!: built.intros)
  from from_json_policy_json [OF assms(1,2) parse_dump [OF assms(1) this assms(3)]] show ?thesis .
qed

theorem from_json_roundtrip_witness:
  "jl_dump sample_lib (policy_json sample_lib sample_policy) = Returns ''{}'' \<and>
   from_json sample_lib ''{}'' = Returns (Inr sample_policy)"
proof -
  have "jl_dump sample_lib (policy_json sample_lib sample_policy) = Returns ''{}''"
    by (simp add: sample_lib_def demo_json_lib_def policy_json_def resource_json_def rule_json_def
        operation_json_def sample_policy_def)
  with from_json_roundtrip [OF sample_lib_laws(1) sample_expressible] show ?thesis by blast
qed

text \<open>A JSON type error escapes the parser: a document whose \<open>version\<close> is a string does not
  give an error result, the library's exception leaves \<open>from_json\<close> (only parse errors are
  caught).\<close>

theorem from_json_type_error:
  assumes "json_laws L" and "mismatch_laws L" and "jl_parse L t = Inr (jl_object L kvs)"
    and "distinct (map fst kvs)" and "map_of kvs ''version'' = Some (jl_string L s)"
  shows "\<exists>m. from_json L t = Throws m"
proof -
  have o: "jl_is_object L (jl_object L kvs)" by (rule structure_simps(4) [OF assms(1)])
  have f: "jl_find L (jl_object L kvs) ''version'' = Some (jl_string L s)"
    using structure_simps(5) [OF assms(1,4)] assms(5) by simp
  obtain m where "jl_value_int L (jl_object L kvs) ''version'' 0 = Throws m"
    using assms(2) o f scalar_simps(1) [OF assms(1)] unfolding mismatch_laws_def by blast
  with assms(3) o show ?thesis by (simp add: from_json_def)
qed

theorem from_json_type_error_witness:
  "from_json (demo_json_lib [(''v'', DObject [(''version'', DString ''1'')])]) ''v'' =
     Throws ''type_error.302''"
proof -
  let ?L = "demo_json_lib [(''v'', DObject [(''version'', DString ''1'')])]"
  have laws: "json_laws ?L" "mismatch_laws ?L"
    using demo_json_laws [of "[(''v'', DObject [(''version'', DString ''1'')])]"]
    by (simp_all add: demo_table_ok_def)
  have parse: "jl_parse ?L ''v'' = Inr (jl_object ?L [(''version'', jl_string ?L ''1'')])"
    by (simp add: demo_json_lib_def)
  have "\<exists>m. from_json ?L ''v'' = Throws m"
    by (rule from_json_type_error [OF laws parse]) simp_all
  then show ?thesis by (auto simp: from_json_def demo_json_lib_def)
qed

end
