(* ===== verification/Controller.thy ===== *)
theory Controller
  imports Ebpf_Install Event_Queue Event_Sink Config_Parser "HOL-Library.Signed_Division"
begin

text \<open>
  The controller: \<open>include/fileguard/controller.hpp\<close>, \<open>src/controller.cpp\<close>. The enforcer is a value
  of the interface \<open>enforcer_ops\<close>; stream clients are pointers (numbers) into a store, because the
  daemon holds them too. What the two worker threads do is a step per event: \<open>emit_event\<close> on the
  producer's side, \<open>consume_one\<close> on the consumer's.
\<close>

section \<open>\<open>PolicyManager\<close>\<close>

record policy_manager =
  pm_current :: "policy option"

definition pm_new :: policy_manager where
  "pm_new = \<lparr>pm_current = None\<rparr>"

definition pm_install :: "policy option \<Rightarrow> policy_manager \<Rightarrow> unit result \<times> policy_manager" where
  "pm_install p pm =
     (case p of
        None \<Rightarrow> (Inl ''cannot install a null policy'', pm)
      | Some policy \<Rightarrow>
          (case validate policy of
             Inl e \<Rightarrow> (Inl e, pm)
           | Inr _ \<Rightarrow> (Inr (), pm\<lparr>pm_current := Some policy\<rparr>)))"

definition pm_version :: "policy_manager \<Rightarrow> i32" where
  "pm_version pm = (case pm_current pm of Some p \<Rightarrow> pol_version p | None \<Rightarrow> 0)"

text \<open>The accessor \<open>current()\<close>.\<close>

definition pm_get :: "policy_manager \<Rightarrow> policy option" where
  "pm_get pm = pm_current pm"

section \<open>State\<close>

record controller_config =
  cc_policy_file :: string
  cc_runtime_dir :: string
  cc_console_output :: bool
  cc_json_log :: string
  cc_event_queue_capacity :: nat
  cc_enforcer :: enforcer_config

definition default_controller_config :: controller_config where
  "default_controller_config = \<lparr>cc_policy_file = [], cc_runtime_dir = ''/tmp/fileguard'',
     cc_console_output = True, cc_json_log = [], cc_event_queue_capacity = 65536,
     cc_enforcer = default_enforcer_config\<rparr>"

record ('e, 'k) controller =
  ct_cfg :: controller_config
  ct_policy_manager :: policy_manager
  ct_enforcer :: "'e option"
  ct_resolver :: "path_resolver option"
  ct_queue :: "security_event spsc_queue"
  ct_sinks :: "sink list"
  ct_boot_offset_ns :: i64
  ct_clients :: "nat list"
  ct_client_store :: "nat \<Rightarrow> 'k"
  ct_started :: bool
  ct_ring_thread :: bool
  ct_consumer_thread :: bool

text \<open>A slot of the queue holds a null pointer until it is written; no operation reads it then.
  The model fills it with an event of no content.\<close>

definition empty_event :: security_event where
  "empty_event = \<lparr>se_timestamp = [], se_pid = 0, se_tgid = 0, se_uid = 0, se_gid = 0, se_comm = [],
     se_process_path = [], se_resource_path = [], se_operation = Open, se_action = Deny,
     se_reason = DefaultDeny, se_rule_id = 0\<rparr>"

text \<open>\<open>boot_wall_offset_ns\<close> on Linux, from the wall clock in nanoseconds and \<open>CLOCK_BOOTTIME\<close>.\<close>

definition boot_wall_offset_ns :: "int \<Rightarrow> int \<Rightarrow> int \<Rightarrow> i64" where
  "boot_wall_offset_ns wall tv_sec tv_nsec = word_of_int (wall - (1000000000 * tv_sec + tv_nsec))"

text \<open>The constructor; \<open>log_file\<close> gives the text of a log that opens for appending.\<close>

definition controller_new ::
  "(string \<Rightarrow> string option) \<Rightarrow> i64 \<Rightarrow> (nat \<Rightarrow> 'k) \<Rightarrow> controller_config \<Rightarrow> ('e, 'k) controller outcome" where
  "controller_new log_file offset store cfg =
     obind (spsc_new empty_event (cc_event_queue_capacity cfg)) (\<lambda>q.
       let sinks1 = (if cc_console_output cfg then sinks_add (Console_sink console_new) [] else []);
           sinks2 = (if cc_json_log cfg = [] then sinks1
             else case log_file (cc_json_log cfg) of
                 None \<Rightarrow> sinks1
               | Some contents \<Rightarrow> sinks_add (Json_sink contents) sinks1)
       in Returns \<lparr>ct_cfg = cfg, ct_policy_manager = pm_new, ct_enforcer = None, ct_resolver = None,
            ct_queue = q, ct_sinks = sinks2, ct_boot_offset_ns = offset, ct_clients = [],
            ct_client_store = store, ct_started = False, ct_ring_thread = False,
            ct_consumer_thread = False\<rparr>)"

section \<open>\<open>load_policy\<close>\<close>

text \<open>The reverse resolver; the index loops run over the shorter of the two vectors.\<close>

definition rebuild_resolver :: "policy \<Rightarrow> compiled_policy \<Rightarrow> path_resolver" where
  "rebuild_resolver p compiled =
     (let m1 = fold (\<lambda>(res, i) m. resolver_add i (res_path res) m)
           (zip (pol_resources p) (cp_protected_resources compiled)) resolver_new
      in fold (\<lambda>(rule, cr) m. resolver_add (cr_process cr) (pid_value (rule_process rule)) m)
           (zip (pol_rules p) (cp_rules compiled)) m1)"

text \<open>Its three effects, in order: the kernel, the resolver, the userspace policy. No lock spans
  them, so calls from two threads interleave at this grain.\<close>

definition load_apply ::
  "'e enforcer_ops \<Rightarrow> compiled_policy \<Rightarrow> ('e, 'k) controller \<Rightarrow> (unit result \<times> ('e, 'k) controller) option" where
  "load_apply ops compiled c =
     (case ct_enforcer c of
        None \<Rightarrow> Some (Inr (), c)
      | Some enf \<Rightarrow>
          (case op_apply ops enf compiled of
             None \<Rightarrow> None
           | Some (Inl e, enf') \<Rightarrow>
               Some (Inl (''kernel policy install failed: '' @ e), c\<lparr>ct_enforcer := Some enf'\<rparr>)
           | Some (Inr _, enf') \<Rightarrow> Some (Inr (), c\<lparr>ct_enforcer := Some enf'\<rparr>)))"

definition load_resolver :: "policy \<Rightarrow> compiled_policy \<Rightarrow> ('e, 'k) controller \<Rightarrow> ('e, 'k) controller" where
  "load_resolver p compiled c = c\<lparr>ct_resolver := Some (rebuild_resolver p compiled)\<rparr>"

definition load_install :: "policy \<Rightarrow> ('e, 'k) controller \<Rightarrow> unit result \<times> ('e, 'k) controller" where
  "load_install p c =
     (case pm_install (Some p) (ct_policy_manager c) of
        (r, pm) \<Rightarrow> (r, c\<lparr>ct_policy_manager := pm\<rparr>))"

definition load_policy ::
  "'e enforcer_ops \<Rightarrow> file_resolver \<Rightarrow> policy option \<Rightarrow> ('e, 'k) controller \<Rightarrow>
     (unit result \<times> ('e, 'k) controller) option" where
  "load_policy ops R p c =
     (case p of
        None \<Rightarrow> Some (Inl ''cannot install a null policy'', c)
      | Some policy \<Rightarrow>
          (case validate policy of
             Inl e \<Rightarrow> Some (Inl e, c)
           | Inr _ \<Rightarrow>
               (case compile R policy of
                  Inl e \<Rightarrow> Some (Inl e, c)
                | Inr compiled \<Rightarrow>
                    (case load_apply ops compiled c of
                       None \<Rightarrow> None
                     | Some (Inl e, c1) \<Rightarrow> Some (Inl e, c1)
                     | Some (Inr _, c1) \<Rightarrow>
                         Some (load_install policy (load_resolver policy compiled c1))))))"

section \<open>\<open>start\<close>\<close>

text \<open>A run may end by an exception of the JSON library, with the state reached so far.\<close>

definition start ::
  "'e enforcer_ops \<Rightarrow> (enforcer_config \<Rightarrow> 'e) \<Rightarrow> 'j json_lib \<Rightarrow> file_system \<Rightarrow> file_resolver \<Rightarrow>
     ('e, 'k) controller \<Rightarrow> (unit result outcome \<times> ('e, 'k) controller) option" where
  "start ops create_enforcer L fs R c =
     (if ct_started c then Some (Returns (Inl ''controller already started''), c)
      else
        let cfg = (ct_cfg c)\<lparr>cc_enforcer := (cc_enforcer (ct_cfg c))\<lparr>ec_on_event := True\<rparr>\<rparr>;
            (r, enf) = op_load ops (create_enforcer (cc_enforcer cfg));
            c1 = c\<lparr>ct_started := True, ct_cfg := cfg, ct_enforcer := Some enf\<rparr>;
            run_threads = (\<lambda>c2. (Returns (Inr ()), c2\<lparr>ct_ring_thread := True, ct_consumer_thread := True\<rparr>))
        in case r of
             Inl e \<Rightarrow> Some (Returns (Inl e), c1)
           | Inr _ \<Rightarrow>
               if cc_policy_file cfg = [] then Some (run_threads c1)
               else case from_file L fs (cc_policy_file cfg) of
                   Throws m \<Rightarrow> Some (Throws m, c1)
                 | Returns (Inl e) \<Rightarrow> Some (Returns (Inl e), c1)
                 | Returns (Inr policy) \<Rightarrow>
                     (case load_policy ops R (Some policy) c1 of
                        None \<Rightarrow> None
                      | Some (Inl e, c2) \<Rightarrow> Some (Returns (Inl e), c2)
                      | Some (Inr _, c2) \<Rightarrow> Some (run_threads c2)))"

definition controller_status :: "'e enforcer_ops \<Rightarrow> ('e, 'k) controller \<Rightarrow> enforcer_status" where
  "controller_status ops c =
     (case ct_enforcer c of
        None \<Rightarrow> initial_status\<lparr>st_backend := ''unloaded''\<rparr>
      | Some e \<Rightarrow> op_status ops e)"

section \<open>The event pipeline\<close>

text \<open>
  \<open>format_event_time\<close>: \<open>fmt\<close> stands for \<open>localtime_r\<close> with \<open>put_time\<close>. The division truncates
  towards zero; the sum is taken in the integers (in C++ its overflow is undefined).
\<close>

definition setw_right :: "char \<Rightarrow> nat \<Rightarrow> string \<Rightarrow> string" where
  "setw_right fill w s = replicate (w - length s) fill @ s"

definition format_event_time :: "(int \<Rightarrow> string) \<Rightarrow> i64 \<Rightarrow> i64 \<Rightarrow> string" where
  "format_event_time fmt timestamp_ns offset_ns =
     (let wall_ns = sint timestamp_ns + sint offset_ns;
          secs = wall_ns sdiv 1000000000;
          ms = (wall_ns smod 1000000000) sdiv 1000000
      in fmt secs @ ''.'' @ setw_right (CHR ''0'') 3 (show_int ms))"

definition enrich ::
  "(int \<Rightarrow> string) \<Rightarrow> i64 \<Rightarrow> path_resolver option \<Rightarrow> raw_event \<Rightarrow> security_event" where
  "enrich fmt offset resolver raw =
     \<lparr>se_timestamp = format_event_time fmt (raw_timestamp_ns raw) offset,
      se_pid = raw_pid raw, se_tgid = raw_tgid raw, se_uid = raw_uid raw, se_gid = raw_gid raw,
      se_comm = raw_comm raw,
      se_process_path = (case resolver of Some m \<Rightarrow> resolver_resolve m (raw_process raw)
        | None \<Rightarrow> file_id_to_string (raw_process raw)),
      se_resource_path = (case resolver of Some m \<Rightarrow> resolver_resolve m (raw_resource raw)
        | None \<Rightarrow> file_id_to_string (raw_resource raw)),
      se_operation = raw_operation raw, se_action = raw_action raw, se_reason = raw_reason raw,
      se_rule_id = raw_rule_id raw\<rparr>"

text \<open>\<open>None\<close>: the call blocks, the queue being full.\<close>

definition emit_event ::
  "(int \<Rightarrow> string) \<Rightarrow> raw_event \<Rightarrow> ('e, 'k) controller \<Rightarrow> ('e, 'k) controller option" where
  "emit_event fmt raw c =
     (let ev = enrich fmt (ct_boot_offset_ns c) (ct_resolver c) raw
      in map_option (\<lambda>q. c\<lparr>ct_queue := q\<rparr>) (push ev (ct_queue c)))"

text \<open>The interface \<open>EventStreamClient\<close>; a \<open>push\<close> may throw like a sink.\<close>

record 'k client_ops =
  cl_closed :: "'k \<Rightarrow> bool"
  cl_push :: "security_event \<Rightarrow> 'k \<Rightarrow> 'k outcome"

fun deliver ::
  "'k client_ops \<Rightarrow> security_event \<Rightarrow> nat list \<Rightarrow> (nat \<Rightarrow> 'k) \<Rightarrow> nat list \<times> (nat \<Rightarrow> 'k) \<times> unit outcome" where
  "deliver K e [] store = ([], store, Returns ())"
| "deliver K e (p # ps) store =
     (if cl_closed K (store p) then deliver K e ps store
      else case cl_push K e (store p) of
          Throws m \<Rightarrow> (p # ps, store, Throws m)
        | Returns k \<Rightarrow> (let (ps', store', r) = deliver K e ps (store(p := k)) in (p # ps', store', r)))"

text \<open>One iteration of \<open>consumer_loop\<close>: whether the loop goes on. \<open>None\<close>: \<open>pop\<close> blocks.\<close>

definition consume_one ::
  "'j json_lib \<Rightarrow> 'k client_ops \<Rightarrow> ('e, 'k) controller \<Rightarrow> (bool outcome \<times> ('e, 'k) controller) option" where
  "consume_one L K c =
     (case pop (ct_queue c) of
        None \<Rightarrow> None
      | Some (None, q) \<Rightarrow> Some (Returns False, c\<lparr>ct_queue := q\<rparr>)
      | Some (Some ev, q) \<Rightarrow>
          (case sinks_write L ev (ct_sinks c) of
             (sinks, Throws m) \<Rightarrow> Some (Throws m, c\<lparr>ct_queue := q, ct_sinks := sinks\<rparr>)
           | (sinks, Returns _) \<Rightarrow>
               (case deliver K ev (ct_clients c) (ct_client_store c) of
                  (ps, store, r) \<Rightarrow>
                    Some (obind r (\<lambda>_. Returns True),
                      c\<lparr>ct_queue := q, ct_sinks := sinks, ct_clients := ps, ct_client_store := store\<rparr>))))"

text \<open>\<open>consumer_loop\<close> with at most \<open>n\<close> iterations; \<open>None\<close>: it blocks, or is still running.\<close>

fun consumer_loop ::
  "nat \<Rightarrow> 'j json_lib \<Rightarrow> 'k client_ops \<Rightarrow> ('e, 'k) controller \<Rightarrow> (unit outcome \<times> ('e, 'k) controller) option" where
  "consumer_loop 0 L K c = None"
| "consumer_loop (Suc n) L K c =
     (case consume_one L K c of
        None \<Rightarrow> None
      | Some (Throws m, c') \<Rightarrow> Some (Throws m, c')
      | Some (Returns False, c') \<Rightarrow> Some (Returns (), c')
      | Some (Returns True, c') \<Rightarrow> consumer_loop n L K c')"

text \<open>\<open>ring_poll_loop\<close> runs the backend's polling on the calling thread; without a backend it only
  sleeps until the stop.\<close>

definition ring_poll_loop :: "('e \<Rightarrow> 'e) \<Rightarrow> ('e, 'k) controller \<Rightarrow> ('e, 'k) controller" where
  "ring_poll_loop run c = (case ct_enforcer c of None \<Rightarrow> c | Some e \<Rightarrow> c\<lparr>ct_enforcer := Some (run e)\<rparr>)"

definition add_event_stream_client :: "nat \<Rightarrow> ('e, 'k) controller \<Rightarrow> ('e, 'k) controller" where
  "add_event_stream_client p c = c\<lparr>ct_clients := ct_clients c @ [p]\<rparr>"

definition remove_event_stream_client :: "nat \<Rightarrow> ('e, 'k) controller \<Rightarrow> ('e, 'k) controller" where
  "remove_event_stream_client p c = c\<lparr>ct_clients := filter (\<lambda>q. q \<noteq> p) (ct_clients c)\<rparr>"

section \<open>\<open>request_stop\<close>\<close>

text \<open>
  Joining the consumer thread lets it run \<open>consumer_loop\<close> to its end; after the stop request the
  producer's pushes only drop their events, so joining it changes nothing. One iteration per
  queued event and one to see the end are enough. An exception in the consumer thread ends the
  process (\<open>Throws\<close>). \<open>Shutdown\<close> has the threads' interleavings, which all amount to this.
\<close>

definition request_stop ::
  "'e enforcer_ops \<Rightarrow> 'j json_lib \<Rightarrow> 'k client_ops \<Rightarrow> ('e, 'k) controller \<Rightarrow>
     (unit result outcome \<times> ('e, 'k) controller) option" where
  "request_stop ops L K c =
     (if \<not> ct_started c then Some (Returns (Inr ()), c)
      else
        let c1 = c\<lparr>ct_started := False, ct_queue := queue_request_stop (ct_queue c)\<rparr>;
            joined = (if ct_consumer_thread c1
              then consumer_loop (Suc (length (q_contents (ct_queue c1)))) L K c1
              else Some (Returns (), c1))
        in case joined of
             None \<Rightarrow> None
           | Some (Throws m, c2) \<Rightarrow> Some (Throws m, c2)
           | Some (Returns _, c2) \<Rightarrow>
               let c3 = c2\<lparr>ct_ring_thread := False, ct_consumer_thread := False\<rparr> in
               (case ct_enforcer c3 of
                  None \<Rightarrow> Some (Returns (Inr ()), c3)
                | Some enf \<Rightarrow>
                    (case op_detach ops enf of
                       (Inl e, enf') \<Rightarrow> Some (Returns (Inl e), c3\<lparr>ct_enforcer := Some enf'\<rparr>)
                     | (Inr _, enf') \<Rightarrow> Some (Returns (Inr ()), c3\<lparr>ct_enforcer := Some enf'\<rparr>))))"

text \<open>The destructor ignores the result; \<open>None\<close> and an exception are as in \<open>request_stop\<close>.\<close>

definition controller_destroy ::
  "'e enforcer_ops \<Rightarrow> 'j json_lib \<Rightarrow> 'k client_ops \<Rightarrow> ('e, 'k) controller \<Rightarrow>
     (unit outcome \<times> ('e, 'k) controller) option" where
  "controller_destroy ops L K c =
     map_option (\<lambda>(r, c'). (obind r (\<lambda>_. Returns ()), c')) (request_stop ops L K c)"

end
