(* ===== verification/Controller_Facts.thy ===== *)
theory Controller_Facts
  imports Controller
begin

text \<open>
  Facts about the controller of \<open>Controller\<close>: what it gets from any backend that meets the contract
  (proved once inside \<open>enforcement_backend\<close>), what the reverse resolver holds, and what the
  event pipeline delivers.
\<close>

section \<open>Facts about the operations\<close>

definition backend_ops ::
  "('e \<Rightarrow> unit result \<times> 'e) \<Rightarrow> ('e \<Rightarrow> compiled_policy \<Rightarrow> (unit result \<times> 'e) option) \<Rightarrow>
     ('e \<Rightarrow> enforcer_status) \<Rightarrow> ('e \<Rightarrow> unit result \<times> 'e) \<Rightarrow> 'e enforcer_ops" where
  "backend_ops ld ap st dt = \<lparr>op_load = ld, op_apply = ap, op_status = st, op_detach = dt\<rparr>"

definition linux_ops ::
  "('p, 'r, 'c) bpf_sys \<Rightarrow> ('p, 'r, 'c) load_env \<Rightarrow> ('p, 'r, 'c) linux_enforcer enforcer_ops" where
  "linux_ops B env = backend_ops (linux_load B env) (linux_apply_policy B) (linux_status B) linux_detach"

lemma pm_install_simps [simp]:
  "validate p = Inr u \<Longrightarrow> pm_install (Some p) pm = (Inr (), pm\<lparr>pm_current := Some p\<rparr>)"
  by (simp add: pm_install_def)

lemma load_install_valid:
  "validate p = Inr u \<Longrightarrow>
     load_install p c = (Inr (), c\<lparr>ct_policy_manager := (ct_policy_manager c)\<lparr>pm_current := Some p\<rparr>\<rparr>)"
  by (simp add: load_install_def)

lemma compile_valid: "compile R p = Inr cp \<Longrightarrow> validate p = Inr ()"
  using compile_InrD(1) by (simp add: validate_iff_wf)

lemma load_policy_Inr:
  assumes "load_policy ops R p c = Some (Inr (), c')"
  shows "\<exists>pol cp c1. p = Some pol \<and> compile R pol = Inr cp \<and> load_apply ops cp c = Some (Inr (), c1) \<and>
    c' = (load_resolver pol cp c1)\<lparr>ct_policy_manager := (ct_policy_manager c1)\<lparr>pm_current := Some pol\<rparr>\<rparr>"
proof -
  obtain pol where p: "p = Some pol" using assms by (auto simp: load_policy_def split: option.splits)
  obtain cp where cp: "compile R pol = Inr cp"
    using assms by (auto simp: load_policy_def p split: sum.splits)
  note v = compile_valid [OF cp]
  obtain c1 where "load_apply ops cp c = Some (Inr (), c1)"
    and "load_install pol (load_resolver pol cp c1) = (Inr (), c')"
    using assms by (auto simp: load_policy_def p cp v split: option.splits sum.splits prod.splits)
  with p cp v show ?thesis by (auto simp: load_install_valid load_resolver_def)
qed

lemma load_apply_frame:
  "load_apply ops cp c = Some (r, c1) \<Longrightarrow> c1 = c\<lparr>ct_enforcer := ct_enforcer c1\<rparr>"
  by (auto simp: load_apply_def split: option.splits sum.splits)

lemma load_policy_Inl:
  assumes "load_policy ops R p c = Some (Inl e, c')"
  shows "c' = c\<lparr>ct_enforcer := ct_enforcer c'\<rparr>"
proof (cases p)
  case (Some pol)
  show ?thesis
  proof (cases "compile R pol")
    case (Inr cp)
    note v = compile_valid [OF this]
    from assms have "load_apply ops cp c = Some (Inl e, c')"
      by (auto simp: load_policy_def Some Inr v load_install_valid split: option.splits sum.splits)
    then show ?thesis by (rule load_apply_frame)
  qed (use assms Some in \<open>auto simp: load_policy_def split: sum.splits\<close>)
qed (use assms in \<open>simp add: load_policy_def\<close>)

text \<open>What no load touches.\<close>

lemma load_policy_frame:
  assumes "load_policy ops R p c = Some (r, c')"
  shows "ct_started c' = ct_started c \<and> ct_clients c' = ct_clients c \<and> ct_client_store c' = ct_client_store c \<and>
    ct_queue c' = ct_queue c \<and> ct_sinks c' = ct_sinks c"
proof -
  have e: "ct_started x = ct_started c \<and> ct_clients x = ct_clients c \<and> ct_client_store x = ct_client_store c \<and>
    ct_queue x = ct_queue c \<and> ct_sinks x = ct_sinks c"
    if "x = c\<lparr>ct_enforcer := ct_enforcer x\<rparr>" for x by (subst (1 2 3 4 5) that) simp
  show ?thesis
  proof (cases r)
    case (Inl m)
    from load_policy_Inl [OF assms [unfolded Inl]] show ?thesis by (rule e)
  next
    case (Inr u)
    from load_policy_Inr [of ops R p c c'] assms Inr obtain pol cp c1 where
      "load_apply ops cp c = Some (Inr (), c1)"
      and c': "c' = (load_resolver pol cp c1)\<lparr>ct_policy_manager := (ct_policy_manager c1)\<lparr>pm_current := Some pol\<rparr>\<rparr>"
      by auto
    from e [OF load_apply_frame [OF this(1)]] show ?thesis by (simp add: c' load_resolver_def)
  qed
qed

subsection \<open>What the controller gets from any backend\<close>

context enforcement_backend
begin

lemma load_apply_returns:
  assumes "pred_option inv (ct_enforcer c)"
  shows "\<exists>r c'. load_apply (backend_ops load apply_pol status detach) cp c = Some (r, c') \<and>
    pred_option inv (ct_enforcer c')"
proof (cases "ct_enforcer c")
  case (Some enf)
  with assms obtain r enf' where "apply_pol enf cp = Some (r, enf')" "inv enf'"
    using apply_returns [of enf cp] by auto
  with Some show ?thesis by (cases r) (auto simp: load_apply_def backend_ops_def)
qed (use assms in \<open>simp add: load_apply_def\<close>)

lemma load_policy_returns:
  assumes "pred_option inv (ct_enforcer c)"
  shows "\<exists>r c'. load_policy (backend_ops load apply_pol status detach) R p c = Some (r, c') \<and>
    pred_option inv (ct_enforcer c')"
proof (cases p)
  case (Some pol)
  show ?thesis
  proof (cases "compile R pol")
    case (Inr cp)
    note v = compile_valid [OF this]
    from load_apply_returns [OF assms, of cp] obtain r c1 where
      a: "load_apply (backend_ops load apply_pol status detach) cp c = Some (r, c1)"
      "pred_option inv (ct_enforcer c1)" by blast
    then show ?thesis
      by (cases r) (simp_all add: load_policy_def Some Inr v load_install_valid load_resolver_def)
  qed (use assms Some in \<open>auto simp: load_policy_def split: sum.splits\<close>)
qed (use assms in \<open>simp add: load_policy_def\<close>)

lemma load_policy_status:
  assumes "ct_enforcer c = Some enf" "inv enf"
    and "load_policy (backend_ops load apply_pol status detach) R (Some p) c = Some (Inr (), c')"
  shows "st_policy_version (controller_status (backend_ops load apply_pol status detach) c') = pol_version p \<and>
    st_protected_count (controller_status (backend_ops load apply_pol status detach) c') = length (pol_resources p) \<and>
    st_rule_count (controller_status (backend_ops load apply_pol status detach) c') = length (pol_rules p)"
proof -
  from load_policy_Inr [OF assms(3)] obtain cp c1 where cp: "compile R p = Inr cp"
    and a: "load_apply (backend_ops load apply_pol status detach) cp c = Some (Inr (), c1)"
    and c': "c' = (load_resolver p cp c1)\<lparr>ct_policy_manager := (ct_policy_manager c1)\<lparr>pm_current := Some p\<rparr>\<rparr>"
    by auto
  from a assms(1) obtain enf' where e: "apply_pol enf cp = Some (Inr (), enf')" "ct_enforcer c1 = Some enf'"
    by (auto simp: load_apply_def backend_ops_def split: option.splits sum.splits)
  have "cp = compiled_form R p"
    using cp compile_ok [OF compile_InrD [OF cp]] by simp
  then show ?thesis
    using apply_status [OF assms(2) e(1)] e(2)
    by (simp add: c' load_resolver_def controller_status_def backend_ops_def compiled_form_def del: upt_Suc)
qed

lemma detach_not_enforcing:
  assumes "inv enf"
  shows "\<exists>enf'. detach enf = (Inr (), enf') \<and> \<not> st_enforcing (status enf') \<and> \<not> st_attached (status enf')"
  using detach_ok [OF assms] by blast

end

subsection \<open>The reverse resolver\<close>

lemma fold_add_sound:
  "fold (\<lambda>(x, i) m. resolver_add (g i) (f x) m) xs m j = Some s \<Longrightarrow>
     m j = Some s \<or> (\<exists>x i. (x, i) \<in> set xs \<and> g i = j \<and> s = f x)"
proof (induction xs arbitrary: m)
  case (Cons p xs)
  obtain x i where p: "p = (x, i)" by (cases p)
  from Cons.prems have "fold (\<lambda>(x, i) m. resolver_add (g i) (f x) m) xs (resolver_add (g i) (f x) m) j = Some s"
    by (simp add: p)
  from Cons.IH [OF this] show ?case by (auto simp: p resolver_add_def split: if_splits)
qed simp

lemma fold_add_dom:
  "dom (fold (\<lambda>(x, i) m. resolver_add (g i) (f x) m) xs m) = g ` snd ` set xs \<union> dom m"
  by (induction xs arbitrary: m) (auto simp: resolver_add_def)

lemma zip_map_right: "zip xs (map f xs) = map (\<lambda>x. (x, f x)) xs"
  by (induction xs) auto

lemma rebuild_resolver_compiled:
  assumes "compile R p = Inr cp"
  shows "rebuild_resolver p cp j = Some s \<Longrightarrow> s \<in> policy_paths p \<and> resolved_id R s = j"
    and "dom (rebuild_resolver p cp) = resolved_id R ` policy_paths p"
proof -
  have cp: "cp = compiled_form R p"
    using assms compile_ok [OF compile_InrD [OF assms]] by simp
  have res: "zip (pol_resources p) (cp_protected_resources cp) =
      map (\<lambda>r. (r, resolved_id R (res_path r))) (pol_resources p)"
    by (simp add: cp compiled_form_def zip_map_right)
  let ?zs = "zip (pol_rules p) (cp_rules cp)"
  have len: "length (cp_rules cp) = length (pol_rules p)"
    by (simp add: cp compiled_form_def del: upt_Suc)
  have nth: "cr_process (cp_rules cp ! k) = resolved_id R (pid_value (rule_process (pol_rules p ! k)))"
    if "k < length (pol_rules p)" for k
    using that by (simp add: cp compiled_form_def compiled_rule_of_def del: upt_Suc)
  have rules: "cr_process cr = resolved_id R (pid_value (rule_process r)) \<and> r \<in> set (pol_rules p)"
    if "(r, cr) \<in> set ?zs" for r cr
    using that nth by (auto simp: in_set_conv_nth)
  have "map cr_process (cp_rules cp) = map (resolved_id R \<circ> pid_value \<circ> rule_process) (pol_rules p)"
    using len nth by (intro nth_equalityI) simp_all
  from arg_cong [OF this, of set]
  have "cr_process ` set (cp_rules cp) = resolved_id R ` (pid_value \<circ> rule_process) ` set (pol_rules p)"
    by (simp add: image_image)
  moreover have "snd ` set ?zs = set (cp_rules cp)"
    using map_snd_zip [of "pol_rules p" "cp_rules cp"] len by (simp flip: set_map)
  ultimately have procs: "cr_process ` snd ` set ?zs = resolved_id R ` (pid_value \<circ> rule_process) ` set (pol_rules p)"
    by simp
  show "rebuild_resolver p cp j = Some s \<Longrightarrow> s \<in> policy_paths p \<and> resolved_id R s = j"
    unfolding rebuild_resolver_def Let_def res
    using rules
    by (auto simp: policy_paths_def protected_paths_def resolver_new_def
        dest!: fold_add_sound [where g = cr_process] fold_add_sound [where g = "\<lambda>i. i"])
  show "dom (rebuild_resolver p cp) = resolved_id R ` policy_paths p"
    unfolding rebuild_resolver_def Let_def res
    using procs fold_add_dom [where g = "\<lambda>i. i"]
    by (simp add: fold_add_dom [where g = cr_process] fold_add_dom [where g = "\<lambda>i. i"] resolver_new_def
        policy_paths_def protected_paths_def image_Un image_image Un_commute)
qed

subsection \<open>The pipeline\<close>

text \<open>Writing a list of events to every sink, up to the first exception.\<close>

fun sinks_write_all ::
  "'j json_lib \<Rightarrow> security_event list \<Rightarrow> sink list \<Rightarrow> sink list \<times> unit outcome" where
  "sinks_write_all L [] sinks = (sinks, Returns ())"
| "sinks_write_all L (e # es) sinks =
     (case sinks_write L e sinks of
        (sinks', Throws m) \<Rightarrow> (sinks', Throws m)
      | (sinks', Returns _) \<Rightarrow> sinks_write_all L es sinks')"

lemma emit_event_contents:
  assumes "emit_event fmt raw c = Some c'" "q_inv (ct_queue c)" "\<not> q_stop (ct_queue c)"
  shows "\<exists>q. c' = c\<lparr>ct_queue := q\<rparr> \<and> q_inv q \<and> \<not> q_stop q \<and>
    q_contents q = q_contents (ct_queue c) @ [enrich fmt (ct_boot_offset_ns c) (ct_resolver c) raw]"
  using assms
  by (auto simp: emit_event_def Let_def push_store q_store_contents split: if_splits intro: fg_inv)

fun emit_all ::
  "(int \<Rightarrow> string) \<Rightarrow> raw_event list \<Rightarrow> ('e, 'k) controller \<Rightarrow> ('e, 'k) controller option" where
  "emit_all fmt [] c = Some c"
| "emit_all fmt (raw # raws) c = Option.bind (emit_event fmt raw c) (emit_all fmt raws)"

lemma emit_all_contents:
  "emit_all fmt raws c = Some c' \<Longrightarrow> q_inv (ct_queue c) \<Longrightarrow> \<not> q_stop (ct_queue c) \<Longrightarrow>
     \<exists>q. c' = c\<lparr>ct_queue := q\<rparr> \<and> q_inv q \<and> \<not> q_stop q \<and>
       q_contents q = q_contents (ct_queue c) @ map (enrich fmt (ct_boot_offset_ns c) (ct_resolver c)) raws"
proof (induction raws arbitrary: c)
  case Nil
  then show ?case by (intro exI [of _ "ct_queue c"]) simp
next
  case (Cons raw raws)
  then obtain c1 where c1: "emit_event fmt raw c = Some c1" "emit_all fmt raws c1 = Some c'"
    by (auto simp: bind_eq_Some_conv)
  from emit_event_contents [OF c1(1) Cons.prems(2,3)] obtain q where q: "c1 = c\<lparr>ct_queue := q\<rparr>"
    "q_inv q" "\<not> q_stop q"
    "q_contents q = q_contents (ct_queue c) @ [enrich fmt (ct_boot_offset_ns c) (ct_resolver c) raw]"
    by blast
  with Cons.IH [OF c1(2)] show ?case by simp
qed

lemma consumer_loop_stopped:
  assumes "q_inv (ct_queue c)" "q_stop (ct_queue c)"
  shows "\<exists>r c'. consumer_loop (Suc (length (q_contents (ct_queue c)))) L K c = Some (r, c') \<and>
    ct_enforcer c' = ct_enforcer c \<and> ct_started c' = ct_started c \<and>
    (r = Returns () \<longrightarrow> q_contents (ct_queue c') = [] \<and>
      sinks_write_all L (q_contents (ct_queue c)) (ct_sinks c) = (ct_sinks c', Returns ()))"
  using assms
proof (induction "q_contents (ct_queue c)" arbitrary: c)
  case Nil
  then have "pop (ct_queue c) = Some (None, ct_queue c)" by (simp add: pop_drop q_empty_iff)
  with Nil show ?case by (simp flip: Nil(1) add: consume_one_def)
next
  case (Cons ev evs)
  let ?q = "q_drop (ct_queue c)"
  have ne: "\<not> q_empty (ct_queue c)" using Cons.hyps(2) Cons.prems(1) by (simp add: q_empty_iff flip: Cons.hyps(2))
  then have evs: "q_slots (ct_queue c) ! q_tail (ct_queue c) = ev" "q_contents ?q = evs"
    using q_drop_contents [OF Cons.prems(1) ne] Cons.hyps(2) by simp_all
  then have pop: "pop (ct_queue c) = Some (Some ev, ?q)" by (simp add: pop_drop ne)
  have len: "length (q_contents (ct_queue c)) = Suc (length evs)" by (simp flip: Cons.hyps(2))
  obtain sinks r1 where w: "sinks_write L ev (ct_sinks c) = (sinks, r1)" by fastforce
  obtain ps store r2 where d: "deliver K ev (ct_clients c) (ct_client_store c) = (ps, store, r2)"
    by (metis prod.exhaust)
  let ?c = "c\<lparr>ct_queue := ?q, ct_sinks := sinks, ct_clients := ps, ct_client_store := store\<rparr>"
  show ?case
  proof (cases r1)
    case (Throws m)
    then show ?thesis unfolding len consumer_loop.simps(2) by (simp add: consume_one_def pop w)
  next
    case r1: (Returns u)
    show ?thesis
    proof (cases r2)
      case (Throws m)
      with r1 show ?thesis unfolding len consumer_loop.simps(2) by (simp add: consume_one_def pop w d)
    next
      case (Returns u')
      have one: "consume_one L K c = Some (Returns True, ?c)"
        using r1 Returns by (simp add: consume_one_def pop w d)
      from Cons.hyps(1) [of ?c] evs(2) Cons.prems obtain r c' where
        "consumer_loop (Suc (length evs)) L K ?c = Some (r, c')"
        "ct_enforcer c' = ct_enforcer c" "ct_started c' = ct_started c"
        "r = Returns () \<longrightarrow> q_contents (ct_queue c') = [] \<and> sinks_write_all L evs sinks = (ct_sinks c', Returns ())"
        by (auto intro: fg_inv)
      with one w r1 show ?thesis
        unfolding len by (subst consumer_loop.simps(2)) (simp flip: Cons.hyps(2))
    qed
  qed
qed

text \<open>A resolver and a clock format for the concrete inputs of the examples.\<close>

definition demo_resolver :: file_resolver where
  "demo_resolver path =
     (if path = ''/protected/secret.txt'' then Inr (FileId 8 1 100)
      else if path = ''/usr/local/bin/backup-agent'' then Inr (FileId 8 1 300)
      else Inl (''cannot stat '' @ quoted path))"

definition demo_time :: "int \<Rightarrow> string" where
  "demo_time secs = show_int secs"

end
