(* ===== verification/Agreement.thy ===== *)
theory Agreement
  imports Controller_Facts
begin

text \<open>
  The kernel program against the userspace semantics: what the hook of \<open>Kernel_Program\<close> does on the
  maps that \<open>Ebpf_Manager\<close> installs for a compiled policy, compared with \<open>evaluate\<close> of
  \<open>Decision_Engine\<close> on the paths. Two paths that are links to one file are one identity for the
  kernel, so the hook is first compared with a reading of the policy for files (\<open>file_allows\<close>), for
  any resolver; that reading is the engine's wherever no two of the paths name one file.
\<close>

text \<open>The compiled rule list is searched like the rule list.\<close>

lemma find_map2:
  assumes "length ks = length rs" and "\<And>k r. r \<in> set rs \<Longrightarrow> P (f k r) \<longleftrightarrow> Q r"
  shows "case find Q rs of
      None \<Rightarrow> find P (map2 f ks rs) = None
    | Some r \<Rightarrow> r \<in> set rs \<and> (\<exists>k. find P (map2 f ks rs) = Some (f k r))"
  using assms
proof (induction ks rs rule: list_induct2)
  case (Cons k ks r rs)
  then have "P (f k r) \<longleftrightarrow> Q r" by simp
  then show ?case using Cons by (auto split: option.splits)
qed simp

lemma named_action_code: "named_action a \<Longrightarrow> (ucast (action_code a) :: u32) = FG_ACTION_ALLOW \<longleftrightarrow> a = Allow"
  by (auto simp: named_action_def fg_codes)

lemma policy_wf_paths:
  "policy_wf p \<Longrightarrow> r \<in> set (pol_rules p) \<Longrightarrow> res_path (rule_resource r) \<in> policy_paths p"
  "r \<in> set (pol_rules p) \<Longrightarrow> pid_value (rule_process r) \<in> policy_paths p"
  by (auto simp: policy_wf_def rule_wf_def policy_paths_def)

section \<open>Decisions on files\<close>

text \<open>
  A policy read for files instead of path names: a file is protected if some protected path names
  it, and the rule for a file and an executable is the first whose two paths name them. This is
  what a policy can mean to the kernel, which knows no paths; it needs no assumption on links.
\<close>

definition file_protected :: "file_resolver \<Rightarrow> policy \<Rightarrow> string \<Rightarrow> bool" where
  "file_protected R p path \<longleftrightarrow> resolved_id R path \<in> resolved_id R ` protected_paths p"

definition file_rule :: "file_resolver \<Rightarrow> policy \<Rightarrow> string \<Rightarrow> string \<Rightarrow> policy_rule option" where
  "file_rule R p path exe = find (\<lambda>r. resolved_id R (res_path (rule_resource r)) = resolved_id R path \<and>
     resolved_id R (pid_value (rule_process r)) = resolved_id R exe) (pol_rules p)"

definition file_allows :: "file_resolver \<Rightarrow> policy \<Rightarrow> string \<Rightarrow> string \<Rightarrow> bool" where
  "file_allows R p path exe \<longleftrightarrow> \<not> file_protected R p path \<or> (\<exists>r. file_rule R p path exe = Some r \<and> rule_action r = Allow)"

definition file_reason :: "file_resolver \<Rightarrow> policy \<Rightarrow> string \<Rightarrow> string \<Rightarrow> reason" where
  "file_reason R p path exe = (if \<not> file_protected R p path then ResourceUnprotected
     else if file_rule R p path exe = None then DefaultDeny else PolicyRule)"

text \<open>The resolver separates the paths at hand: no two of them are names of one file.\<close>

definition separates :: "file_resolver \<Rightarrow> policy \<Rightarrow> string \<Rightarrow> string \<Rightarrow> bool" where
  "separates R p path exe \<longleftrightarrow> inj_on (resolved_id R) (insert path (insert exe (policy_paths p)))"

lemma separates_eq:
  "separates R p path exe \<Longrightarrow> a \<in> policy_paths p \<Longrightarrow> resolved_id R a = resolved_id R path \<longleftrightarrow> a = path"
  "separates R p path exe \<Longrightarrow> a \<in> policy_paths p \<Longrightarrow> resolved_id R a = resolved_id R exe \<longleftrightarrow> a = exe"
  unfolding separates_def by (meson inj_onD insertI1 insertI2)+

lemma file_protected_path:
  "separates R p path exe \<Longrightarrow> file_protected R p path \<longleftrightarrow> path \<in> protected_paths p"
  using separates_eq(1) [of R p path exe] unfolding file_protected_def policy_paths_def by (metis UnI1 imageE imageI)

lemma file_rule_path:
  assumes "policy_wf p" and sep: "separates R p path exe"
  shows "file_rule R p path exe = find_rule p path \<lparr>pid_type = ExePath, pid_value = exe\<rparr> Open"
proof -
  have "resolved_id R (res_path (rule_resource r)) = resolved_id R path \<and> resolved_id R (pid_value (rule_process r)) = resolved_id R exe
      \<longleftrightarrow> rule_matches path \<lparr>pid_type = ExePath, pid_value = exe\<rparr> Open r" if "r \<in> set (pol_rules p)" for r
    using separates_eq [OF sep] policy_wf_paths(1) [OF assms(1) that] policy_wf_paths(2) [OF that] assms(1) that
    by (simp add: rule_matches_def) (auto simp: policy_wf_def rule_wf_def)
  then show ?thesis unfolding file_rule_def find_rule_eq_find by (intro find_cong) simp_all
qed

text \<open>Between distinct names the decision on files is the engine's decision on paths.\<close>

lemma file_decision_path:
  assumes "policy_wf p" and "separates R p path exe"
  shows "pol_default_action p = Deny \<Longrightarrow> file_allows R p path exe \<longleftrightarrow> dec_action (evaluate p \<lparr>req_resource_path = path,
      req_process = \<lparr>pid_type = ExePath, pid_value = exe\<rparr>, req_operation = Open\<rparr>) = Allow"
    and "file_reason R p path exe = dec_reason (evaluate p \<lparr>req_resource_path = path,
      req_process = \<lparr>pid_type = ExePath, pid_value = exe\<rparr>, req_operation = Open\<rparr>)"
  by (auto simp: file_allows_def file_reason_def file_protected_path [OF assms(2)] file_rule_path [OF assms]
      evaluate_simps is_protected_iff split: option.splits)

section \<open>The installed maps\<close>

lemma installed_protected:
  assumes "compile R p = Inr cp"
  shows "kv_protected (installed_view cp) (to_abi (resolved_id R path)) \<noteq> None \<longleftrightarrow> file_protected R p path"
proof -
  have cp: "cp = compiled_form R p" using assms compile_ok [OF compile_InrD [OF assms]] by simp
  show ?thesis by (auto simp: installed_view_def cp compiled_form_def protected_paths_def file_protected_def)
qed

text \<open>The rule the kernel finds is the compiled form of the policy's rule for the two files.\<close>

lemma installed_rule:
  assumes "compile R p = Inr cp"
  shows "case file_rule R p path exe of
      None \<Rightarrow> kv_rules (installed_view cp) \<lparr>key_res = to_abi (resolved_id R path), key_proc = to_abi (resolved_id R exe)\<rparr> = None
    | Some r \<Rightarrow> r \<in> set (pol_rules p) \<and>
        (\<exists>k. kv_rules (installed_view cp) \<lparr>key_res = to_abi (resolved_id R path), key_proc = to_abi (resolved_id R exe)\<rparr> =
           Some (rule_val (compiled_rule_of R k r)))"
proof -
  let ?key = "\<lparr>key_res = to_abi (resolved_id R path), key_proc = to_abi (resolved_id R exe)\<rparr>"
  let ?Q = "\<lambda>r. resolved_id R (res_path (rule_resource r)) = resolved_id R path \<and>
     resolved_id R (pid_value (rule_process r)) = resolved_id R exe"
  have cp: "cp = compiled_form R p" using assms compile_ok [OF compile_InrD [OF assms]] by simp
  have "rule_key (compiled_rule_of R k r) = ?key \<longleftrightarrow> ?Q r" for k r
    by (simp add: rule_key_def compiled_rule_of_def)
  from find_map2 [of "map word_of_nat [1..<Suc (length (pol_rules p))]" "pol_rules p"
      "\<lambda>r. rule_key r = ?key" "compiled_rule_of R" ?Q, OF _ this]
  show ?thesis
    by (auto simp: installed_view_def cp compiled_form_def file_rule_def split: option.splits simp del: upt_Suc)
qed

text \<open>The hook's answer on the installed maps.\<close>

lemma installed_decision:
  assumes comp: "compile R p = Inr cp" and ex: "expressible p" and valid: "resolves R path" "resolves R exe"
    and fid: "opened_id file = to_abi (resolved_id R path)" and pid: "exe_id ctx = to_abi (resolved_id R exe)"
  shows "fst (fg_file_open (installed_view cp) ctx file) = (if file_allows R p path exe then 0 else - EACCES)"
proof -
  have ino: "ino (resolved_id R path) \<noteq> 0" "ino (resolved_id R exe) \<noteq> 0"
    using valid by (auto simp: resolves_iff file_id_valid_def)
  have en: "fg_enabled (installed_view cp)"
    by (simp add: fg_enabled_def installed_view_def)
  show ?thesis
  proof (cases "file_protected R p path")
    case False
    then show ?thesis
      using installed_protected [OF comp, of path]
      by (simp add: fg_file_open_ret mediated_def fid file_allows_def)
  next
    case True
    then have med: "mediated (installed_view cp) file"
      using installed_protected [OF comp, of path] ino en by (simp add: mediated_def fid)
    show ?thesis
    proof (cases "file_rule R p path exe")
      case None
      then show ?thesis
        using installed_rule [OF comp, of path exe] True med
        by (simp add: fg_file_open_ret fid pid file_allows_def)
    next
      case (Some r)
      then obtain k where r: "r \<in> set (pol_rules p)" and
        "kv_rules (installed_view cp) \<lparr>key_res = to_abi (resolved_id R path), key_proc = to_abi (resolved_id R exe)\<rparr> =
           Some (rule_val (compiled_rule_of R k r))"
        using installed_rule [OF comp, of path exe] by auto
      moreover have "named_action (rule_action r)" using ex r by (simp add: expressible_def)
      ultimately show ?thesis
        using Some True med ino
        by (simp add: fg_file_open_ret fid pid file_allows_def rule_val_def compiled_rule_of_def named_action_code)
    qed
  qed
qed

text \<open>The event of a mediated open, field by field.\<close>

lemma submitted_event:
  assumes comp: "compile R p = Inr cp" and ex: "expressible p"
    and valid: "resolves R path" "resolves R exe"
    and fid: "opened_id file = to_abi (resolved_id R path)" and pid: "exe_id ctx = to_abi (resolved_id R exe)"
    and sub: "snd (fg_file_open (installed_view cp) ctx file) = Some ev"
  shows "file_protected R p path \<and> ev_res ev = to_abi (resolved_id R path) \<and> ev_operation ev = 1 \<and>
    action_of_code (ev_action ev) = (if fst (fg_file_open (installed_view cp) ctx file) = 0 then Allow else Deny) \<and>
    reason_of_code (ev_reason ev) = file_reason R p path exe \<and> ev_pid ev = ucast (ctx_pid_tgid ctx)"
proof -
  have med: "mediated (installed_view cp) file" by (rule fg_file_open_event_mediated [OF sub])
  then have prot: "file_protected R p path"
    using installed_protected [OF comp, of path] by (simp add: mediated_def fid)
  have ino: "ino (resolved_id R exe) \<noteq> 0" using valid by (auto simp: resolves_iff file_id_valid_def)
  show ?thesis
  proof (cases "file_rule R p path exe")
    case None
    then have "kv_rules (installed_view cp) \<lparr>key_res = to_abi (resolved_id R path), key_proc = to_abi (resolved_id R exe)\<rparr> = None"
      using installed_rule [OF comp, of path exe] by simp
    with None prot sub ino show ?thesis
      by (auto simp: fg_file_open_mediated [OF med] fg_decision_def fid pid file_reason_def
          action_of_code_def reason_of_code_def fg_codes)
  next
    case (Some r)
    then obtain k where r: "r \<in> set (pol_rules p)" and
      "kv_rules (installed_view cp) \<lparr>key_res = to_abi (resolved_id R path), key_proc = to_abi (resolved_id R exe)\<rparr> =
         Some (rule_val (compiled_rule_of R k r))"
      using installed_rule [OF comp, of path exe] by auto
    moreover have "rule_action r = Allow \<or> rule_action r = Deny"
      using ex r by (simp add: expressible_def named_action_def)
    ultimately show ?thesis
      using Some prot sub ino
      by (auto simp: fg_file_open_mediated [OF med] fg_decision_def fid pid file_reason_def
          action_of_code_def reason_of_code_def fg_codes rule_val_def compiled_rule_of_def)
  qed
qed

text \<open>The reverse resolver names a path of the policy for the same file.\<close>

lemma resolver_names_file:
  assumes "compile R p = Inr cp" "file_protected R p path"
  shows "resolver_resolve (rebuild_resolver p cp) (resolved_id R path) \<in> policy_paths p \<and>
    resolved_id R (resolver_resolve (rebuild_resolver p cp) (resolved_id R path)) = resolved_id R path"
proof -
  from assms(2) obtain q where q: "q \<in> policy_paths p" "resolved_id R path = resolved_id R q"
    by (auto simp: file_protected_def policy_paths_def)
  obtain s where s: "rebuild_resolver p cp (resolved_id R q) = Some s"
    using rebuild_resolver_compiled(2) [OF assms(1)] q(1) by blast
  from rebuild_resolver_compiled(1) [OF assms(1) s] s q(2) show ?thesis by (simp add: resolver_resolve_def)
qed

end
