(* ===== verification/Daemon.thy ===== *)
theory Daemon
  imports Controller_Facts
begin

text \<open>
  The daemon: \<open>include/fileguard/daemon.hpp\<close>, \<open>src/daemon.cpp\<close>. The operating system is a script of
  what its calls return (\<open>send\<close>, \<open>poll\<close> and \<open>recv\<close>), so every loop runs over a list; a loop that
  is still waiting when the script ends says so.
\<close>

section \<open>Sockets\<close>

datatype send_result = Sent nat | Send_failed nat

definition EINTR :: nat where "EINTR = 4"

text \<open>\<open>write_all\<close>: the result, the bytes that went out, and the calls not made; \<open>None\<close> when the
  script ends first.\<close>

fun write_all :: "send_result list \<Rightarrow> string \<Rightarrow> (bool \<times> string \<times> send_result list) option" where
  "write_all rs [] = Some (True, [], rs)"
| "write_all [] (b # bs) = None"
| "write_all (Send_failed errno # rs) (b # bs) =
     (if errno = EINTR then write_all rs (b # bs) else Some (False, [], rs))"
| "write_all (Sent n # rs) (b # bs) =
     (case write_all rs (drop n (b # bs)) of
        None \<Rightarrow> None
      | Some (ok, out, rs') \<Rightarrow> Some (ok, take n (b # bs) @ out, rs'))"

section \<open>\<open>SocketStreamClient\<close>\<close>

definition json_of :: "'j json_lib \<Rightarrow> security_event \<Rightarrow> string outcome" where
  "json_of L e = jl_dump L (jl_object L
     [(''timestamp'', jl_string L (se_timestamp e)),
      (''pid'', jl_number L (uint (se_pid e))),
      (''tgid'', jl_number L (uint (se_tgid e))),
      (''uid'', jl_number L (uint (se_uid e))),
      (''gid'', jl_number L (uint (se_gid e))),
      (''comm'', jl_string L (se_comm e)),
      (''process'', jl_string L (se_process_path e)),
      (''resource'', jl_string L (se_resource_path e)),
      (''operation'', jl_string L (operation_name (se_operation e))),
      (''action'', jl_string L (action_name (se_action e))),
      (''reason'', jl_string L (reason_name (se_reason e))),
      (''rule_id'', jl_number L (uint (se_rule_id e)))])"

record stream_client =
  sc_fd :: int
  sc_queue :: "string spsc_queue"
  sc_closed :: bool
  sc_dropped :: u64

definition stream_client_new :: "int \<Rightarrow> stream_client" where
  "stream_client_new fd = \<lparr>sc_fd = fd,
     sc_queue = \<lparr>q_slots = replicate 1024 [], q_head = 0, q_tail = 0, q_stop = False\<rparr>,
     sc_closed = False, sc_dropped = 0\<rparr>"

definition client_push :: "'j json_lib \<Rightarrow> security_event \<Rightarrow> stream_client \<Rightarrow> stream_client outcome" where
  "client_push L e c =
     (if sc_closed c then Returns c
      else obind (json_of L e) (\<lambda>line.
        case try_push line (sc_queue c) of
          (True, q) \<Rightarrow> Returns (c\<lparr>sc_queue := q\<rparr>)
        | (False, q) \<Rightarrow> Returns (c\<lparr>sc_queue := q, sc_dropped := sc_dropped c + 1\<rparr>)))"

definition client_shutdown :: "stream_client \<Rightarrow> stream_client" where
  "client_shutdown c = c\<lparr>sc_closed := True, sc_queue := queue_request_stop (sc_queue c)\<rparr>"

definition stream_ops :: "'j json_lib \<Rightarrow> stream_client client_ops" where
  "stream_ops L = \<lparr>cl_closed = sc_closed, cl_push = client_push L\<rparr>"

text \<open>One iteration of \<open>writer_loop\<close>: the bytes sent; \<open>None\<close> when it blocks.\<close>

definition writer_step ::
  "send_result list \<Rightarrow> stream_client \<Rightarrow> (bool \<times> string \<times> stream_client \<times> send_result list) option" where
  "writer_step rs c =
     (if sc_closed c then Some (False, [], c, rs)
      else case pop (sc_queue c) of
          None \<Rightarrow> None
        | Some (None, q) \<Rightarrow> Some (False, [], c\<lparr>sc_queue := q, sc_closed := True\<rparr>, rs)
        | Some (Some line, q) \<Rightarrow>
            (case write_all rs line of
               None \<Rightarrow> None
             | Some (True, out, rs') \<Rightarrow> Some (True, out, c\<lparr>sc_queue := q\<rparr>, rs')
             | Some (False, out, rs') \<Rightarrow> Some (False, out, c\<lparr>sc_queue := q, sc_closed := True\<rparr>, rs')))"

text \<open>The head of \<open>writer_loop\<close> alone: the line to send next, or that the loop ends.\<close>

definition writer_take :: "stream_client \<Rightarrow> (string option \<times> stream_client) option" where
  "writer_take c =
     (if sc_closed c then Some (None, c)
      else case pop (sc_queue c) of
          None \<Rightarrow> None
        | Some (None, q) \<Rightarrow> Some (None, c\<lparr>sc_queue := q, sc_closed := True\<rparr>)
        | Some (Some line, q) \<Rightarrow> Some (Some line, c\<lparr>sc_queue := q\<rparr>))"

lemma writer_step_take:
  "writer_step rs c =
     (case writer_take c of
        None \<Rightarrow> None
      | Some (None, c') \<Rightarrow> Some (False, [], c', rs)
      | Some (Some line, c') \<Rightarrow>
          (case write_all rs line of
             None \<Rightarrow> None
           | Some (ok, out, rs') \<Rightarrow> Some (ok, out, if ok then c' else c'\<lparr>sc_closed := True\<rparr>, rs')))"
  by (auto simp: writer_step_def writer_take_def split: option.splits prod.splits bool.splits)

text \<open>The bytes a writer thread puts on the socket while its queue lasts.\<close>

fun writer_output :: "nat \<Rightarrow> send_result list \<Rightarrow> stream_client \<Rightarrow> string" where
  "writer_output 0 rs c = []"
| "writer_output (Suc n) rs c =
     (case writer_step rs c of
        None \<Rightarrow> []
      | Some (False, out, c', rs') \<Rightarrow> out
      | Some (True, out, c', rs') \<Rightarrow> out @ writer_output n rs' c')"

section \<open>State\<close>

record daemon_config =
  dc_controller :: controller_config
  dc_socket_path :: string
  dc_pid_file :: string

record 'e daemon =
  d_cfg :: daemon_config
  d_controller :: "('e, stream_client) controller"
  d_running :: bool
  d_stream_clients :: "nat list"

text \<open>The constructor.\<close>

definition daemon_new ::
  "(string \<Rightarrow> string option) \<Rightarrow> i64 \<Rightarrow> (nat \<Rightarrow> stream_client) \<Rightarrow> daemon_config \<Rightarrow> 'e daemon outcome" where
  "daemon_new log_file offset store cfg =
     obind (controller_new log_file offset store (dc_controller cfg)) (\<lambda>c.
       Returns \<lparr>d_cfg = cfg, d_controller = c, d_running = False, d_stream_clients = []\<rparr>)"

definition update_client ::
  "(stream_client \<Rightarrow> stream_client) \<Rightarrow> nat \<Rightarrow> 'e daemon \<Rightarrow> 'e daemon" where
  "update_client f p d = d\<lparr>d_controller := (d_controller d)\<lparr>ct_client_store :=
     (ct_client_store (d_controller d))(p := f (ct_client_store (d_controller d) p))\<rparr>\<rparr>"

definition daemon_stop :: "'e daemon \<Rightarrow> unit result \<times> 'e daemon" where
  "daemon_stop d =
     (if \<not> d_running d then (Inr (), d)
      else (Inr (), (fold (update_client client_shutdown) (d_stream_clients d) (d\<lparr>d_running := False\<rparr>))
              \<lparr>d_stream_clients := []\<rparr>))"

section \<open>Requests\<close>

definition error_json :: "'j json_lib \<Rightarrow> string \<Rightarrow> 'j" where
  "error_json L msg = jl_object L [(''ok'', jl_bool L False), (''error'', jl_string L msg)]"

definition status_json :: "'j json_lib \<Rightarrow> enforcer_status \<Rightarrow> 'j" where
  "status_json L s = jl_object L
     [(''ok'', jl_bool L True),
      (''status'', jl_object L
        [(''attached'', jl_bool L (st_attached s)),
         (''enforcing'', jl_bool L (st_enforcing s)),
         (''backend'', jl_string L (st_backend s)),
         (''policy_version'', jl_number L (sint (st_policy_version s))),
         (''protected_count'', jl_number L (int (st_protected_count s))),
         (''rule_count'', jl_number L (int (st_rule_count s))),
         (''detail'', jl_string L (st_detail s))])]"

definition list_rule_json :: "'j json_lib \<Rightarrow> policy_rule \<Rightarrow> 'j" where
  "list_rule_json L r = jl_object L
     [(''id'', jl_string L (rule_name r)),
      (''resource'', jl_string L (res_path (rule_resource r))),
      (''operation'', jl_string L (operation_name (rule_operation r))),
      (''process'', jl_string L (pid_value (rule_process r))),
      (''action'', jl_string L (action_name (rule_action r)))]"

definition list_json :: "'j json_lib \<Rightarrow> policy_manager \<Rightarrow> 'j" where
  "list_json L pm =
     (let rules = (case pm_current pm of None \<Rightarrow> [] | Some p \<Rightarrow> map (list_rule_json L) (pol_rules p));
          resources = (case pm_current pm of None \<Rightarrow> []
            | Some p \<Rightarrow> map (\<lambda>r. jl_string L (res_path r)) (pol_resources p))
      in jl_object L
        [(''ok'', jl_bool L True),
         (''version'', jl_number L (sint (pm_version pm))),
         (''rules'', jl_array L rules),
         (''protected_resources'', jl_array L resources)])"

text \<open>The \<open>load_policy\<close> command; the document is dumped and parsed again.\<close>

definition handle_load ::
  "'e enforcer_ops \<Rightarrow> 'j json_lib \<Rightarrow> file_resolver \<Rightarrow> 'j \<Rightarrow> 'e daemon \<Rightarrow> ('j outcome \<times> 'e daemon) option" where
  "handle_load ops L R req d =
     (let refuse = Some (Returns (error_json L (''load_policy requires a '' @ quoted ''policy'' @ '' object'')), d) in
      case jl_find L req ''policy'' of
        None \<Rightarrow> refuse
      | Some doc \<Rightarrow>
          if \<not> jl_is_object L doc then refuse
          else case obind (jl_dump L doc) (from_json L) of
              Throws m \<Rightarrow> Some (Throws m, d)
            | Returns (Inl e) \<Rightarrow> Some (Returns (error_json L e), d)
            | Returns (Inr policy) \<Rightarrow>
                (case load_policy ops R (Some policy) (d_controller d) of
                   None \<Rightarrow> None
                 | Some (Inl e, c) \<Rightarrow> Some (Returns (error_json L e), d\<lparr>d_controller := c\<rparr>)
                 | Some (Inr _, c) \<Rightarrow>
                     Some (Returns (jl_object L [(''ok'', jl_bool L True),
                         (''policy_version'', jl_number L (sint (pm_version (ct_policy_manager c))))]),
                       d\<lparr>d_controller := c\<rparr>)))"

definition handle_request ::
  "'e enforcer_ops \<Rightarrow> 'j json_lib \<Rightarrow> file_resolver \<Rightarrow> 'j \<Rightarrow> 'e daemon \<Rightarrow> ('j outcome \<times> 'e daemon) option" where
  "handle_request ops L R req d =
     (case jl_value_string L req ''cmd'' [] of
        Throws m \<Rightarrow> Some (Throws m, d)
      | Returns cmd \<Rightarrow>
          if cmd = ''status'' then
            Some (Returns (status_json L (controller_status ops (d_controller d))), d)
          else if cmd = ''list'' then
            Some (Returns (list_json L (ct_policy_manager (d_controller d))), d)
          else if cmd = ''load_policy'' then handle_load ops L R req d
          else if cmd = ''stream'' then
            Some (Returns (jl_object L [(''ok'', jl_bool L True), (''stream'', jl_bool L True)]), d)
          else if cmd = ''stop'' then
            Some (Returns (jl_object L [(''ok'', jl_bool L True), (''message'', jl_string L ''stopping'')]),
              snd (daemon_stop (d\<lparr>d_running := False\<rparr>)))
          else Some (Returns (error_json L (''unknown command '' @ quoted cmd)), d))"

text \<open>What \<open>handle_line\<close> ends with: a reply line was handed to \<open>write_all\<close> (whose result is
  ignored) and the connection goes on or turns into an event feed, or an exception left the
  thread.\<close>

datatype line_end = Replied string | Streams string | Crashed string

definition handle_line ::
  "'e enforcer_ops \<Rightarrow> 'j json_lib \<Rightarrow> file_resolver \<Rightarrow> string \<Rightarrow> 'e daemon \<Rightarrow> (line_end \<times> 'e daemon) option" where
  "handle_line ops L R line d =
     (let send = (\<lambda>j wrap. case jl_dump L j of Throws m \<Rightarrow> Crashed m | Returns s \<Rightarrow> wrap (s @ [newline])) in
      case jl_parse L line of
        Inl what \<Rightarrow> Some (send (error_json L ''malformed request'') Replied, d)
      | Inr req \<Rightarrow>
          (case handle_request ops L R req d of
             None \<Rightarrow> None
           | Some (r, d1) \<Rightarrow>
               let resp = (case r of Returns j \<Rightarrow> j | Throws m \<Rightarrow> error_json L (''internal error: '' @ m)) in
               (case jl_value_string L req ''cmd'' [] of
                  Throws m \<Rightarrow> Some (Crashed m, d1)
                | Returns cmd \<Rightarrow>
                    if cmd \<noteq> ''stream'' then Some (send resp Replied, d1)
                    else (case jl_value_bool L resp ''ok'' False of
                        Throws m \<Rightarrow> Some (Crashed m, d1)
                      | Returns True \<Rightarrow> Some (send resp Streams, d1)
                      | Returns False \<Rightarrow> Some (send resp Replied, d1)))))"

text \<open>The two ends of \<open>enter_stream_mode\<close>; \<open>p\<close> is the pointer of the new client. The descriptor is
  closed here and again by the client's destructor.\<close>

definition stream_enter :: "nat \<Rightarrow> int \<Rightarrow> 'e daemon \<Rightarrow> 'e daemon" where
  "stream_enter p fd d =
     (let d1 = update_client (\<lambda>_. stream_client_new fd) p d;
          d2 = d1\<lparr>d_stream_clients := d_stream_clients d1 @ [p]\<rparr>
      in d2\<lparr>d_controller := add_event_stream_client p (d_controller d2)\<rparr>)"

definition stream_leave :: "nat \<Rightarrow> 'e daemon \<Rightarrow> 'e daemon" where
  "stream_leave p d =
     (let d1 = d\<lparr>d_controller := remove_event_stream_client p (d_controller d)\<rparr>;
          d2 = update_client client_shutdown p d1
      in d2\<lparr>d_stream_clients := filter (\<lambda>q. q \<noteq> p) (d_stream_clients d2)\<rparr>)"

section \<open>Connections\<close>

datatype recv_event = Timeout | Interrupted | Poll_failed | Received string | Disconnected

datatype connection = Waiting | Closed | Streaming | Dead string

text \<open>The inner loop: complete lines are cut from the buffer, empty ones skipped.\<close>

fun cut_line :: "string \<Rightarrow> (string \<times> string) option" where
  "cut_line [] = None"
| "cut_line (c # cs) = (if c = newline then Some ([], cs)
     else map_option (\<lambda>(l, rest). (c # l, rest)) (cut_line cs))"

lemma cut_line_Some: "cut_line s = Some (l, rest) \<Longrightarrow> s = l @ newline # rest \<and> newline \<notin> set l"
  by (induction s arbitrary: l) (auto split: if_splits)

lemma cut_line_None: "cut_line s = None \<longleftrightarrow> newline \<notin> set s"
  by (induction s) auto

lemma cut_line_append: "newline \<notin> set l \<Longrightarrow> cut_line (l @ newline # rest) = Some (l, rest)"
  by (induction l) auto

text \<open>\<open>h\<close> is \<open>handle_line\<close> on the rest of the world: a line either lets the loop go on, or ends it.\<close>

function process_lines ::
  "(string \<Rightarrow> 's \<Rightarrow> connection option \<times> 's) \<Rightarrow> string \<Rightarrow> 's \<Rightarrow> (connection + string) \<times> 's" where
  "process_lines h buf s =
     (case cut_line buf of
        None \<Rightarrow> (Inr buf, s)
      | Some (line, rest) \<Rightarrow>
          if line = [] then process_lines h rest s
          else (case h line s of
              (Some e, s') \<Rightarrow> (Inl e, s')
            | (None, s') \<Rightarrow> process_lines h rest s'))"
  by pat_completeness auto
termination
  by (relation "measure (\<lambda>(h, buf, s). length buf)") (auto dest!: cut_line_Some)

declare process_lines.simps [simp del]

fun serve_client ::
  "('s \<Rightarrow> bool) \<Rightarrow> (string \<Rightarrow> 's \<Rightarrow> connection option \<times> 's) \<Rightarrow> recv_event list \<Rightarrow> string \<Rightarrow> 's \<Rightarrow> connection \<times> 's" where
  "serve_client running h [] buf s = (if running s then Waiting else Closed, s)"
| "serve_client running h (ev # evs) buf s =
     (if \<not> running s then (Closed, s)
      else case ev of
          Timeout \<Rightarrow> serve_client running h evs buf s
        | Interrupted \<Rightarrow> serve_client running h evs buf s
        | Poll_failed \<Rightarrow> (Closed, s)
        | Disconnected \<Rightarrow> (Closed, s)
        | Received chunk \<Rightarrow>
            (case process_lines h (buf @ chunk) s of
               (Inl e, s') \<Rightarrow> (e, s')
             | (Inr buf', s') \<Rightarrow> serve_client running h evs buf' s'))"

text \<open>The daemon's own connection handler: the state is the daemon and the replies so far.\<close>

definition connection_line ::
  "'e enforcer_ops \<Rightarrow> 'j json_lib \<Rightarrow> file_resolver \<Rightarrow> string \<Rightarrow> 'e daemon \<times> string list \<Rightarrow>
     connection option \<times> 'e daemon \<times> string list" where
  "connection_line ops L R line s =
     (case s of (d, replies) \<Rightarrow>
        (case handle_line ops L R line d of
           None \<Rightarrow> (Some (Dead ''no return''), d, replies)
         | Some (Replied out, d') \<Rightarrow> (None, d', replies @ [out])
         | Some (Streams out, d') \<Rightarrow> (Some Streaming, d', replies @ [out])
         | Some (Crashed m, d') \<Rightarrow> (Some (Dead m), d', replies)))"

definition handle_client ::
  "'e enforcer_ops \<Rightarrow> 'j json_lib \<Rightarrow> file_resolver \<Rightarrow> recv_event list \<Rightarrow> 'e daemon \<Rightarrow>
     connection \<times> 'e daemon \<times> string list" where
  "handle_client ops L R evs d =
     serve_client (\<lambda>(d, replies). d_running d) (connection_line ops L R) evs [] (d, [])"

section \<open>\<open>run\<close>\<close>

text \<open>
  The set-up calls of \<open>run\<close> and what they return: the errno text of a failing call. The result
  is the error, or the daemon serving; \<open>un_sock\<close> and \<open>pid_left\<close> say whether the socket and the
  PID file exist afterwards.
\<close>

record run_env =
  re_sun_path :: nat \<comment> \<open>\<open>sizeof(sockaddr_un::sun_path)\<close>\<close>
  re_socket :: "string option"
  re_bind :: "string option"
  re_listen :: "string option"
  re_pid_file :: bool \<comment> \<open>the PID file opens for writing\<close>

record serving =
  sv_listening :: bool
  sv_socket_file :: bool
  sv_pid_file :: bool

definition nothing_left :: serving where
  "nothing_left = \<lparr>sv_listening = False, sv_socket_file = False, sv_pid_file = False\<rparr>"

definition daemon_run_start ::
  "'e enforcer_ops \<Rightarrow> (enforcer_config \<Rightarrow> 'e) \<Rightarrow> 'j json_lib \<Rightarrow> file_system \<Rightarrow> file_resolver \<Rightarrow> run_env \<Rightarrow>
     serving \<Rightarrow> 'e daemon \<Rightarrow> (unit result outcome \<times> serving \<times> 'e daemon) option" where
  "daemon_run_start ops create L fs R env sv d =
     (let path = dc_socket_path (d_cfg d); pid = dc_pid_file (d_cfg d) in
      if length path \<ge> re_sun_path env then
        Some (Returns (Inl (''socket path too long: '' @ quoted path)), sv, d)
      else
        let sv1 = sv\<lparr>sv_socket_file := False\<rparr> in
        case re_socket env of
          Some msg \<Rightarrow> Some (Returns (Inl (''socket(2) failed: '' @ msg)), sv1, d)
        | None \<Rightarrow>
          (case re_bind env of
             Some msg \<Rightarrow> Some (Returns (Inl (''bind('' @ path @ '') failed: '' @ msg @ '' '' @ em_dash @
                 '' is another fileguard daemon running?'')), sv1, d)
           | None \<Rightarrow>
             (case re_listen env of
                Some msg \<Rightarrow> Some (Returns (Inl (''listen failed: '' @ msg)), sv1, d)
              | None \<Rightarrow>
                let sv2 = sv1\<lparr>sv_listening := True, sv_socket_file := True,
                      sv_pid_file := sv_pid_file sv1 \<or> (pid \<noteq> [] \<and> re_pid_file env)\<rparr>;
                    sv3 = sv2\<lparr>sv_listening := False, sv_socket_file := False,
                      sv_pid_file := sv_pid_file sv2 \<and> pid = []\<rparr>
                in (case start ops create L fs R (d_controller d) of
                      None \<Rightarrow> None
                    | Some (Throws m, c) \<Rightarrow> Some (Throws m, sv2, d\<lparr>d_controller := c\<rparr>)
                    | Some (Returns (Inl e), c) \<Rightarrow> Some (Returns (Inl e), sv3, d\<lparr>d_controller := c\<rparr>)
                    | Some (Returns (Inr _), c) \<Rightarrow>
                        Some (Returns (Inr ()), sv2, d\<lparr>d_controller := c, d_running := True\<rparr>)))))"

text \<open>
  The accepting thread: what \<open>poll\<close> and \<open>accept\<close> return on the listening socket, turn by turn,
  until the stop request (the end of the list). The result is the descriptors handed to client
  threads, in order, and what is left of the socket.
\<close>

datatype accept_event = Accept_timeout | Accept_interrupted | Accept_poll_failed | Accept_failed | Accepted int

definition close_listener :: "serving \<Rightarrow> serving" where
  "close_listener sv = sv\<lparr>sv_listening := False, sv_socket_file := False\<rparr>"

fun accept_loop :: "accept_event list \<Rightarrow> serving \<Rightarrow> int list \<times> serving" where
  "accept_loop [] sv = ([], close_listener sv)"
| "accept_loop (ev # evs) sv =
     (case ev of
        Accept_timeout \<Rightarrow> accept_loop evs sv
      | Accept_interrupted \<Rightarrow> accept_loop evs sv
      | Accept_poll_failed \<Rightarrow> ([], close_listener sv)
      | Accept_failed \<Rightarrow> accept_loop evs sv
      | Accepted fd \<Rightarrow> (case accept_loop evs sv of (fds, sv') \<Rightarrow> (fd # fds, sv')))"

text \<open>After the serving loop has seen \<open>running_\<close> false: the accepting thread is joined.\<close>

definition daemon_run_finish ::
  "'e enforcer_ops \<Rightarrow> 'j json_lib \<Rightarrow> serving \<Rightarrow> 'e daemon \<Rightarrow> (unit result outcome \<times> serving \<times> 'e daemon) option" where
  "daemon_run_finish ops L sv d =
     (let sv1 = close_listener sv in
      case request_stop ops L (stream_ops L) (d_controller d) of
        None \<Rightarrow> None
      | Some (Throws m, c) \<Rightarrow> Some (Throws m, sv1, d\<lparr>d_controller := c\<rparr>)
      | Some (Returns (Inl e), c) \<Rightarrow> Some (Returns (Inl e), sv1, d\<lparr>d_controller := c\<rparr>)
      | Some (Returns (Inr _), c) \<Rightarrow>
          Some (Returns (Inr ()), sv1\<lparr>sv_pid_file := sv_pid_file sv1 \<and> dc_pid_file (d_cfg d) = []\<rparr>,
            d\<lparr>d_controller := c\<rparr>))"

text \<open>However the accepting thread ends, the socket is gone. A \<open>poll\<close> failure other than an interrupt
  ends it while \<open>running_\<close> stays set: no connection that waits behind it is ever accepted.\<close>

lemma accept_loop_closes: "snd (accept_loop evs sv) = close_listener sv"
  by (induction evs) (auto split: accept_event.split prod.split)

lemma accept_loop_append:
  "accept_loop (evs @ evs') sv =
     (if Accept_poll_failed \<in> set evs then accept_loop evs sv
      else (fst (accept_loop evs sv) @ fst (accept_loop evs' sv), close_listener sv))"
  by (induction evs) (auto simp: accept_loop_closes prod_eq_iff split: accept_event.split prod.split)

lemma accept_loop_deaf: "Accept_poll_failed \<in> set evs \<Longrightarrow> accept_loop (evs @ evs') sv = accept_loop evs sv"
  by (simp add: accept_loop_append)

lemma daemon_run_finish_accepts:
  "daemon_run_finish ops L (snd (accept_loop evs sv)) d = daemon_run_finish ops L sv d"
  by (simp add: daemon_run_finish_def accept_loop_closes close_listener_def)

end
