(* ===== verification/Cli.thy ===== *)
theory Cli
  imports Daemon
begin

text \<open>
  The command line client \<open>guardctl\<close>: \<open>include/fileguard/cli.hpp\<close>, \<open>src/cli.cpp\<close>. A subcommand is a
  function from what the system returns to the exit code and the text on the two output
  streams; of \<open>serve\<close> this theory has the configuration it builds, \<open>Serve\<close> the process.
\<close>

section \<open>Arguments\<close>

record cli_args =
  ca_command :: string
  ca_policy_file :: string
  ca_runtime_dir :: string
  ca_log_file :: string
  ca_daemonize :: bool
  ca_json_output :: bool
  ca_event_count :: i32
  ca_force :: bool

definition initial_args :: cli_args where
  "initial_args = \<lparr>ca_command = [], ca_policy_file = [], ca_runtime_dir = ''/tmp/fileguard'',
     ca_log_file = [], ca_daemonize = False, ca_json_output = False, ca_event_count = - 1, ca_force = False\<rparr>"

definition default_runtime_dir :: "bool \<Rightarrow> string" where
  "default_runtime_dir root = (if root then ''/run/fileguard'' else ''/tmp/fileguard'')"

definition socket_path :: "string \<Rightarrow> string" where
  "socket_path dir = dir @ ''/fileguard.sock''"

definition pid_file_path :: "string \<Rightarrow> string" where
  "pid_file_path dir = dir @ ''/fileguard.pid''"

text \<open>\<open>std::atoi\<close>, and at 64 bits \<open>std::atoll\<close>: blanks, a sign, digits; 0 without digits (an overflow is undefined there, and
  wraps here).\<close>

fun digits_value :: "nat \<Rightarrow> string \<Rightarrow> nat" where
  "digits_value acc [] = acc"
| "digits_value acc (c # cs) =
     (if is_digit c then digits_value (10 * acc + (of_char c - 48)) cs else acc)"

definition atoi :: "string \<Rightarrow> 'a::len word" where
  "atoi s = (case dropWhile (\<lambda>c. blank c \<or> c = CHR 0x0B \<or> c = CHR 0x0C) s of
     [] \<Rightarrow> 0
   | c # cs \<Rightarrow> if c = CHR ''-'' then - of_nat (digits_value 0 cs)
              else if c = CHR ''+'' then of_nat (digits_value 0 cs)
              else of_nat (digits_value 0 (c # cs)))"

fun parse_serve :: "string list \<Rightarrow> cli_args \<Rightarrow> cli_args result" where
  "parse_serve [] a = Inr a"
| "parse_serve [t] a =
     (if t = ''--daemon'' then Inr (a\<lparr>ca_daemonize := True\<rparr>)
      else Inl (''unknown serve option: '' @ quoted t))"
| "parse_serve (t # v # ts) a =
     (if t = ''--daemon'' then parse_serve (v # ts) (a\<lparr>ca_daemonize := True\<rparr>)
      else if t = ''--policy'' \<or> t = ''-p'' then parse_serve ts (a\<lparr>ca_policy_file := v\<rparr>)
      else if t = ''--log'' then parse_serve ts (a\<lparr>ca_log_file := v\<rparr>)
      else if t = ''--runtime-dir'' then parse_serve ts (a\<lparr>ca_runtime_dir := v\<rparr>)
      else Inl (''unknown serve option: '' @ quoted t))"

text \<open>The loop of \<open>status\<close>, \<open>stop\<close>, \<open>policy load\<close> and \<open>policy list\<close>, which differ in the message.\<close>

fun parse_runtime_dir :: "string \<Rightarrow> string list \<Rightarrow> cli_args \<Rightarrow> cli_args result" where
  "parse_runtime_dir what [] a = Inr a"
| "parse_runtime_dir what [t] a = Inl (''unknown '' @ what @ '' option: '' @ quoted t)"
| "parse_runtime_dir what (t # v # ts) a =
     (if t = ''--runtime-dir'' then parse_runtime_dir what ts (a\<lparr>ca_runtime_dir := v\<rparr>)
      else Inl (''unknown '' @ what @ '' option: '' @ quoted t))"

fun parse_events :: "string list \<Rightarrow> cli_args \<Rightarrow> cli_args result" where
  "parse_events [] a = Inr a"
| "parse_events [t] a =
     (if t = ''--json'' then Inr (a\<lparr>ca_json_output := True\<rparr>)
      else Inl (''unknown events option: '' @ quoted t))"
| "parse_events (t # v # ts) a =
     (if t = ''--json'' then parse_events (v # ts) (a\<lparr>ca_json_output := True\<rparr>)
      else if t = ''--count'' then parse_events ts (a\<lparr>ca_event_count := atoi v\<rparr>)
      else if t = ''--runtime-dir'' then parse_events ts (a\<lparr>ca_runtime_dir := v\<rparr>)
      else Inl (''unknown events option: '' @ quoted t))"

definition parse_policy :: "string list \<Rightarrow> cli_args \<Rightarrow> cli_args result" where
  "parse_policy tokens a =
     (case tokens of
        [] \<Rightarrow> Inl ''`guardctl policy` needs a subcommand: validate|load|list''
      | sub # ts \<Rightarrow>
          if sub = ''validate'' then
            (case ts of [] \<Rightarrow> Inl ''usage: guardctl policy validate <file>''
             | file # _ \<Rightarrow> Inr (a\<lparr>ca_command := ''policy-validate'', ca_policy_file := file\<rparr>))
          else if sub = ''load'' then
            (case ts of [] \<Rightarrow> Inl ''usage: guardctl policy load <file>''
             | file # rest \<Rightarrow> parse_runtime_dir ''policy load'' rest
                 (a\<lparr>ca_command := ''policy-load'', ca_policy_file := file\<rparr>))
          else if sub = ''list'' then
            parse_runtime_dir ''policy list'' ts (a\<lparr>ca_command := ''policy-list''\<rparr>)
          else Inl (''unknown policy subcommand: '' @ quoted sub))"

text \<open>\<open>argv\<close> with the program name; \<open>root\<close> says whether the effective user is root.\<close>

definition parse_cli :: "bool \<Rightarrow> string list \<Rightarrow> cli_args result" where
  "parse_cli root argv =
     (let args = initial_args\<lparr>ca_runtime_dir := default_runtime_dir root\<rparr> in
      case drop 1 argv of
        [] \<Rightarrow> Inl ''no command given. Try `guardctl --help`.''
      | first # ts \<Rightarrow>
          if first = ''--help'' \<or> first = ''-h'' \<or> first = ''help'' then Inr (args\<lparr>ca_command := ''help''\<rparr>)
          else if first = ''--version'' \<or> first = ''-V'' then Inr (args\<lparr>ca_command := ''version''\<rparr>)
          else if first = ''serve'' then parse_serve ts (args\<lparr>ca_command := ''serve''\<rparr>)
          else if first = ''status'' then parse_runtime_dir ''status'' ts (args\<lparr>ca_command := ''status''\<rparr>)
          else if first = ''events'' then parse_events ts (args\<lparr>ca_command := ''events''\<rparr>)
          else if first = ''stop'' then parse_runtime_dir ''stop'' ts (args\<lparr>ca_command := ''stop''\<rparr>)
          else if first = ''policy'' then parse_policy ts args
          else Inl (''unknown command: '' @ quoted first))"

section \<open>Dispatch\<close>

datatype subcommand = Serve | Policy_validate | Policy_load | Policy_list | Status | Events | Stop
  | Version | Help | Unknown_command

definition run_cli_dispatch :: "cli_args \<Rightarrow> subcommand" where
  "run_cli_dispatch args =
     (if ca_command args = ''serve'' then Serve
      else if ca_command args = ''policy-validate'' then Policy_validate
      else if ca_command args = ''policy-load'' then Policy_load
      else if ca_command args = ''policy-list'' then Policy_list
      else if ca_command args = ''status'' then Status
      else if ca_command args = ''events'' then Events
      else if ca_command args = ''stop'' then Stop
      else if ca_command args = ''version'' then Version
      else if ca_command args = ''help'' then Help
      else Unknown_command)"

definition serve_config :: "cli_args \<Rightarrow> daemon_config" where
  "serve_config args = \<lparr>dc_controller = default_controller_config\<lparr>
       cc_policy_file := ca_policy_file args, cc_runtime_dir := ca_runtime_dir args,
       cc_console_output := \<not> ca_daemonize args, cc_json_log := ca_log_file args\<rparr>,
     dc_socket_path = socket_path (ca_runtime_dir args),
     dc_pid_file = pid_file_path (ca_runtime_dir args)\<rparr>"

section \<open>Events from JSON\<close>

definition action_from_name :: "string \<Rightarrow> action" where
  "action_from_name s = (if s = ''ALLOW'' then Allow else Deny)"

definition operation_from_name :: "string \<Rightarrow> operation" where
  "operation_from_name s = (if s = ''OPEN'' then Open else Open)"

definition reason_from_name :: "string \<Rightarrow> reason" where
  "reason_from_name s =
     (if s = ''POLICY_RULE'' then PolicyRule
      else if s = ''DEFAULT_DENY'' then DefaultDeny
      else if s = ''UNKNOWN_PROCESS'' then UnknownProcess
      else ResourceUnprotected)"

definition event_from_json :: "'j json_lib \<Rightarrow> 'j \<Rightarrow> security_event outcome" where
  "event_from_json L j =
     obind (jl_value_string L j ''timestamp'' []) (\<lambda>timestamp.
     obind (jl_value_uint L j ''pid'' 0) (\<lambda>pid.
     obind (jl_value_uint L j ''tgid'' 0) (\<lambda>tgid.
     obind (jl_value_uint L j ''uid'' 0) (\<lambda>uid.
     obind (jl_value_uint L j ''gid'' 0) (\<lambda>gid.
     obind (jl_value_string L j ''comm'' []) (\<lambda>comm.
     obind (jl_value_string L j ''process'' []) (\<lambda>process.
     obind (jl_value_string L j ''resource'' []) (\<lambda>resource.
     obind (jl_value_string L j ''operation'' ''OPEN'') (\<lambda>operation.
     obind (jl_value_string L j ''action'' ''DENY'') (\<lambda>action.
     obind (jl_value_string L j ''reason'' ''DEFAULT_DENY'') (\<lambda>reason.
     obind (jl_value_uint L j ''rule_id'' 0) (\<lambda>rule_id.
       Returns \<lparr>se_timestamp = timestamp, se_pid = pid, se_tgid = tgid, se_uid = uid, se_gid = gid,
         se_comm = comm, se_process_path = process, se_resource_path = resource,
         se_operation = operation_from_name operation, se_action = action_from_name action,
         se_reason = reason_from_name reason, se_rule_id = rule_id\<rparr>))))))))))))"

section \<open>Talking to the daemon\<close>

text \<open>What the calls of one exchange return; a failing call gives its error text.\<close>

record exchange =
  ex_exists :: bool
  ex_socket :: "string option"
  ex_connect :: "string option"
  ex_sends :: "send_result list"
  ex_strerror :: "nat \<Rightarrow> string"
  ex_chunks :: "string list" \<comment> \<open>what \<open>recv\<close> returns until it returns 0 or fails\<close>

definition daemon_connect :: "exchange \<Rightarrow> string \<Rightarrow> unit result" where
  "daemon_connect X sock =
     (if \<not> ex_exists X then
        Inl (''no fileguard controller is running (socket '' @ quoted sock @
          '' does not exist). Start one with `guardctl serve --daemon`.'')
      else case ex_socket X of
          Some msg \<Rightarrow> Inl (''socket(2): '' @ msg)
        | None \<Rightarrow> (case ex_connect X of
              Some msg \<Rightarrow> Inl (''connect to controller failed: '' @ msg)
            | None \<Rightarrow> Inr ()))"

text \<open>The sending loop: the error number that ended it, if any; \<open>None\<close> when the script ends.\<close>

fun send_loop :: "send_result list \<Rightarrow> string \<Rightarrow> nat option option" where
  "send_loop rs [] = Some None"
| "send_loop [] (b # bs) = None"
| "send_loop (Send_failed errno # rs) (b # bs) =
     (if errno = EINTR then send_loop rs (b # bs) else Some (Some errno))"
| "send_loop (Sent n # rs) (b # bs) = send_loop rs (drop n (b # bs))"

fun recv_line :: "string list \<Rightarrow> string \<Rightarrow> string" where
  "recv_line [] line = line"
| "recv_line (chunk # chunks) line =
     (if newline \<in> set line then line
      else if length (line @ chunk) > 2 ^ 20 then line @ chunk
      else recv_line chunks (line @ chunk))"

definition request_json ::
  "'j json_lib \<Rightarrow> exchange \<Rightarrow> string \<Rightarrow> 'j \<Rightarrow> 'j result outcome option" where
  "request_json L X sock req =
     (case daemon_connect X sock of
        Inl e \<Rightarrow> Some (Returns (Inl e))
      | Inr _ \<Rightarrow>
          (case jl_dump L req of
             Throws m \<Rightarrow> Some (Throws m)
           | Returns text \<Rightarrow>
               (case send_loop (ex_sends X) (text @ [newline]) of
                  None \<Rightarrow> None
                | Some (Some errno) \<Rightarrow>
                    Some (Returns (Inl (''send to controller failed: '' @ ex_strerror X errno)))
                | Some None \<Rightarrow>
                    let line = takeWhile (\<lambda>c. c \<noteq> newline) (recv_line (ex_chunks X) []) in
                    if line = [] then
                      Some (Returns (Inl ''controller closed the connection without a response''))
                    else case jl_parse L line of
                        Inl what \<Rightarrow> Some (Returns (Inl (''controller returned malformed JSON: '' @ what)))
                      | Inr j \<Rightarrow> Some (Returns (Inr j)))))"

section \<open>Subcommands\<close>

text \<open>Exit code, standard output, standard error.\<close>

type_synonym run_result = "int \<times> string \<times> string"

definition run_policy_validate ::
  "'j json_lib \<Rightarrow> file_system \<Rightarrow> file_resolver \<Rightarrow> cli_args \<Rightarrow> run_result outcome" where
  "run_policy_validate L fs R args =
     obind (from_file L fs (ca_policy_file args)) (\<lambda>r.
       case r of
         Inl e \<Rightarrow> Returns (1, [], ''invalid policy: '' @ e @ [newline])
       | Inr policy \<Rightarrow>
           (case compile R policy of
              Inl e \<Rightarrow> Returns (1, [], ''invalid policy: '' @ e @ [newline])
            | Inr _ \<Rightarrow>
                Returns (0, ''OK: policy '' @ quoted (ca_policy_file args) @ '' is valid (version '' @
                  show_int (sint (pol_version policy)) @ '', '' @
                  show_nat (length (pol_resources policy)) @ '' protected resource(s), '' @
                  show_nat (length (pol_rules policy)) @ '' rule(s), default '' @
                  action_name (pol_default_action policy) @ '')'' @ [newline], [])))"

text \<open>\<open>policy load\<close> either talks to a running controller or, after a line of output, becomes
  \<open>serve --daemon\<close>.\<close>

datatype load_run = Load_exit run_result | Load_spawn string cli_args

definition run_policy_load ::
  "'j json_lib \<Rightarrow> file_system \<Rightarrow> file_system \<Rightarrow> file_resolver \<Rightarrow> exchange \<Rightarrow> cli_args \<Rightarrow> load_run outcome option" where
  "run_policy_load L fs fs_later R X args =
     (let invalid = (\<lambda>e. Some (Returns (Load_exit (1, [], ''invalid policy: '' @ e @ [newline])))) in
      case from_file L fs (ca_policy_file args) of
        Throws m \<Rightarrow> Some (Throws m)
      | Returns (Inl e) \<Rightarrow> invalid e
      | Returns (Inr policy) \<Rightarrow>
          (case compile R policy of
             Inl e \<Rightarrow> invalid e
           | Inr _ \<Rightarrow>
               if \<not> ex_exists X then
                 Some (Returns (Load_spawn
                   (''no controller running; starting fileguard daemon with the new policy...'' @ [newline]) (args\<lparr>ca_command := ''serve'', ca_daemonize := True\<rparr>)))
               else
                 let text = (case fs_later (ca_policy_file args) of Some (s, _) \<Rightarrow> s | None \<Rightarrow> []) in
                 (case jl_parse L text of
                    Inl what \<Rightarrow> Some (Throws what)
                  | Inr doc \<Rightarrow>
                      (case request_json L X (socket_path (ca_runtime_dir args))
                          (jl_object L [(''cmd'', jl_string L ''load_policy''), (''policy'', doc)]) of
                         None \<Rightarrow> None
                       | Some (Throws m) \<Rightarrow> Some (Throws m)
                       | Some (Returns (Inl _)) \<Rightarrow> Some (Returns (Load_exit (1, [], [])))
                       | Some (Returns (Inr resp)) \<Rightarrow>
                           Some (obind (jl_value_bool L resp ''ok'' False) (\<lambda>ok.
                             if ok then obind (jl_value_int L resp ''policy_version'' 0) (\<lambda>v.
                               Returns (Load_exit (0, ''policy loaded (version '' @ show_int (sint v) @ '')'' @ [newline], [])))
                             else obind (jl_value_string L resp ''error'' []) (\<lambda>e.
                               Returns (Load_exit (1, [], ''policy rejected: '' @ e @ [newline])))))))))"

definition yes_no :: "bool \<Rightarrow> string" where
  "yes_no b = (if b then ''yes'' else ''no'')"

text \<open>\<open>resp["status"]\<close> on a constant object without that member is an assertion failure.\<close>

definition print_status :: "'j json_lib \<Rightarrow> 'j \<Rightarrow> (string \<times> string) outcome" where
  "print_status L resp =
     obind (jl_value_bool L resp ''ok'' False) (\<lambda>ok.
     if \<not> ok then obind (jl_value_string L resp ''error'' ''unknown error'') (\<lambda>e.
       Returns ([], ''status: '' @ e @ [newline]))
     else case jl_find L resp ''status'' of
         None \<Rightarrow> Throws ''assertion''
       | Some s \<Rightarrow>
           obind (jl_value_string L s ''backend'' ''?'') (\<lambda>backend.
           obind (jl_value_bool L s ''attached'' False) (\<lambda>attached.
           obind (jl_value_bool L s ''enforcing'' False) (\<lambda>enforcing.
           obind (jl_value_int L s ''policy_version'' 0) (\<lambda>version.
           obind (jl_value_int L s ''protected_count'' 0) (\<lambda>protected.
           obind (jl_value_int L s ''rule_count'' 0) (\<lambda>rules.
           obind (jl_value_string L s ''detail'' []) (\<lambda>detail.
             Returns (''fileguard: running'' @ [newline] @
               ''  backend:        '' @ backend @ [newline] @
               ''  attached:       '' @ yes_no attached @ [newline] @
               ''  enforcing:      '' @ yes_no enforcing @ [newline] @
               ''  policy version: '' @ show_int (sint version) @ [newline] @
               ''  protected:      '' @ show_int (sint protected) @ [newline] @
               ''  rules:          '' @ show_int (sint rules) @ [newline] @
               ''  detail:         '' @ detail @ [newline], [])))))))))"

definition run_status :: "'j json_lib \<Rightarrow> exchange \<Rightarrow> cli_args \<Rightarrow> run_result outcome option" where
  "run_status L X args =
     map_option (\<lambda>r. obind r (\<lambda>resp. case resp of
         Inl e \<Rightarrow> Returns (1, [], ''fileguard: not running '' @ em_dash @ '' '' @ e @ [newline])
       | Inr j \<Rightarrow> obind (print_status L j) (\<lambda>(out, errs). Returns (0, out, errs))))
     (request_json L X (socket_path (ca_runtime_dir args)) (jl_object L [(''cmd'', jl_string L ''status'')]))"

definition run_stop :: "'j json_lib \<Rightarrow> exchange \<Rightarrow> cli_args \<Rightarrow> run_result outcome option" where
  "run_stop L X args =
     map_option (\<lambda>r. obind r (\<lambda>resp. case resp of
         Inl e \<Rightarrow> Returns (1, [], ''stop: '' @ e @ [newline])
       | Inr j \<Rightarrow> obind (jl_value_string L j ''message'' ''stopped'') (\<lambda>m.
           Returns (0, ''fileguard: '' @ m @ [newline], []))))
     (request_json L X (socket_path (ca_runtime_dir args)) (jl_object L [(''cmd'', jl_string L ''stop'')]))"

text \<open>\<open>policy list\<close>: a missing array member reads as null, over which the loops do nothing.\<close>

definition member_elems :: "'j json_lib \<Rightarrow> 'j \<Rightarrow> string \<Rightarrow> 'j list" where
  "member_elems L j key = (case jl_find L j key of None \<Rightarrow> [] | Some a \<Rightarrow> jl_elems L a)"

fun concat_outcome :: "('a \<Rightarrow> string outcome) \<Rightarrow> 'a list \<Rightarrow> string outcome" where
  "concat_outcome f [] = Returns []"
| "concat_outcome f (x # xs) =
     obind (f x) (\<lambda>s. obind (concat_outcome f xs) (\<lambda>rest. Returns (s @ rest)))"

definition list_rule_line :: "'j json_lib \<Rightarrow> 'j \<Rightarrow> string outcome" where
  "list_rule_line L r =
     obind (jl_value_string L r ''id'' ''?'') (\<lambda>id.
     obind (jl_value_string L r ''process'' ''?'') (\<lambda>process.
     obind (jl_value_string L r ''resource'' ''?'') (\<lambda>resource.
     obind (jl_value_string L r ''operation'' ''OPEN'') (\<lambda>operation.
     obind (jl_value_string L r ''action'' ''DENY'') (\<lambda>action.
       Returns (''  '' @ id @ '': '' @ process @ '' -> '' @ resource @ '' ['' @ operation @ ''] '' @
         action @ [newline]))))))"

definition list_output :: "'j json_lib \<Rightarrow> 'j \<Rightarrow> string outcome" where
  "list_output L j =
     obind (jl_value_int L j ''version'' 0) (\<lambda>v.
     obind (concat_outcome (\<lambda>p. obind (jl_get_string L p) (\<lambda>s. Returns (''  '' @ s @ [newline])))
         (member_elems L j ''protected_resources'')) (\<lambda>resources.
     obind (concat_outcome (list_rule_line L) (member_elems L j ''rules'')) (\<lambda>rules.
       Returns (''policy version: '' @ show_int (sint v) @ [newline] @
         ''protected resources:'' @ [newline] @ resources @ ''rules:'' @ [newline] @ rules))))"

definition run_policy_list :: "'j json_lib \<Rightarrow> exchange \<Rightarrow> cli_args \<Rightarrow> run_result outcome option" where
  "run_policy_list L X args =
     map_option (\<lambda>r. obind r (\<lambda>resp. case resp of
         Inl e \<Rightarrow> Returns (1, [], ''policy list: '' @ e @ [newline])
       | Inr j \<Rightarrow> obind (jl_value_bool L j ''ok'' False) (\<lambda>ok.
           if \<not> ok then obind (jl_value_string L j ''error'' []) (\<lambda>e.
             Returns (1, [], ''policy list: '' @ e @ [newline]))
           else obind (list_output L j) (\<lambda>out. Returns (0, out, [])))))
     (request_json L X (socket_path (ca_runtime_dir args)) (jl_object L [(''cmd'', jl_string L ''list'')]))"

subsection \<open>\<open>events\<close>\<close>

record feed =
  fd_pending :: string
  fd_seen :: i32
  fd_table :: console_sink
  fd_out :: string
  fd_err :: string

text \<open>One received line; a line that does not parse is skipped.\<close>

definition event_line :: "'j json_lib \<Rightarrow> bool \<Rightarrow> string \<Rightarrow> feed \<Rightarrow> feed outcome" where
  "event_line L show_table line f =
     (if line = [] then Returns f
      else case jl_parse L line of
          Inl _ \<Rightarrow> Returns f
        | Inr j \<Rightarrow>
            (case jl_find L j ''event'' of
               Some ev \<Rightarrow>
                 if show_table then obind (event_from_json L ev) (\<lambda>e.
                   Returns (f\<lparr>fd_table := console_write e (fd_table f), fd_seen := fd_seen f + 1\<rparr>))
                 else obind (jl_dump L ev) (\<lambda>s.
                   Returns (f\<lparr>fd_out := fd_out f @ s @ [newline], fd_seen := fd_seen f + 1\<rparr>))
             | None \<Rightarrow>
                 obind (jl_value_bool L j ''ok'' False) (\<lambda>ok.
                   if \<not> ok \<and> jl_contains L j ''error'' then
                     obind (jl_value_string L j ''error'' []) (\<lambda>e.
                       Returns (f\<lparr>fd_err := fd_err f @ ''events: '' @ e @ [newline]\<rparr>))
                   else Returns f)))"

function event_lines :: "'j json_lib \<Rightarrow> bool \<Rightarrow> string \<Rightarrow> feed \<Rightarrow> feed outcome" where
  "event_lines L show_table pending f =
     (case cut_line pending of
        None \<Rightarrow> Returns (f\<lparr>fd_pending := pending\<rparr>)
      | Some (line, rest) \<Rightarrow> obind (event_line L show_table line f) (event_lines L show_table rest))"
  by pat_completeness auto
termination
  by (relation "measure (\<lambda>(L, t, pending, f). length pending)") (auto dest!: cut_line_Some)

declare event_lines.simps [simp del]

text \<open>The outer loop runs while fewer than \<open>count\<close> events were seen (for ever if negative).\<close>

fun events_loop :: "'j json_lib \<Rightarrow> bool \<Rightarrow> i32 \<Rightarrow> string list \<Rightarrow> feed \<Rightarrow> feed outcome" where
  "events_loop L show_table count [] f = Returns f"
| "events_loop L show_table count (chunk # chunks) f =
     (if sint count < 0 \<or> sint (fd_seen f) < sint count then
        obind (event_lines L show_table (fd_pending f @ chunk) f) (events_loop L show_table count chunks)
      else Returns f)"

definition run_events :: "'j json_lib \<Rightarrow> exchange \<Rightarrow> cli_args \<Rightarrow> run_result outcome" where
  "run_events L X args =
     (case daemon_connect X (socket_path (ca_runtime_dir args)) of
        Inl e \<Rightarrow> Returns (1, [], ''events: '' @ e @ [newline])
      | Inr _ \<Rightarrow>
          obind (jl_dump L (jl_object L [(''cmd'', jl_string L ''stream''), (''json'', jl_bool L (ca_json_output args))]))
            (\<lambda>req. obind (events_loop L (\<not> ca_json_output args) (ca_event_count args) (ex_chunks X)
               \<lparr>fd_pending = [], fd_seen = 0, fd_table = console_new, fd_out = [], fd_err = []\<rparr>)
            (\<lambda>f. Returns (0, fd_out f @ cs_out (fd_table f),
               fd_err f @ ''events: stream ended ('' @ show_int (sint (fd_seen f)) @ '' event(s))'' @ [newline]))))"

section \<open>The program\<close>

definition kVersion :: string where "kVersion = ''0.1.0''"
definition kProjectName :: string where "kProjectName = ''eBPF FileGuard''"
definition kTagline :: string where "kTagline = ''Kernel-Assisted Runtime File Access Control''"

definition version_text :: string where
  "version_text = kProjectName @ '' '' @ kVersion @ '' '' @ em_dash @ '' '' @ kTagline @ [newline]"

definition help_text :: string where
  "help_text = concat (map (\<lambda>l. l @ [newline])
     [''eBPF FileGuard '' @ em_dash @ '' Kernel-Assisted Runtime File Access Control'',
      [],
      ''usage:'',
      ''  guardctl serve [--policy FILE] [--daemon] [--log FILE] [--runtime-dir DIR]'',
      ''  guardctl policy validate FILE'',
      ''  guardctl policy load FILE'',
      ''  guardctl policy list'',
      ''  guardctl status'',
      ''  guardctl events [--json] [--count N]'',
      ''  guardctl stop'',
      ''  guardctl --version | --help''])"

text \<open>A run ends with an exit code and its output, or goes on as \<open>run_serve\<close> (the theory \<open>Serve\<close>)
  after the text printed so far.\<close>

datatype cli_run = Cli_exit run_result | Cli_serve string cli_args

definition exits :: "run_result outcome \<Rightarrow> cli_run outcome" where
  "exits r = obind r (\<lambda>x. Returns (Cli_exit x))"

definition run_cli ::
  "'j json_lib \<Rightarrow> file_system \<Rightarrow> file_system \<Rightarrow> file_resolver \<Rightarrow> exchange \<Rightarrow> cli_args \<Rightarrow> cli_run outcome option" where
  "run_cli L fs fs_later R X args =
     (case run_cli_dispatch args of
        Serve \<Rightarrow> Some (Returns (Cli_serve [] args))
      | Policy_validate \<Rightarrow> Some (exits (run_policy_validate L fs R args))
      | Policy_load \<Rightarrow> map_option (\<lambda>r. obind r (\<lambda>l. Returns (case l of
            Load_exit x \<Rightarrow> Cli_exit x | Load_spawn text a \<Rightarrow> Cli_serve text a)))
          (run_policy_load L fs fs_later R X args)
      | Policy_list \<Rightarrow> map_option exits (run_policy_list L X args)
      | Status \<Rightarrow> map_option exits (run_status L X args)
      | Events \<Rightarrow> Some (exits (run_events L X args))
      | Stop \<Rightarrow> map_option exits (run_stop L X args)
      | Version \<Rightarrow> Some (Returns (Cli_exit (0, version_text, [])))
      | Help \<Rightarrow> Some (Returns (Cli_exit (0, help_text, [])))
      | Unknown_command \<Rightarrow> Some (Returns (Cli_exit (1, [], ''unknown command'' @ [newline]))))"

definition guardctl_main ::
  "'j json_lib \<Rightarrow> file_system \<Rightarrow> file_system \<Rightarrow> file_resolver \<Rightarrow> exchange \<Rightarrow> bool \<Rightarrow> string list \<Rightarrow>
     cli_run outcome option" where
  "guardctl_main L fs fs_later R X root argv =
     (case parse_cli root argv of
        Inl e \<Rightarrow> Some (Returns (Cli_exit (2, [], ''guardctl: '' @ e @ [newline])))
      | Inr args \<Rightarrow> run_cli L fs fs_later R X args)"

text \<open>\<open>main\<close> of the executable: its exit code is that of \<open>guardctl_main\<close>.\<close>

definition fileguard_main ::
  "'j json_lib \<Rightarrow> file_system \<Rightarrow> file_system \<Rightarrow> file_resolver \<Rightarrow> exchange \<Rightarrow> bool \<Rightarrow> string list \<Rightarrow>
     cli_run outcome option" where
  "fileguard_main L fs fs_later R X root argv = guardctl_main L fs fs_later R X root argv"

end
