(* ===== verification/Daemon_Properties.thy ===== *)
theory Daemon_Properties
  imports Daemon
begin

text \<open>
  The properties of the daemon: framing and sending, requests and their replies, stream clients,
  and shutdown.
\<close>

section \<open>Bytes\<close>

lemma write_all_prefix:
  assumes "write_all rs data = Some (ok, out, rs')"
  shows "\<exists>rest. data = out @ rest \<and> (ok \<longleftrightarrow> rest = [])"
  using assms
proof (induction rs data arbitrary: ok out rs' rule: write_all.induct)
  case (4 n rs b bs)
  then obtain out1 where w: "write_all rs (drop n (b # bs)) = Some (ok, out1, rs')"
    and out: "out = take n (b # bs) @ out1"
    by (auto split: option.splits)
  from 4(1) [OF w] obtain rest where "drop n (b # bs) = out1 @ rest" "ok \<longleftrightarrow> rest = []" by blast
  with out show ?case by (intro exI [of _ rest]) (metis append.assoc append_take_drop_id)
qed (auto split: if_splits)

text \<open>\<open>write_all\<close> sends in order and nothing twice: what went out is a prefix of the data, and it
  is all of the data exactly when the call reports success; interrupted calls are retried.\<close>

theorem write_all_sends:
  assumes "write_all rs data = Some (ok, out, rs')"
  shows "\<exists>rest. data = out @ rest \<and> (ok \<longleftrightarrow> rest = [])"
  using write_all_prefix [OF assms] .


theorem write_all_sends_witness:
  "write_all [Sent 2, Send_failed EINTR, Sent 1] ''abc'' = Some (True, ''abc'', []) \<and>
   (\<exists>rest. ''abc'' = ''abc'' @ rest \<and> (True \<longleftrightarrow> rest = []))"
proof -
  have w: "write_all [Sent 2, Send_failed EINTR, Sent 1] ''abc'' = Some (True, ''abc'', [])"
    by (simp add: EINTR_def)
  from write_all_sends [OF w] w show ?thesis by blast
qed

lemma process_lines_no_newline: "newline \<notin> set buf \<Longrightarrow> process_lines h buf s = (Inr buf, s)"
  by (subst process_lines.simps) (simp add: cut_line_None [THEN iffD2])

lemma process_lines_line:
  "newline \<notin> set l \<Longrightarrow> process_lines h (l @ newline # rest) s =
     (if l = [] then process_lines h rest s
      else case h l s of (Some e, s') \<Rightarrow> (Inl e, s') | (None, s') \<Rightarrow> process_lines h rest s')"
  by (subst process_lines.simps) (simp add: cut_line_append)

lemma process_lines_blank: "process_lines h (newline # rest) s = process_lines h rest s"
  using process_lines_line [of "[]" h rest s] by simp

lemma process_lines_append:
  "process_lines h (a @ b) s = (case process_lines h a s of
     (Inl e, s') \<Rightarrow> (Inl e, s') | (Inr buf, s') \<Rightarrow> process_lines h (buf @ b) s')"
proof (induction h a s rule: process_lines.induct)
  case (1 h a s)
  show ?case
  proof (cases "cut_line a")
    case None
    then show ?thesis by (simp add: process_lines_no_newline cut_line_None)
  next
    case (Some lr)
    then obtain l rest where lr: "cut_line a = Some (l, rest)" by (cases lr) auto
    from cut_line_Some [OF lr] have a: "a = l @ newline # rest" and l: "newline \<notin> set l" by auto
    have ab: "a @ b = l @ newline # (rest @ b)" using a by simp
    show ?thesis
    proof (cases "l = []")
      case True
      then show ?thesis using 1(1) [OF lr] unfolding ab by (simp add: a process_lines_blank)
    next
      case False
      show ?thesis
      proof (cases "h l s")
        case (Pair r s')
        then show ?thesis using 1(2) [OF lr refl False Pair [symmetric]] False l
          unfolding ab by (cases r) (simp_all add: a process_lines_line)
      qed
    qed
  qed
qed

text \<open>The bytes of a sequence of wake-ups, and sequences without an end of the connection.\<close>

fun bytes_of :: "recv_event list \<Rightarrow> string" where
  "bytes_of [] = []"
| "bytes_of (Received chunk # evs) = chunk @ bytes_of evs"
| "bytes_of (ev # evs) = bytes_of evs"

definition stays_connected :: "recv_event list \<Rightarrow> bool" where
  "stays_connected evs \<longleftrightarrow> Poll_failed \<notin> set evs \<and> Disconnected \<notin> set evs"

lemma process_lines_rest: "process_lines h buf s = (Inr rest, s') \<Longrightarrow> newline \<notin> set rest"
proof (induction h buf s rule: process_lines.induct)
  case (1 h buf s)
  show ?case
  proof (cases "cut_line buf")
    case None
    with 1(3) show ?thesis by (auto simp: process_lines.simps [of h buf s] cut_line_None)
  next
    case (Some lr)
    then obtain l more where lr: "cut_line buf = Some (l, more)" by (cases lr) auto
    obtain r t where h: "h l s = (r, t)" by fastforce
    show ?thesis
      using 1(3) 1(1) [OF lr refl] 1(2) [OF lr refl _ h [symmetric]]
      by (cases r) (auto simp: process_lines.simps [of h buf s] lr h split: if_splits)
  qed
qed

lemma process_lines_stopped:
  assumes mono: "\<And>l s. run (snd (h l s)) \<Longrightarrow> run s"
  shows "run (snd (process_lines h buf s)) \<Longrightarrow> run s"
proof (induction "length buf" arbitrary: buf s rule: less_induct)
  case less
  show ?case
  proof (cases "cut_line buf")
    case None
    with less.prems show ?thesis by (simp add: process_lines.simps [of h buf s])
  next
    case (Some lr)
    then obtain l more where lr: "cut_line buf = Some (l, more)" by (cases lr) auto
    from cut_line_Some [OF lr] have short: "length more < length buf" by simp
    obtain r t where h: "h l s = (r, t)" by fastforce
    with mono [of l s] have "run t \<Longrightarrow> run s" by simp
    with less.prems less.hyps [OF short, of s] less.hyps [OF short, of t] show ?thesis
      by (cases r) (auto simp: process_lines.simps [of h buf s] lr h split: if_splits)
  qed
qed

text \<open>What the loop has handled when it ends or waits: the bytes of the wake-ups it has seen. It has seen
  all of them unless a line ended the connection or a stop was noticed.\<close>

abbreviation served :: "('s \<Rightarrow> bool) \<Rightarrow> (connection + string) \<times> 's \<Rightarrow> connection \<times> 's" where
  "served running res \<equiv>
     (case res of (Inl e, s) \<Rightarrow> (e, s) | (Inr rest, s) \<Rightarrow> (if running s then Waiting else Closed, s))"

definition saw ::
  "('s \<Rightarrow> bool) \<Rightarrow> (string \<Rightarrow> 's \<Rightarrow> connection option \<times> 's) \<Rightarrow> recv_event list \<Rightarrow> string \<Rightarrow> 's \<Rightarrow> nat \<Rightarrow> bool" where
  "saw running h evs buf s n \<longleftrightarrow> n \<le> length evs \<and>
     (\<exists>r s'. process_lines h (buf @ bytes_of (take n evs)) s = (r, s') \<and>
        serve_client running h evs buf s = served running (r, s') \<and>
        (n < length evs \<longrightarrow> (\<exists>e. r = Inl e) \<or> \<not> running s'))"

lemma saw_none: "newline \<notin> set buf \<Longrightarrow> evs = [] \<or> \<not> running s \<Longrightarrow> saw running h evs buf s 0"
  by (cases evs) (auto simp: saw_def process_lines_no_newline)

lemma saw_nothing_new:
  "ev = Timeout \<or> ev = Interrupted \<Longrightarrow> running s \<Longrightarrow> saw running h (ev # evs) buf s (Suc n) = saw running h evs buf s n"
  by (elim disjE) (simp_all add: saw_def)

lemma saw_chunk:
  assumes "process_lines h (buf @ c) s = (Inr buf', s')" and "running s" and "saw running h evs buf' s' n"
  shows "saw running h (Received c # evs) buf s (Suc n)"
proof -
  have "process_lines h (buf @ c @ x) s = process_lines h (buf' @ x) s'" for x
    using process_lines_append [of h "buf @ c" x s] assms(1) by simp
  with assms show ?thesis by (simp add: saw_def)
qed

lemma serve_client_saw: "newline \<notin> set buf \<Longrightarrow> stays_connected evs \<Longrightarrow> \<exists>n. saw running h evs buf s n"
proof (induction evs arbitrary: buf s)
  case Nil
  then show ?case by (intro exI [of _ 0] saw_none) simp_all
next
  case (Cons ev evs)
  have q: "stays_connected evs" and ev: "ev \<noteq> Poll_failed" "ev \<noteq> Disconnected" using Cons.prems by (auto simp: stays_connected_def)
  show ?case
  proof (cases "running s")
    case False
    with Cons.prems(1) show ?thesis by (intro exI [of _ 0] saw_none) simp_all
  next
    case run: True
    show ?thesis
    proof (cases ev)
      case (Received c)
      obtain r s' where c: "process_lines h (buf @ c) s = (r, s')" by fastforce
      show ?thesis
      proof (cases r)
        case (Inl e)
        with run Received c have "saw running h (ev # evs) buf s 1" by (simp add: saw_def)
        then show ?thesis ..
      next
        case (Inr buf')
        from Cons.IH [OF process_lines_rest [OF c [unfolded Inr]] q] saw_chunk [where running = running, OF c [unfolded Inr] run] Received
        show ?thesis by blast
      qed
    qed (use Cons.IH [OF Cons.prems(1) q, of s] saw_nothing_new [of ev running s h evs buf] run ev in blast)+
  qed
qed

lemma bytes_of_append: "bytes_of (a @ b) = bytes_of a @ bytes_of b"
  by (induction a rule: bytes_of.induct) simp_all

lemma saw_whole:
  assumes mono: "\<And>l s. running (snd (h l s)) \<Longrightarrow> running s" and saw: "saw running h evs buf s n"
    and "running (snd (process_lines h (buf @ bytes_of evs) s))"
  shows "serve_client running h evs buf s = served running (process_lines h (buf @ bytes_of evs) s)"
proof -
  from saw obtain r s' where p: "process_lines h (buf @ bytes_of (take n evs)) s = (r, s')"
    and sv: "serve_client running h evs buf s = served running (r, s')"
    and n: "n \<le> length evs" "n < length evs \<longrightarrow> (\<exists>e. r = Inl e) \<or> \<not> running s'" by (auto simp: saw_def)
  have ap: "process_lines h (buf @ bytes_of evs) s =
      (case r of Inl e \<Rightarrow> (Inl e, s') | Inr rest \<Rightarrow> process_lines h (rest @ bytes_of (drop n evs)) s')"
    using process_lines_append [of h "buf @ bytes_of (take n evs)" "bytes_of (drop n evs)" s] p
    by (simp flip: bytes_of_append)
  show ?thesis
  proof (cases "n < length evs")
    case False
    with n(1) p sv show ?thesis by simp
  next
    case True
    show ?thesis
    proof (cases r)
      case (Inl e)
      with ap sv show ?thesis by simp
    next
      case (Inr rest)
      with ap assms(3) process_lines_stopped [of running h "rest @ bytes_of (drop n evs)" s', OF mono]
      have "running s'" by simp
      with n(2) True Inr show ?thesis by simp
    qed
  qed
qed

text \<open>No request makes a stopped daemon run again.\<close>

lemma handle_line_stopped:
  assumes "handle_line ops L R line d = Some (r, d')" and "d_running d'"
  shows "d_running d"
proof (rule ccontr)
  assume "\<not> d_running d"
  moreover have "handle_load ops L R req d = Some (o1, d1) \<Longrightarrow> d_running d1 = d_running d" for req o1 d1
    by (auto simp: handle_load_def Let_def split: option.splits outcome.splits sum.splits if_splits)
  ultimately have "handle_request ops L R req d = Some (o1, d1) \<Longrightarrow> \<not> d_running d1" for req o1 d1
    by (auto simp: handle_request_def daemon_stop_def split: outcome.splits if_splits)
  with assms \<open>\<not> d_running d\<close> show False
    by (auto simp: handle_line_def Let_def split: sum.splits option.splits outcome.splits if_splits bool.splits)
qed

lemma connection_line_stopped:
  "d_running (fst (snd (connection_line ops L R l s))) \<Longrightarrow> d_running (fst s)"
  by (cases s) (auto simp: connection_line_def split: option.splits line_end.splits dest: handle_line_stopped)

text \<open>C30. Request framing does not depend on how the stream is cut: the connection loop, alone with any
  sequence of chunks, timeouts and interrupted polls, handles the lines of the concatenated input in
  order and ends (or waits) as they say, provided that they do not stop the daemon. Since \<open>running_\<close> is
  looked at before every \<open>recv\<close>, after a stop the cut matters: the loop then closes at the next
  wake-up. In every case it has handled the lines of the bytes of the wake-ups it has seen, and these
  are all of them unless a line ended the connection or stopped the daemon.\<close>

theorem framing_chunk_independent:
  assumes "stays_connected evs"
  shows "(d_running (fst (snd (process_lines (connection_line ops L R) (bytes_of evs) (d, [])))) \<longrightarrow>
      handle_client ops L R evs d =
        (case process_lines (connection_line ops L R) (bytes_of evs) (d, []) of
           (Inl e, s) \<Rightarrow> (e, s) | (Inr rest, s) \<Rightarrow> (Waiting, s))) \<and>
    (\<exists>n \<le> length evs. \<exists>r s. process_lines (connection_line ops L R) (bytes_of (take n evs)) (d, []) = (r, s) \<and>
      handle_client ops L R evs d =
        (case r of Inl e \<Rightarrow> (e, s) | Inr rest \<Rightarrow> (if d_running (fst s) then Waiting else Closed, s)) \<and>
      (n < length evs \<longrightarrow> (\<exists>e. r = Inl e) \<or> \<not> d_running (fst s)))"
proof -
  let ?h = "connection_line ops L R" and ?run = "\<lambda>(d, replies :: string list). d_running d"
  have r: "?run = (\<lambda>s. d_running (fst s))" by auto
  have mono: "?run (snd (?h l s)) \<Longrightarrow> ?run s" for l s unfolding r by (rule connection_line_stopped)
  obtain n where n: "saw ?run ?h evs [] (d, []) n" using serve_client_saw [of "[]" evs ?run ?h "(d, [])"] assms by auto
  have "handle_client ops L R evs d = (case process_lines ?h (bytes_of evs) (d, []) of
      (Inl e, s) \<Rightarrow> (e, s) | (Inr rest, s) \<Rightarrow> (Waiting, s))"
    if "d_running (fst (snd (process_lines ?h (bytes_of evs) (d, []))))"
    using saw_whole [of ?run ?h, OF mono n] that unfolding handle_client_def r by (auto split: prod.splits sum.splits)
  moreover from n obtain res s where "n \<le> length evs" "process_lines ?h (bytes_of (take n evs)) (d, []) = (res, s)"
    "handle_client ops L R evs d = served ?run (res, s)" "n < length evs \<longrightarrow> (\<exists>e. res = Inl e) \<or> \<not> ?run s"
    unfolding handle_client_def saw_def append_Nil by blast
  ultimately show ?thesis unfolding r
    by (intro conjI impI, simp, intro exI [of _ n] conjI exI [of _ res] exI [of _ s]) (auto split: sum.splits)
qed

section \<open>Requests\<close>

lemma ok_member:
  assumes "json_laws L" "distinct (map fst ((''ok'', jl_bool L b) # kvs))"
  shows "jl_value_bool L (jl_object L ((''ok'', jl_bool L b) # kvs)) ''ok'' False = Returns b"
  by (rule value_object(4) [OF assms]) simp

lemma error_json_ok: "json_laws L \<Longrightarrow> jl_value_bool L (error_json L m) ''ok'' False = Returns False"
  unfolding error_json_def by (rule ok_member) simp_all

lemma stream_request:
  "jl_value_string L req ''cmd'' [] = Returns ''stream'' \<Longrightarrow> handle_request ops L R req d =
     Some (Returns (jl_object L [(''ok'', jl_bool L True), (''stream'', jl_bool L True)]), d)"
  by (simp add: handle_request_def)

lemma handle_request_returns:
  assumes "bpf_laws B"
  shows "\<exists>r d'. handle_request (linux_ops B env) L R req d = Some (r, d')"
proof -
  have "pred_option (\<lambda>e. bpf_laws B) (ct_enforcer (d_controller d))" using assms by (simp add: pred_option_def)
  have lp: "\<exists>r c'. load_policy (linux_ops B env) R p (d_controller d) = Some (r, c')" for p
    using linux_backend.load_policy_returns [OF \<open>pred_option (\<lambda>e. bpf_laws B) _\<close>, of env R p]
    by (auto simp: linux_ops_def)
  have "\<exists>r d'. handle_load (linux_ops B env) L R req d = Some (r, d')"
  proof (cases "jl_find L req ''policy''")
    case (Some doc)
    show ?thesis
    proof (cases "obind (jl_dump L doc) (from_json L)")
      case (Returns r)
      show ?thesis
      proof (cases r)
        case (Inr p)
        obtain r' c' where l: "load_policy (linux_ops B env) R (Some p) (d_controller d) = Some (r', c')"
          using lp by blast
        show ?thesis by (cases r') (simp_all add: handle_load_def Some Returns Inr l)
      qed (simp add: handle_load_def Some Returns)
    qed (simp add: handle_load_def Some)
  qed (simp add: handle_load_def)
  then show ?thesis by (auto simp: handle_request_def split: outcome.splits)
qed

text \<open>C31. Every request comes to its end: on the Linux backend, handling a line that parses to an object
  whose \<open>cmd\<close> is a string always returns, with the reply that \<open>handle_request\<close> built (or an error
  object if it threw) handed to the client as exactly one line, after which the connection is an
  event feed if and only if \<open>cmd\<close> is \<open>stream\<close>. The one exception: a reply that \<open>dump()\<close> refuses, as it
  does for strings that are not UTF-8, is not sent, and the exception ends the daemon.\<close>

theorem request_gets_reply:
  assumes "json_laws L" and "bpf_laws B" and "jl_parse L line = Inr req"
    and "jl_value_string L req ''cmd'' [] = Returns cmd"
  shows "\<exists>r resp d'. handle_request (linux_ops B env) L R req d = Some (r, d') \<and>
    resp = (case r of Returns j \<Rightarrow> j | Throws m \<Rightarrow> error_json L (''internal error: '' @ m)) \<and>
    (case jl_dump L resp of
       Returns s \<Rightarrow> newline \<notin> set s \<and> handle_line (linux_ops B env) L R line d =
         Some (if cmd = ''stream'' then Streams (s @ [newline]) else Replied (s @ [newline]), d')
     | Throws m \<Rightarrow> handle_line (linux_ops B env) L R line d = Some (Crashed m, d'))"
proof -
  obtain r d1 where h: "handle_request (linux_ops B env) L R req d = Some (r, d1)"
    using handle_request_returns [OF assms(2), of env L R req d] by blast
  let ?resp = "case r of Returns j \<Rightarrow> j | Throws m \<Rightarrow> error_json L (''internal error: '' @ m)"
  have nl: "newline \<notin> set s" if "jl_dump L j = Returns s" for j s
    by (rule dump_no_newline [OF assms(1) that])
  have ok: "jl_value_bool L ?resp ''ok'' False = Returns True" if "cmd = ''stream''"
  proof -
    have "r = Returns (jl_object L [(''ok'', jl_bool L True), (''stream'', jl_bool L True)])"
      using h that assms(4) by (simp add: stream_request)
    moreover have "jl_value_bool L (jl_object L [(''ok'', jl_bool L True), (''stream'', jl_bool L True)]) ''ok'' False = Returns True"
      by (rule ok_member [OF assms(1)]) simp
    ultimately show ?thesis by simp
  qed
  then show ?thesis using nl h
    by (intro exI [of _ r] exI [of _ ?resp] exI [of _ d1] conjI; cases "jl_dump L ?resp"; cases "cmd = ''stream''")
       (simp_all add: handle_line_def Let_def assms(3,4))
qed

definition status_req :: demo_json where
  "status_req = DObject [(''cmd'', DString ''stream'')]"

definition wire_lib :: "demo_json json_lib" where
  "wire_lib = demo_json_lib [(''r'', status_req), (''n'', DNumber 7),
     (''a'', DObject [(''ok'', DBool True), (''stream'', DBool True)])]"

lemma wire_lib_laws: "json_laws wire_lib"
  using demo_json_laws [of "[(''r'', status_req), (''n'', DNumber 7),
     (''a'', DObject [(''ok'', DBool True), (''stream'', DBool True)])]"]
  by (simp add: wire_lib_def demo_table_ok_def status_req_def)

definition demo_daemon :: "((fileguard_file_id \<times> fileguard_protected_val) list,
    (fileguard_rule_key \<times> fileguard_rule_val) list, fileguard_config) linux_enforcer daemon" where
  "demo_daemon = \<lparr>d_cfg = \<lparr>dc_controller = default_controller_config, dc_socket_path = ''/tmp/s'', dc_pid_file = []\<rparr>,
     d_controller = \<lparr>ct_cfg = default_controller_config, ct_policy_manager = pm_new,
       ct_enforcer = Some demo_enforcer, ct_resolver = None,
       ct_queue = \<lparr>q_slots = [empty_event, empty_event], q_head = 0, q_tail = 0, q_stop = False\<rparr>,
       ct_sinks = [], ct_boot_offset_ns = 0, ct_clients = [0], ct_client_store = (\<lambda>_. stream_client_new 3),
       ct_started = True, ct_ring_thread = True, ct_consumer_thread = True\<rparr>,
     d_running = True, d_stream_clients = [0]\<rparr>"

lemma wire_lib_stream:
  "jl_parse wire_lib ''r'' = Inr status_req" "jl_value_string wire_lib status_req ''cmd'' [] = Returns ''stream''"
  "jl_dump wire_lib (jl_object wire_lib [(''ok'', jl_bool wire_lib True), (''stream'', jl_bool wire_lib True)]) = Returns ''a''"
  by (simp_all add: wire_lib_def demo_json_lib_def status_req_def)

theorem request_gets_reply_witness:
  "\<exists>d'. handle_line (linux_ops demo_sys demo_env) wire_lib demo_resolver ''r'' demo_daemon =
     Some (Streams [CHR ''a'', newline], d')"
  using request_gets_reply [OF wire_lib_laws demo_sys_laws wire_lib_stream(1,2), of demo_env demo_resolver demo_daemon]
  by (auto simp: stream_request [OF wire_lib_stream(2)] wire_lib_stream(3))

text \<open>One request that comes in two pieces, with a timeout between them.\<close>

theorem framing_chunk_independent_witness:
  "stays_connected [Received ''r'', Timeout, Received [newline]] \<and>
   handle_client (linux_ops demo_sys demo_env) wire_lib demo_resolver [Received ''r'', Timeout, Received [newline]] demo_daemon =
     (Streaming, demo_daemon, [''a'' @ [newline]])"
proof -
  let ?evs = "[Received ''r'', Timeout, Received [newline]]"
  let ?h = "connection_line (linux_ops demo_sys demo_env) wire_lib demo_resolver"
  have q: "stays_connected ?evs" by (simp add: stays_connected_def)
  have hl: "handle_line (linux_ops demo_sys demo_env) wire_lib demo_resolver ''r'' demo_daemon =
      Some (Streams (''a'' @ [newline]), demo_daemon)"
    using request_gets_reply [OF wire_lib_laws demo_sys_laws wire_lib_stream(1,2), of demo_env demo_resolver demo_daemon]
    by (auto simp: stream_request [OF wire_lib_stream(2)] wire_lib_stream(3))
  have "process_lines ?h (''r'' @ newline # []) (demo_daemon, []) = (Inl Streaming, demo_daemon, [''a'' @ [newline]])"
    by (subst process_lines_line) (simp_all add: connection_line_def hl)
  then have "process_lines ?h (bytes_of ?evs) (demo_daemon, []) = (Inl Streaming, demo_daemon, [''a'' @ [newline]])" by simp
  with framing_chunk_independent [OF q, of "linux_ops demo_sys demo_env" wire_lib demo_resolver demo_daemon] q show ?thesis
    by (simp add: demo_daemon_def)
qed

text \<open>A request that is not an object ends the daemon: the second look at \<open>cmd\<close> is outside the
  \<open>try\<close>, so the type error leaves the connection's detached thread.\<close>

theorem non_object_request_crashes:
  assumes "json_laws L" and "jl_parse L line = Inr req" and "\<not> jl_is_object L req"
  shows "\<exists>m. handle_line ops L R line d = Some (Crashed m, d)"
proof -
  from value_not_object [OF assms(1,3)] obtain m where "jl_value_string L req ''cmd'' [] = Throws m" by blast
  then show ?thesis by (simp add: handle_line_def handle_request_def assms(2))
qed

theorem non_object_request_crashes_witness:
  "\<exists>m. handle_line (linux_ops demo_sys env) wire_lib R ''n'' demo_daemon = Some (Crashed m, demo_daemon)"
proof -
  have "jl_parse wire_lib ''n'' = Inr (DNumber 7)" "\<not> jl_is_object wire_lib (DNumber 7)"
    by (simp_all add: wire_lib_def demo_json_lib_def status_req_def)
  from non_object_request_crashes [OF wire_lib_laws this] show ?thesis .
qed

lemma handle_load_doc:
  assumes "json_laws L" and "jl_is_object L doc" and "jl_dump L doc = Returns t" and "from_json L t = Returns (Inr p)"
    and "load_policy ops R (Some p) (d_controller d) = Some (r, c)"
  shows "handle_request ops L R (jl_object L [(''cmd'', jl_string L ''load_policy''), (''policy'', doc)]) d =
    Some (Returns (case r of
        Inl e \<Rightarrow> error_json L e
      | Inr _ \<Rightarrow> jl_object L [(''ok'', jl_bool L True), (''policy_version'', jl_number L (sint (pol_version p)))]),
      d\<lparr>d_controller := c\<rparr>)"
proof -
  let ?req = "jl_object L [(''cmd'', jl_string L ''load_policy''), (''policy'', doc)]"
  have cmd: "jl_value_string L ?req ''cmd'' [] = Returns ''load_policy''"
    by (rule value_object(1) [OF assms(1)]) simp_all
  have doc: "jl_find L ?req ''policy'' = Some doc"
    using structure_simps(5) [OF assms(1)] by simp
  show ?thesis
  proof (cases r)
    case (Inl e)
    then show ?thesis by (simp add: handle_request_def cmd handle_load_def doc assms(2-5))
  next
    case (Inr u)
    have "pm_current (ct_policy_manager c) = Some p"
      using load_policy_Inr [of ops R "Some p" "d_controller d" c] assms(5) Inr by auto
    with Inr show ?thesis
      by (simp add: handle_request_def cmd handle_load_def doc assms(2-5) pm_version_def)
  qed
qed

lemma handle_load_request:
  assumes "json_laws L" and "expressible p" and "jl_dump L (policy_json L p) = Returns t"
    and "load_policy ops R (Some p) (d_controller d) = Some (r, c)"
  shows "handle_request ops L R
      (jl_object L [(''cmd'', jl_string L ''load_policy''), (''policy'', policy_json L p)]) d =
    Some (Returns (case r of
        Inl e \<Rightarrow> error_json L e
      | Inr _ \<Rightarrow> jl_object L [(''ok'', jl_bool L True), (''policy_version'', jl_number L (sint (pol_version p)))]),
      d\<lparr>d_controller := c\<rparr>)"
proof (rule handle_load_doc [OF assms(1) _ assms(3) _ assms(4)])
  show "jl_is_object L (policy_json L p)" by (simp add: policy_json_def structure_simps(4) [OF assms(1)])
  have built: "built L (policy_json L p)"
    by (auto simp: policy_json_def resource_json_def rule_json_def operation_json_def
        split: option.splits intro!: built.intros)
  show "from_json L t = Returns (Inr p)"
    by (rule from_json_policy_json [OF assms(1,2) parse_dump [OF assms(1) built assms(3)]])
qed

text \<open>Loading over the socket is loading: a \<open>load_policy\<close> request that carries the document of an
  expressible policy installs exactly that policy and answers with its version, or answers with
  the error of \<open>load_policy\<close>.\<close>

theorem load_request:
  assumes "json_laws L" and "expressible p" and "jl_dump L (policy_json L p) = Returns t"
    and "load_policy ops R (Some p) (d_controller d) = Some (r, c)"
  shows "handle_request ops L R
      (jl_object L [(''cmd'', jl_string L ''load_policy''), (''policy'', policy_json L p)]) d =
    Some (Returns (case r of
        Inl e \<Rightarrow> error_json L e
      | Inr _ \<Rightarrow> jl_object L [(''ok'', jl_bool L True), (''policy_version'', jl_number L (sint (pol_version p)))]),
      d\<lparr>d_controller := c\<rparr>)"
  by (rule handle_load_request [OF assms])

theorem load_request_witness:
  "\<exists>d'. handle_request (linux_ops demo_sys demo_env) sample_lib demo_resolver
       (jl_object sample_lib [(''cmd'', jl_string sample_lib ''load_policy''),
          (''policy'', policy_json sample_lib sample_policy)]) demo_daemon =
     Some (Returns (jl_object sample_lib [(''ok'', jl_bool sample_lib True),
       (''policy_version'', jl_number sample_lib 3)]), d') \<and>
     pm_current (ct_policy_manager (d_controller d')) = Some sample_policy"
proof -
  have dump: "jl_dump sample_lib (policy_json sample_lib sample_policy) = Returns ''{}''"
    by (simp add: sample_lib_def demo_json_lib_def policy_json_def resource_json_def rule_json_def
        operation_json_def sample_policy_def)
  have cp: "compile demo_resolver sample_policy = Inr ((demo_compiled 300)\<lparr>cp_version := 3\<rparr>)"
    and ok: "validate sample_policy = Inr ()"
    by (simp_all add: compile_def sample_policy_def validate_def demo_resolver_def demo_compiled_def file_id_valid_def)
  have "\<exists>e. linux_apply_policy demo_sys demo_enforcer ((demo_compiled 300)\<lparr>cp_version := 3\<rparr>) = Some (Inr (), e)"
    by (simp add: linux_apply_policy_def install_maps_def demo_defs demo_sys_def set_config_def
        clear_protected_def clear_rules_def clear_map_def clear_loop.simps alist_ops_def alist_next_def
        alist_update_def Let_def to_abi_def demo_fid_def ENOENT_def zero_config_def rule_key_def rule_val_def)
  then have "\<exists>c. load_policy (linux_ops demo_sys demo_env) demo_resolver (Some sample_policy)
      (d_controller demo_daemon) = Some (Inr (), c) \<and> pm_current (ct_policy_manager c) = Some sample_policy"
    by (auto simp: load_policy_def cp ok load_apply_def demo_daemon_def linux_ops_def backend_ops_def
        load_install_def load_resolver_def)
  then obtain c where "load_policy (linux_ops demo_sys demo_env) demo_resolver (Some sample_policy)
      (d_controller demo_daemon) = Some (Inr (), c)" and "pm_current (ct_policy_manager c) = Some sample_policy"
    by blast
  with load_request [OF sample_lib_laws(1) sample_expressible dump this(1)] show ?thesis
    by (simp add: sample_policy_def)
qed

section \<open>Shutdown\<close>

definition client_of :: "'e daemon \<Rightarrow> nat \<Rightarrow> stream_client" where
  "client_of d p = ct_client_store (d_controller d) p"

lemma fold_shutdown:
  "client_of (fold (update_client client_shutdown) ps d) p =
     (if p \<in> set ps then (client_of d p)\<lparr>sc_closed := True, sc_queue := (sc_queue (client_of d p))\<lparr>q_stop := True\<rparr>\<rparr>
      else client_of d p)"
  "d_running (fold (update_client client_shutdown) ps d) = d_running d"
  by (induction ps arbitrary: d)
     (auto simp: update_client_def client_of_def client_shutdown_def queue_request_stop_def)

text \<open>\<open>stop\<close> from outside shuts every stream client down once: a running daemon ends not running
  with no clients listed and each of them closed with its queue stopped, so that its writer
  thread ends; on a daemon that is not running it does nothing.\<close>

theorem stop_shuts_clients_down:
  "fst (daemon_stop d) = Inr () \<and> \<not> d_running (snd (daemon_stop d)) \<and>
   (if d_running d
    then d_stream_clients (snd (daemon_stop d)) = [] \<and>
      (let c = client_of (snd (daemon_stop d)) p in
       if p \<in> set (d_stream_clients d) then sc_closed c \<and> q_stop (sc_queue c) else c = client_of d p)
    else snd (daemon_stop d) = d)"
proof -
  have c: "client_of (d1\<lparr>d_stream_clients := xs\<rparr>) p = client_of d1 p" "client_of (d1\<lparr>d_running := b\<rparr>) p = client_of d1 p"
    for d1 :: "'a daemon" and xs b by (simp_all add: client_of_def)
  show ?thesis
    by (simp add: daemon_stop_def Let_def c fold_shutdown)
qed

text \<open>The \<open>stop\<close> command does not: it clears \<open>running_\<close> first, so the \<open>stop()\<close> it then calls
  returns at once, and the daemon ends with every stream client still listed and none shut down.\<close>

theorem stop_request_skips_clients:
  assumes "jl_value_string L req ''cmd'' [] = Returns ''stop''"
  shows "handle_request ops L R req d =
    Some (Returns (jl_object L [(''ok'', jl_bool L True), (''message'', jl_string L ''stopping'')]),
      d\<lparr>d_running := False\<rparr>)"
  using assms by (simp add: handle_request_def daemon_stop_def)

theorem stop_request_skips_clients_witness:
  "\<exists>r d'. handle_request (linux_ops demo_sys env) wire_lib R (DObject [(''cmd'', DString ''stop'')]) demo_daemon =
      Some (r, d') \<and> \<not> d_running d' \<and> d_stream_clients d' = [0] \<and> \<not> sc_closed (client_of d' 0)"
proof -
  have "jl_value_string wire_lib (DObject [(''cmd'', DString ''stop'')]) ''cmd'' [] = Returns ''stop''"
    by (simp add: wire_lib_def demo_json_lib_def)
  from stop_request_skips_clients [OF this, of "linux_ops demo_sys env" R demo_daemon]
  show ?thesis by (simp add: demo_daemon_def client_of_def stream_client_new_def)
qed

lemma start_started: "start ops create L fs R c = Some (r, c') \<Longrightarrow> ct_started c'"
  by (auto simp: start_def Let_def split: if_splits sum.splits outcome.splits option.splits prod.splits
      dest!: load_policy_frame)

text \<open>A daemon that fails to start leaves nothing behind: after any error result it is not
  listening, and once it got as far as creating the socket neither the socket file nor the PID
  file remains; a successful start listens with \<open>running_\<close> set.\<close>

theorem run_start_cleans_up:
  assumes "daemon_run_start ops create L fs R env nothing_left d = Some (Returns r, sv, d')"
  shows "(if r = Inr () then sv_listening sv \<and> sv_socket_file sv \<and> d_running d' \<and> ct_started (d_controller d')
     else sv = nothing_left \<and> d_running d' = d_running d)"
proof -
  note st = start_started
  from assms show ?thesis
    by (auto simp: daemon_run_start_def nothing_left_def Let_def dest!: st
        split: if_splits option.splits outcome.splits sum.splits prod.splits)
qed

definition ok_env :: run_env where
  "ok_env = \<lparr>re_sun_path = 108, re_socket = None, re_bind = None, re_listen = None, re_pid_file = True\<rparr>"

theorem run_start_cleans_up_witness:
  "\<exists>sv d'. daemon_run_start (linux_ops demo_sys demo_env) (\<lambda>_. demo_enforcer) wire_lib (\<lambda>_. None) demo_resolver ok_env
      nothing_left demo_daemon = Some (Returns (Inl ''controller already started''), sv, d') \<and> sv = nothing_left"
proof -
  have "\<exists>sv d'. daemon_run_start (linux_ops demo_sys demo_env) (\<lambda>_. demo_enforcer) wire_lib (\<lambda>_. None) demo_resolver ok_env
      nothing_left demo_daemon = Some (Returns (Inl ''controller already started''), sv, d')"
    by (simp add: daemon_run_start_def ok_env_def demo_daemon_def start_def nothing_left_def)
  then obtain sv d' where run: "daemon_run_start (linux_ops demo_sys demo_env) (\<lambda>_. demo_enforcer) wire_lib (\<lambda>_. None) demo_resolver ok_env
      nothing_left demo_daemon = Some (Returns (Inl ''controller already started''), sv, d')" by blast
  from run_start_cleans_up [OF run] run show ?thesis by auto
qed

section \<open>Stream clients\<close>

text \<open>The events the controller's consumer pushes to one client.\<close>

fun push_events :: "'j json_lib \<Rightarrow> security_event list \<Rightarrow> stream_client \<Rightarrow> stream_client outcome" where
  "push_events L [] c = Returns c"
| "push_events L (e # es) c = obind (client_push L e c) (push_events L es)"

lemma client_push_total:
  "q_inv (sc_queue c) \<Longrightarrow> q_capacity (sc_queue c) = 1024 \<Longrightarrow> \<not> sc_closed c \<Longrightarrow>
     json_of L e = Returns line \<Longrightarrow> \<exists>c'. client_push L e c = Returns c'"
  by (simp add: client_push_def try_push_store)

text \<open>A slow client only hurts itself: pushing an event to an open client never blocks; it appends
  the event's text to that client's queue, or, when 1023 lines are waiting, drops the event and
  counts it.\<close>

theorem slow_client_drops:
  assumes "q_inv (sc_queue c)" and "q_capacity (sc_queue c) = 1024" and "\<not> sc_closed c"
    and "json_of L e = Returns line"
  shows "\<exists>c'. client_push L e c = Returns c' \<and> \<not> sc_closed c' \<and>
    (if length (q_contents (sc_queue c)) = 1023
     then c' = c\<lparr>sc_dropped := sc_dropped c + 1\<rparr>
     else q_contents (sc_queue c') = q_contents (sc_queue c) @ [line] \<and> sc_dropped c' = sc_dropped c)"
proof -
  have "q_full (sc_queue c) \<longleftrightarrow> length (q_contents (sc_queue c)) = 1023"
    using q_full_iff [OF assms(1)] assms(2) by simp
  then show ?thesis
    using assms(3,4) q_store_contents [OF assms(1)]
    by (simp add: client_push_def try_push_store)
qed

lemma new_client_queue:
  "q_inv (sc_queue (stream_client_new fd))" "q_capacity (sc_queue (stream_client_new fd)) = 1024"
  "q_contents (sc_queue (stream_client_new fd)) = []" "\<not> sc_closed (stream_client_new fd)"
  by (simp_all add: stream_client_new_def q_inv_def q_capacity_def q_contents_def q_count_def)

lemma log_lib_json_of: "json_of log_lib (long_pid_event 7) = Returns ''e''"
  using log_lib_dump by (simp add: json_of_def event_json_def)

theorem slow_client_drops_witness:
  "\<exists>c'. client_push log_lib (long_pid_event 7) (stream_client_new 3) = Returns c' \<and>
     q_contents (sc_queue c') = [''e'']"
  using slow_client_drops [OF new_client_queue(1,2,4) log_lib_json_of, of 3] new_client_queue(3) [of 3]
  by auto

lemma writer_step_newline_free:
  assumes "writer_step rs c = Some (go, out, c', rs')" "q_inv (sc_queue c)"
    "list_all (\<lambda>l. newline \<notin> set l) (q_contents (sc_queue c))"
  shows "newline \<notin> set out \<and> q_inv (sc_queue c') \<and>
    list_all (\<lambda>l. newline \<notin> set l) (q_contents (sc_queue c'))"
proof (cases "sc_closed c \<or> q_empty (sc_queue c)")
  case True
  with assms show ?thesis by (auto simp: writer_step_def pop_drop split: if_splits)
next
  case False
  let ?q = "sc_queue c"
  have d: "q_contents ?q = q_slots ?q ! q_tail ?q # q_contents (q_drop ?q)"
    using q_drop_contents [OF assms(2)] False by simp
  from False assms(1) have "(case write_all rs (q_slots ?q ! q_tail ?q) of None \<Rightarrow> None
      | Some (True, out, rs') \<Rightarrow> Some (True, out, c\<lparr>sc_queue := q_drop ?q\<rparr>, rs')
      | Some (False, out, rs') \<Rightarrow> Some (False, out, c\<lparr>sc_queue := q_drop ?q, sc_closed := True\<rparr>, rs')) =
      Some (go, out, c', rs')" by (simp add: writer_step_def pop_drop)
  then obtain ok where w: "write_all rs (q_slots ?q ! q_tail ?q) = Some (ok, out, rs')"
    and c': "sc_queue c' = q_drop ?q"
    by (auto split: option.splits bool.splits prod.splits)
  obtain rest where "q_slots ?q ! q_tail ?q = out @ rest"
    using write_all_prefix [OF w] by blast
  with assms(2,3) d c' show ?thesis by (auto intro: fg_inv)
qed

text \<open>The event feed has no line ends: whatever events were pushed to a client, the bytes its
  writer thread puts on the socket contain no newline (\<open>json_of\<close> adds none and \<open>dump()\<close> makes
  none), so the one-object-per-line protocol of the feed is never met.\<close>

theorem feed_has_no_newline:
  assumes "json_laws L" and "push_events L es (stream_client_new fd) = Returns c"
  shows "newline \<notin> set (writer_output n rs c)"
proof -
  have push: "q_inv (sc_queue c') \<and> list_all (\<lambda>l. newline \<notin> set l) (q_contents (sc_queue c'))"
    if "push_events L es c0 = Returns c'" "q_inv (sc_queue c0)"
      "list_all (\<lambda>l. newline \<notin> set l) (q_contents (sc_queue c0))" for c0 c'
    using that
  proof (induction es arbitrary: c0)
    case (Cons e es)
    then obtain c1 where c1: "client_push L e c0 = Returns c1" "push_events L es c1 = Returns c'"
      by (auto simp: obind_eq_Returns)
    have "q_inv (sc_queue c1) \<and> list_all (\<lambda>l. newline \<notin> set l) (q_contents (sc_queue c1))"
    proof (cases "sc_closed c0 \<or> q_full (sc_queue c0)")
      case True
      with c1(1) Cons.prems(2,3) show ?thesis
        by (auto simp: client_push_def obind_eq_Returns try_push_store split: if_splits)
    next
      case False
      with c1(1) obtain line where l: "json_of L e = Returns line" "sc_queue c1 = q_store line (sc_queue c0)"
        by (auto simp: client_push_def obind_eq_Returns try_push_store)
      from l(1) have "newline \<notin> set line" unfolding json_of_def by (rule dump_no_newline [OF assms(1)])
      with False l(2) Cons.prems(2,3) show ?thesis by (simp add: q_store_contents q_store_inv)
    qed
    with Cons.IH [OF c1(2)] show ?case by simp
  qed simp
  have "newline \<notin> set (writer_output n rs c')"
    if "q_inv (sc_queue c')" "list_all (\<lambda>l. newline \<notin> set l) (q_contents (sc_queue c'))" for c'
    using that
  proof (induction n arbitrary: rs c')
    case (Suc n)
    show ?case
    proof (cases "writer_step rs c'")
      case (Some r)
      obtain go out c1 rs1 where r: "r = (go, out, c1, rs1)" by (metis prod.exhaust)
      from writer_step_newline_free [OF Some [unfolded r] Suc.prems] have w: "newline \<notin> set out"
        "q_inv (sc_queue c1)" "list_all (\<lambda>l. newline \<notin> set l) (q_contents (sc_queue c1))" by auto
      from Suc.IH [OF w(2,3)] w(1) show ?thesis by (cases go) (simp_all add: Some r)
    qed simp
  qed simp
  with push [OF assms(2)] new_client_queue [of fd] show ?thesis by simp
qed

theorem feed_has_no_newline_witness:
  "\<exists>c. push_events log_lib [long_pid_event 7] (stream_client_new 3) = Returns c \<and>
     newline \<notin> set (writer_output 5 [Sent 1] c)"
proof -
  obtain c where "client_push log_lib (long_pid_event 7) (stream_client_new 3) = Returns c"
    using client_push_total [OF new_client_queue(1,2,4) log_lib_json_of] by blast
  then have c: "push_events log_lib [long_pid_event 7] (stream_client_new 3) = Returns c" by simp
  from feed_has_no_newline [OF log_lib_laws c] c show ?thesis by blast
qed

end
