(* ===== verification/Cli_Properties.thy ===== *)
theory Cli_Properties
  imports Cli Daemon_Properties
begin

text \<open>
  The properties of the command line client: argument parsing, the exchange with the daemon, and
  the event feed.
\<close>

section \<open>Arguments\<close>

lemma parse_serve_command: "parse_serve ts a = Inr b \<Longrightarrow> ca_command b = ca_command a"
  by (induction ts a rule: parse_serve.induct) (auto split: if_splits)

lemma parse_runtime_dir_command: "parse_runtime_dir what ts a = Inr b \<Longrightarrow> ca_command b = ca_command a"
  by (induction what ts a rule: parse_runtime_dir.induct) (auto split: if_splits)

lemma parse_events_command: "parse_events ts a = Inr b \<Longrightarrow> ca_command b = ca_command a"
  by (induction ts a rule: parse_events.induct) (auto split: if_splits)

lemma parse_policy_command:
  assumes "parse_policy ts a = Inr b"
  shows "ca_command b \<in> {''policy-validate'', ''policy-load'', ''policy-list''}"
proof (cases ts)
  case (Cons sub rest)
  with assms show ?thesis
    by (auto simp: parse_policy_def split: list.splits if_splits dest!: parse_runtime_dir_command)
qed (use assms in \<open>simp add: parse_policy_def\<close>)

lemma parse_cli_command:
  assumes "parse_cli root argv = Inr a"
  shows "ca_command a \<in> {''help'', ''version'', ''serve'', ''status'', ''events'', ''stop'',
    ''policy-validate'', ''policy-load'', ''policy-list''}"
proof (cases "drop 1 argv")
  case (Cons first ts)
  let ?a = "initial_args\<lparr>ca_runtime_dir := default_runtime_dir root\<rparr>"
  from assms consider
      "a = ?a\<lparr>ca_command := ''help''\<rparr>" | "a = ?a\<lparr>ca_command := ''version''\<rparr>"
    | "parse_serve ts (?a\<lparr>ca_command := ''serve''\<rparr>) = Inr a"
    | "parse_runtime_dir ''status'' ts (?a\<lparr>ca_command := ''status''\<rparr>) = Inr a"
    | "parse_events ts (?a\<lparr>ca_command := ''events''\<rparr>) = Inr a"
    | "parse_runtime_dir ''stop'' ts (?a\<lparr>ca_command := ''stop''\<rparr>) = Inr a"
    | "parse_policy ts ?a = Inr a"
    unfolding parse_cli_def Let_def Cons list.case by (metis Inl_Inr_False sum.inject(2))
  then show ?thesis
    by cases (auto dest!: parse_serve_command parse_runtime_dir_command parse_events_command
        parse_policy_command)
qed (use assms in \<open>simp add: parse_cli_def\<close>)

lemma parsed_dispatch:
  "parse_cli root argv = Inr a \<Longrightarrow> run_cli_dispatch a \<noteq> Unknown_command"
  using parse_cli_command [of root argv a] by (auto simp: run_cli_dispatch_def)

text \<open>Every accepted command line is runnable: what \<open>parse_cli\<close> returns dispatches to one of the
  nine subcommands, never to the ``unknown command'' branch of \<open>run_cli\<close>.\<close>

theorem parsed_command_runs:
  assumes "parse_cli root argv = Inr a"
  shows "run_cli_dispatch a \<noteq> Unknown_command"
  by (rule parsed_dispatch [OF assms])

theorem parsed_command_runs_witness:
  "\<exists>a. parse_cli False [''guardctl'', ''policy'', ''load'', ''p.json''] = Inr a \<and>
     run_cli_dispatch a \<noteq> Unknown_command"
proof -
  obtain a where a: "parse_cli False [''guardctl'', ''policy'', ''load'', ''p.json''] = Inr a"
    by (simp add: parse_cli_def parse_policy_def)
  from parsed_command_runs [OF a] a show ?thesis by blast
qed

text \<open>The command line that asks for given \<open>serve\<close> options.\<close>

definition serve_argv :: "cli_args \<Rightarrow> string list" where
  "serve_argv a = [''guardctl'', ''serve''] @ (if ca_daemonize a then [''--daemon''] else []) @
     [''--policy'', ca_policy_file a, ''--log'', ca_log_file a, ''--runtime-dir'', ca_runtime_dir a]"

text \<open>The \<open>serve\<close> options arrive: the command line for any combination of options parses to
  exactly these options, and the daemon configuration built from them has the policy, the log and
  the paths under the runtime directory, with console output only in the foreground.\<close>

theorem serve_options_roundtrip:
  "parse_cli root (serve_argv a) = Inr (initial_args\<lparr>ca_command := ''serve'',
      ca_daemonize := ca_daemonize a, ca_policy_file := ca_policy_file a,
      ca_log_file := ca_log_file a, ca_runtime_dir := ca_runtime_dir a\<rparr>) \<and>
   cc_policy_file (dc_controller (serve_config a)) = ca_policy_file a \<and>
   cc_json_log (dc_controller (serve_config a)) = ca_log_file a \<and>
   cc_console_output (dc_controller (serve_config a)) = (\<not> ca_daemonize a) \<and>
   dc_socket_path (serve_config a) = ca_runtime_dir a @ ''/fileguard.sock''"
  by (simp add: parse_cli_def serve_argv_def initial_args_def serve_config_def socket_path_def Let_def)

section \<open>Policies\<close>

text \<open>\<open>policy validate\<close> exits 0 exactly on the policies that the parser accepts and that compile
  on this machine, and then prints nothing on the error stream; otherwise it exits 1 with the
  message and no output (unless a JSON type error gets out).\<close>

theorem validate_exit_code:
  "(case run_policy_validate L fs R args of
      Throws m \<Rightarrow> from_file L fs (ca_policy_file args) = Throws m
    | Returns (code, out, errs) \<Rightarrow>
        if \<exists>p cp. from_file L fs (ca_policy_file args) = Returns (Inr p) \<and> compile R p = Inr cp
        then code = 0 \<and> errs = []
        else code = 1 \<and> out = [] \<and> (\<exists>e. errs = ''invalid policy: '' @ e @ [newline]))"
proof (cases "from_file L fs (ca_policy_file args)")
  case (Throws m)
  then show ?thesis by (simp add: run_policy_validate_def)
next
  case (Returns r)
  show ?thesis
  proof (cases r)
    case (Inr p)
    then show ?thesis using Returns by (cases "compile R p") (simp_all add: run_policy_validate_def)
  qed (simp add: run_policy_validate_def Returns)
qed

section \<open>The exchange\<close>

lemma takeWhile_line: "newline \<notin> set a \<Longrightarrow> takeWhile (\<lambda>c. c \<noteq> newline) (a @ newline # b) = a"
  by (induction a) auto

lemma recv_line_prefix:
  "newline \<notin> set line \<Longrightarrow> line @ concat chunks = l @ newline # rest \<Longrightarrow> newline \<notin> set l \<Longrightarrow>
     length (line @ concat chunks) \<le> 2 ^ 20 \<Longrightarrow>
     takeWhile (\<lambda>c. c \<noteq> newline) (recv_line chunks line) = l"
proof (induction chunks arbitrary: line)
  case Nil
  then have "newline \<in> set line" by simp
  with Nil.prems show ?case by simp
next
  case (Cons chunk chunks)
  show ?case
  proof (cases "newline \<in> set (line @ chunk)")
    case True
    then obtain a b where ab: "line @ chunk = a @ newline # b" "newline \<notin> set a"
      by (meson split_list_first)
    have "a @ newline # (b @ concat chunks) = (line @ chunk) @ concat chunks" using ab(1) by simp
    with Cons.prems(2) have "a @ newline # (b @ concat chunks) = l @ newline # rest" by simp
    from split_at_first [OF this ab(2) Cons.prems(3)] have "a = l" by simp
    moreover have "takeWhile (\<lambda>c. c \<noteq> newline) (line @ chunk) = a"
      using ab takeWhile_line by simp
    moreover have "recv_line (chunk # chunks) line = line @ chunk"
      using Cons.prems(1,4) True by (cases chunks) auto
    ultimately show ?thesis by simp
  next
    case False
    then have "takeWhile (\<lambda>c. c \<noteq> newline) (recv_line chunks (line @ chunk)) = l"
      using Cons.prems by (intro Cons.IH) auto
    with Cons.prems(1,4) show ?thesis by auto
  qed
qed

lemma request_answered:
  assumes "json_laws L" and "daemon_connect X sock = Inr ()" and "jl_dump L req = Returns text"
    and "send_loop (ex_sends X) (text @ [newline]) = Some None"
    and "built L answer" and "jl_dump L answer = Returns s"
    and "concat (ex_chunks X) = s @ newline # rest" and "length (concat (ex_chunks X)) \<le> 2 ^ 20"
  shows "request_json L X sock req = Some (Returns (Inr answer))"
proof -
  have "takeWhile (\<lambda>c. c \<noteq> newline) (recv_line (ex_chunks X) []) = s"
    using assms(7,8) dump_no_newline [OF assms(1,6)] by (intro recv_line_prefix) simp_all
  then show ?thesis
    using assms(2-4) dump_nonempty [OF assms(1,6)] parse_dump [OF assms(1,5,6)]
    by (simp add: request_json_def)
qed

text \<open>The client reads the daemon's answer: however the reply line is cut into chunks and whatever
  follows it, if the daemon wrote the text of a value it built and at most 1 MiB arrived,
  \<open>request_json\<close> returns that value.\<close>

theorem request_gets_answer:
  assumes "json_laws L" and "daemon_connect X sock = Inr ()" and "jl_dump L req = Returns text"
    and "send_loop (ex_sends X) (text @ [newline]) = Some None"
    and "built L answer" and "jl_dump L answer = Returns s"
    and "concat (ex_chunks X) = s @ newline # rest" and "length (concat (ex_chunks X)) \<le> 2 ^ 20"
  shows "request_json L X sock req = Some (Returns (Inr answer))"
  by (rule request_answered [OF assms])

definition demo_exchange :: exchange where
  "demo_exchange = \<lparr>ex_exists = True, ex_socket = None, ex_connect = None, ex_sends = [Sent 2],
     ex_strerror = (\<lambda>_. ''error''), ex_chunks = [''a'', [newline], ''xyz'']\<rparr>"

definition ack_json :: "'j json_lib \<Rightarrow> 'j" where
  "ack_json L = jl_object L [(''ok'', jl_bool L True), (''stream'', jl_bool L True)]"

lemma ack_built: "built L (ack_json L)"
  by (auto simp: ack_json_def intro!: built.intros)

lemma wire_ack: "jl_dump wire_lib (ack_json wire_lib) = Returns ''a''"
  by (simp add: wire_lib_def demo_json_lib_def ack_json_def status_req_def)

theorem request_gets_answer_witness:
  "request_json wire_lib demo_exchange ''/s'' (DNumber 7) = Some (Returns (Inr (ack_json wire_lib)))"
proof (rule request_gets_answer [OF wire_lib_laws _ _ _ ack_built wire_ack])
  show "daemon_connect demo_exchange ''/s'' = Inr ()" by (simp add: daemon_connect_def demo_exchange_def)
  show "jl_dump wire_lib (DNumber 7) = Returns ''n''"
    by (simp add: wire_lib_def demo_json_lib_def status_req_def)
  show "send_loop (ex_sends demo_exchange) (''n'' @ [newline]) = Some None"
    by (simp add: demo_exchange_def)
  show "concat (ex_chunks demo_exchange) = ''a'' @ newline # ''xyz''" by (simp add: demo_exchange_def)
  show "length (concat (ex_chunks demo_exchange)) \<le> 2 ^ 20" by (simp add: demo_exchange_def)
qed

section \<open>Loading a policy from the command line\<close>

definition load_req :: "'j json_lib \<Rightarrow> policy \<Rightarrow> 'j" where
  "load_req L p = jl_object L [(''cmd'', jl_string L ''load_policy''), (''policy'', policy_json L p)]"

definition load_answer :: "'j json_lib \<Rightarrow> policy \<Rightarrow> unit result \<Rightarrow> 'j" where
  "load_answer L p r = (case r of Inl e \<Rightarrow> error_json L e
     | Inr _ \<Rightarrow> jl_object L [(''ok'', jl_bool L True), (''policy_version'', jl_number L (sint (pol_version p)))])"

lemma load_built: "built L (policy_json L p)" "built L (load_req L p)" "built L (load_answer L p r)"
  by (auto simp: policy_json_def resource_json_def rule_json_def operation_json_def load_req_def load_answer_def
      error_json_def split: option.splits sum.splits intro!: built.intros)

text \<open>The line of a request to load a document, and the daemon's reply to it.\<close>

lemma handle_doc_line:
  assumes "json_laws L" and "jl_is_object L doc" and "jl_dump L doc = Returns t"
    and "from_json L t = Returns (Inr p)" and "load_policy ops R (Some p) (d_controller d) = Some (r, c)"
    and "jl_parse L line = Inr (jl_object L [(''cmd'', jl_string L ''load_policy''), (''policy'', doc)])"
  shows "handle_line ops L R line d = Some (case jl_dump L (load_answer L p r) of
    Returns s \<Rightarrow> Replied (s @ [newline]) | Throws m \<Rightarrow> Crashed m, d\<lparr>d_controller := c\<rparr>)"
proof -
  let ?req = "jl_object L [(''cmd'', jl_string L ''load_policy''), (''policy'', doc)]"
  have "handle_request ops L R ?req d = Some (Returns (load_answer L p r), d\<lparr>d_controller := c\<rparr>)"
    using handle_load_doc [OF assms(1-5)] by (simp add: load_answer_def)
  moreover have "jl_value_string L ?req ''cmd'' [] = Returns ''load_policy''"
    by (rule value_object(1) [OF assms(1)]) simp_all
  ultimately show ?thesis by (simp add: handle_line_def assms(6))
qed

lemma handle_load_line:
  assumes "json_laws L" and "expressible p" and "jl_dump L (policy_json L p) = Returns t"
    and "load_policy ops R (Some p) (d_controller d) = Some (r, c)"
    and "jl_dump L (load_req L p) = Returns line" and "jl_dump L (load_answer L p r) = Returns s"
  shows "handle_line ops L R line d = Some (Replied (s @ [newline]), d\<lparr>d_controller := c\<rparr>)"
proof -
  have "jl_is_object L (policy_json L p)" by (simp add: policy_json_def structure_simps(4) [OF assms(1)])
  from handle_doc_line [OF assms(1) this assms(3) _ assms(4), of line]
    from_json_policy_json [OF assms(1,2) parse_dump [OF assms(1) load_built(1) assms(3)]]
    parse_dump [OF assms(1) load_built(2) assms(5)] assms(6)
  show ?thesis by (simp add: load_req_def)
qed

lemma load_answer_read:
  assumes "json_laws L"
  shows "jl_value_bool L (load_answer L p r) ''ok'' False = Returns (r = Inr ())"
    and "r = Inr () \<Longrightarrow> jl_value_int L (load_answer L p r) ''policy_version'' 0 = Returns (pol_version p)"
    and "r = Inl e \<Longrightarrow> jl_value_string L (load_answer L p r) ''error'' [] = Returns e"
proof -
  show "jl_value_bool L (load_answer L p r) ''ok'' False = Returns (r = Inr ())"
    using ok_member [OF assms] error_json_ok [OF assms] by (cases r) (simp_all add: load_answer_def)
  show "jl_value_int L (load_answer L p r) ''policy_version'' 0 = Returns (pol_version p)" if "r = Inr ()"
    using that by (simp add: load_answer_def) (rule value_object(2) [OF assms], simp_all)
  show "jl_value_string L (load_answer L p r) ''error'' [] = Returns e" if "r = Inl e"
    using that by (simp add: load_answer_def error_json_def) (rule value_object(1) [OF assms], simp_all)
qed

text \<open>A document that was accepted is accepted again, as the same policy, when its value is written out.\<close>

lemma from_json_again:
  assumes "reread_law L" and "from_json L t = Returns (Inr p)" and "jl_parse L t = Inr doc" and "jl_dump L doc = Returns u"
  shows "jl_is_object L doc \<and> from_json L u = Returns (Inr p)"
proof -
  have "jl_parse L u = Inr doc" using assms(1,4) handled_parsed [OF assms(3)] unfolding reread_law_def by blast
  with assms(2,3) show ?thesis by (simp add: from_json_def split: if_splits)
qed

text \<open>C32. \<open>guardctl policy load\<close> reports what the daemon did, for a file with any text that the parser
  accepts as a policy and that compiles locally, while the daemon's socket exists and the file does
  not change between its two reads. If the request cannot be delivered (no connection, a failing
  \<open>send\<close>), the command exits with code 1 and prints nothing. If it is delivered and the daemon's whole
  reply (at most 1 MiB) arrives, in any chunks, then the daemon has called \<open>load_policy\<close> with exactly that policy and
  is left with its controller, and the command prints the loaded version with exit code 0 if the load
  succeeded and the controller's error with exit code 1 if not.\<close>

theorem policy_load_reports:
  assumes "json_laws L" and "reread_law L" and "fs (ca_policy_file args) = Some (t, False)" and "from_json L t = Returns (Inr p)"
    and "compile R p = Inr cp" and "ex_exists X" and "jl_parse L t = Inr doc" and "jl_dump L doc = Returns u"
    and "jl_dump L (jl_object L [(''cmd'', jl_string L ''load_policy''), (''policy'', doc)]) = Returns line"
    and "send_loop (ex_sends X) (line @ [newline]) \<noteq> None"
    and "handle_line ops L R' line d = Some (Replied reply, d')"
    and "concat (ex_chunks X) = reply" and "length reply \<le> 2 ^ 20"
  shows "if daemon_connect X (socket_path (ca_runtime_dir args)) = Inr () \<and> send_loop (ex_sends X) (line @ [newline]) = Some None
    then \<exists>r. load_policy ops R' (Some p) (d_controller d) = Some (r, d_controller d') \<and>
      run_policy_load L fs fs R X args = Some (Returns (Load_exit (case r of
          Inr _ \<Rightarrow> (0, ''policy loaded (version '' @ show_int (sint (pol_version p)) @ '')'' @ [newline], [])
        | Inl e \<Rightarrow> (1, [], ''policy rejected: '' @ e @ [newline]))))
    else run_policy_load L fs fs R X args = Some (Returns (Load_exit (1, [], [])))"
proof -
  let ?req = "jl_object L [(''cmd'', jl_string L ''load_policy''), (''policy'', doc)]"
  let ?sock = "socket_path (ca_runtime_dir args)"
  have loaded: "from_file L fs (ca_policy_file args) = Returns (Inr p)" using assms(3,4) by (simp add: from_file_def)
  from from_json_again [OF assms(2,4,7,8)] have doc: "jl_is_object L doc" "from_json L u = Returns (Inr p)" by simp_all
  have "handled L ?req" using handled_parsed [OF assms(7)] handled_built [OF built_string, of L]
    by (intro handled_object) simp_all
  then have sent: "jl_parse L line = Inr ?req" using assms(2,9) unfolding reread_law_def by blast
  have run: "run_policy_load L fs fs R X args = (case request_json L X ?sock ?req of
      None \<Rightarrow> None
    | Some (Throws m) \<Rightarrow> Some (Throws m)
    | Some (Returns (Inl _)) \<Rightarrow> Some (Returns (Load_exit (1, [], [])))
    | Some (Returns (Inr resp)) \<Rightarrow> Some (obind (jl_value_bool L resp ''ok'' False) (\<lambda>ok.
        if ok then obind (jl_value_int L resp ''policy_version'' 0) (\<lambda>v.
          Returns (Load_exit (0, ''policy loaded (version '' @ show_int (sint v) @ '')'' @ [newline], [])))
        else obind (jl_value_string L resp ''error'' []) (\<lambda>e.
          Returns (Load_exit (1, [], ''policy rejected: '' @ e @ [newline]))))))"
    by (simp add: run_policy_load_def loaded assms(3,5-7))
  show ?thesis
  proof (cases "daemon_connect X ?sock = Inr () \<and> send_loop (ex_sends X) (line @ [newline]) = Some None")
    case False
    with assms(9,10) have "\<exists>e. request_json L X ?sock ?req = Some (Returns (Inl e))"
      by (auto simp: request_json_def split: sum.splits)
    with False run show ?thesis by auto
  next
    case True
    from assms(11) doc obtain r c where lp: "load_policy ops R' (Some p) (d_controller d) = Some (r, c)"
    proof (cases "load_policy ops R' (Some p) (d_controller d)")
      case None
      have "jl_value_string L ?req ''cmd'' [] = Returns ''load_policy''"
        by (rule value_object(1) [OF assms(1)]) simp_all
      moreover have "jl_find L ?req ''policy'' = Some doc" using structure_simps(5) [OF assms(1)] by simp
      ultimately have "handle_line ops L R' line d = None"
        using None sent doc assms(8) by (simp add: handle_line_def handle_request_def handle_load_def)
      with assms(11) show thesis by simp
    qed auto
    from handle_doc_line [OF assms(1) doc(1) assms(8) doc(2) lp sent] assms(11) obtain s where
      s: "jl_dump L (load_answer L p r) = Returns s" "reply = s @ [newline]" "d_controller d' = c"
      by (auto split: outcome.splits)
    have "request_json L X ?sock ?req = Some (Returns (Inr (load_answer L p r)))"
      by (rule request_answered [OF assms(1) _ assms(9) _ load_built(3) s(1), of _ _ "[]"]) (use True assms(12,13) s(2) in simp_all)
    with True run lp s(3) load_answer_read [where p = p and r = r, OF assms(1)] show ?thesis by (cases r) simp_all
  qed
qed

definition load_lib :: "demo_json json_lib" where
  "load_lib = (let base = demo_json_lib [] in demo_json_lib [(''d'', policy_json base sample_policy),
     (''r'', load_req base sample_policy), (''a'', load_answer base sample_policy (Inr ()))])"

lemma load_lib_laws: "json_laws load_lib"
  unfolding load_lib_def Let_def
  by (rule demo_json_laws [THEN conjunct1])
     (simp add: demo_table_ok_def policy_json_def load_req_def load_answer_def demo_json_lib_def)

lemma load_lib_reread: "reread_law load_lib"
  unfolding load_lib_def Let_def
  by (rule demo_reread) (simp add: demo_table_ok_def policy_json_def load_req_def load_answer_def demo_json_lib_def)

lemma load_lib_dump:
  "jl_dump load_lib (policy_json load_lib sample_policy) = Returns ''d''"
  "jl_dump load_lib (load_req load_lib sample_policy) = Returns ''r''"
  "jl_dump load_lib (load_answer load_lib sample_policy (Inr ())) = Returns ''a''"
  by (simp_all add: load_lib_def Let_def policy_json_def resource_json_def rule_json_def operation_json_def
      load_req_def load_answer_def demo_json_lib_def sample_policy_def)

definition load_daemon :: "null_enforcer daemon" where
  "load_daemon = \<lparr>d_cfg = \<lparr>dc_controller = default_controller_config, dc_socket_path = ''/s'', dc_pid_file = []\<rparr>,
     d_controller = \<lparr>ct_cfg = default_controller_config, ct_policy_manager = pm_new,
       ct_enforcer = Some \<lparr>ne_config = default_enforcer_config, ne_status = initial_status\<rparr>, ct_resolver = None,
       ct_queue = \<lparr>q_slots = [empty_event, empty_event], q_head = 0, q_tail = 0, q_stop = False\<rparr>,
       ct_sinks = [], ct_boot_offset_ns = 0, ct_clients = [], ct_client_store = (\<lambda>_. stream_client_new 3),
       ct_started = True, ct_ring_thread = True, ct_consumer_thread = True\<rparr>,
     d_running = True, d_stream_clients = []\<rparr>"

theorem policy_load_reports_witness:
  "\<exists>d'. handle_line null_ops load_lib demo_resolver ''r'' load_daemon = Some (Replied (''a'' @ [newline]), d') \<and>
     pm_current (ct_policy_manager (d_controller d')) = Some sample_policy \<and>
     run_policy_load load_lib (\<lambda>_. Some (''d'', False)) (\<lambda>_. Some (''d'', False)) demo_resolver
       (demo_exchange\<lparr>ex_chunks := [''a'', [newline]]\<rparr>) initial_args =
     Some (Returns (Load_exit (0, ''policy loaded (version 3)'' @ [newline], [])))"
proof -
  let ?X = "demo_exchange\<lparr>ex_chunks := [''a'', [newline]]\<rparr>"
  have loaded: "\<exists>c. load_policy null_ops demo_resolver (Some sample_policy) (d_controller load_daemon) = Some (Inr (), c) \<and>
      pm_current (ct_policy_manager c) = Some sample_policy"
    by (simp add: load_policy_def compile_def sample_policy_def validate_def demo_resolver_def file_id_valid_def
        load_apply_def load_daemon_def null_ops_def null_apply_policy_def load_install_def load_resolver_def)
  then obtain c where c: "load_policy null_ops demo_resolver (Some sample_policy) (d_controller load_daemon) = Some (Inr (), c)"
    "pm_current (ct_policy_manager c) = Some sample_policy" by blast
  obtain cp where cp: "compile demo_resolver sample_policy = Inr cp"
    by (simp add: compile_def sample_policy_def validate_def demo_resolver_def file_id_valid_def)
  note line = handle_load_line [OF load_lib_laws sample_expressible load_lib_dump(1) c(1) load_lib_dump(2,3)]
  have "daemon_connect ?X (socket_path (ca_runtime_dir initial_args)) = Inr ()"
    "send_loop (ex_sends ?X) (''r'' @ [newline]) = Some None"
    by (simp_all add: daemon_connect_def demo_exchange_def)
  moreover have doc: "jl_parse load_lib ''d'' = Inr (policy_json load_lib sample_policy)"
    by (rule parse_dump [OF load_lib_laws load_built(1) load_lib_dump(1)])
  moreover note policy_load_reports [OF load_lib_laws load_lib_reread _ from_json_policy_json [OF load_lib_laws sample_expressible doc] cp _ doc
      load_lib_dump(1) load_lib_dump(2) [unfolded load_req_def] _ line, of "\<lambda>_. Some (''d'', False)" initial_args ?X]
  ultimately have "run_policy_load load_lib (\<lambda>_. Some (''d'', False)) (\<lambda>_. Some (''d'', False)) demo_resolver ?X initial_args =
      Some (Returns (Load_exit (0, ''policy loaded (version '' @ show_int 3 @ '')'' @ [newline], [])))"
    using c(1) by (simp add: sample_policy_def demo_exchange_def)
  moreover have "show_int 3 = ''3''" by code_simp
  ultimately show ?thesis using line c(2) by (intro exI [of _ "load_daemon\<lparr>d_controller := c\<rparr>"]) simp
qed

section \<open>Events\<close>

text \<open>C34. Events survive the wire: reading back the object that the sinks and the daemon write gives
  the same event, for every event with a named operation, action and reason.\<close>

theorem event_json_roundtrip:
  assumes "json_laws L" and "se_operation e = Open" and "named_action (se_action e)"
    and "se_reason e \<in> {PolicyRule, DefaultDeny, UnknownProcess, ResourceUnprotected}"
  shows "event_from_json L (event_json L e) = Returns e"
proof -
  let ?j = "event_json L e"
  note vs = value_object(1) [OF assms(1)] and vu = value_object(3) [OF assms(1)]
  have "jl_value_string L ?j ''timestamp'' d = Returns (se_timestamp e)"
    "jl_value_string L ?j ''comm'' d = Returns (se_comm e)"
    "jl_value_string L ?j ''process'' d = Returns (se_process_path e)"
    "jl_value_string L ?j ''resource'' d = Returns (se_resource_path e)"
    "jl_value_string L ?j ''operation'' d = Returns (operation_name (se_operation e))"
    "jl_value_string L ?j ''action'' d = Returns (action_name (se_action e))"
    "jl_value_string L ?j ''reason'' d = Returns (reason_name (se_reason e))" for d
    unfolding event_json_def by (rule vs; simp)+
  moreover have "jl_value_uint L ?j ''pid'' 0 = Returns (se_pid e)"
    "jl_value_uint L ?j ''tgid'' 0 = Returns (se_tgid e)"
    "jl_value_uint L ?j ''uid'' 0 = Returns (se_uid e)"
    "jl_value_uint L ?j ''gid'' 0 = Returns (se_gid e)"
    "jl_value_uint L ?j ''rule_id'' 0 = Returns (se_rule_id e)"
    unfolding event_json_def by (rule vu; simp)+
  moreover have "operation_from_name (operation_name (se_operation e)) = se_operation e"
    "action_from_name (action_name (se_action e)) = se_action e"
    "reason_from_name (reason_name (se_reason e)) = se_reason e"
    using assms(2-4) by (auto simp: operation_from_name_def action_from_name_def named_action_def
        reason_from_name_def)
  ultimately show ?thesis by (simp add: event_from_json_def)
qed

theorem event_json_roundtrip_witness:
  "event_from_json log_lib (event_json log_lib (long_pid_event 7)) = Returns (long_pid_event 7)"
  by (rule event_json_roundtrip [OF log_lib_laws]) (simp_all add: long_pid_event_def named_action_def)

lemma event_lines_ack:
  assumes "json_laws L" "jl_dump L (ack_json L) = Returns s" "newline \<notin> set tail"
  shows "event_lines L t (s @ newline # tail) f = Returns (f\<lparr>fd_pending := tail\<rparr>)"
proof -
  have "jl_find L (ack_json L) ''event'' = None"
    unfolding ack_json_def by (subst structure_simps(5) [OF assms(1)]) simp_all
  moreover have "jl_value_bool L (ack_json L) ''ok'' False = Returns True"
    unfolding ack_json_def by (rule ok_member [OF assms(1)]) simp
  moreover have "event_lines L t tail f = Returns (f\<lparr>fd_pending := tail\<rparr>)"
    using assms(3) by (subst event_lines.simps) (simp add: cut_line_None [THEN iffD2])
  ultimately show ?thesis
    using parse_dump [OF assms(1) ack_built assms(2)] dump_no_newline [OF assms(1,2)]
      dump_nonempty [OF assms(1,2)]
    by (subst event_lines.simps) (simp add: cut_line_append event_line_def)
qed

lemma events_loop_pending:
  "newline \<notin> set (fd_pending f @ concat chunks) \<Longrightarrow>
     \<exists>p. events_loop L t count chunks f = Returns (f\<lparr>fd_pending := p\<rparr>)"
proof (induction chunks arbitrary: f)
  case Nil
  then show ?case by (intro exI [of _ "fd_pending f"]) simp
next
  case (Cons chunk chunks)
  have one: "event_lines L t (fd_pending f @ chunk) f = Returns (f\<lparr>fd_pending := fd_pending f @ chunk\<rparr>)"
    using Cons.prems by (subst event_lines.simps) (simp add: cut_line_None [THEN iffD2])
  show ?case
  proof (cases "sint count < 0 \<or> sint (fd_seen f) < sint count")
    case True
    from Cons.IH [of "f\<lparr>fd_pending := fd_pending f @ chunk\<rparr>"] Cons.prems obtain p where
      "events_loop L t count chunks (f\<lparr>fd_pending := fd_pending f @ chunk\<rparr>) = Returns (f\<lparr>fd_pending := p\<rparr>)"
      by auto
    with True one show ?thesis by auto
  next
    case False
    then show ?thesis by (intro exI [of _ "fd_pending f"]) simp
  qed
qed

text \<open>\<open>guardctl events\<close> never shows an event of this daemon: the feed after the acknowledgment
  line has no line end (\<open>feed_has_no_newline\<close>), and on such input the command prints nothing on
  standard output and ends with ``0 event(s)'', however many events were sent.\<close>

theorem events_shows_nothing:
  assumes "json_laws L" and "daemon_connect X (socket_path (ca_runtime_dir args)) = Inr ()"
    and "jl_dump L (jl_object L [(''cmd'', jl_string L ''stream''), (''json'', jl_bool L (ca_json_output args))])
      = Returns req"
    and "jl_dump L (ack_json L) = Returns s" and "ex_chunks X = (s @ [newline]) # feed"
    and "newline \<notin> set (concat feed)"
  shows "\<exists>errs. run_events L X args = Returns (0, [], errs)"
proof -
  let ?f = "\<lparr>fd_pending = [], fd_seen = 0, fd_table = console_new, fd_out = [], fd_err = []\<rparr> :: feed"
  have ack: "event_lines L t (s @ [newline]) ?f = Returns (?f\<lparr>fd_pending := []\<rparr>)" for t
    using event_lines_ack [OF assms(1,4), of "[]" t ?f] by simp
  let ?t = "\<not> ca_json_output args" and ?count = "ca_event_count args"
  have start: "events_loop L ?t ?count (ex_chunks X) ?f =
      (if sint ?count < 0 \<or> 0 < sint ?count then events_loop L ?t ?count feed ?f else Returns ?f)"
    using ack [of ?t] by (simp add: assms(5))
  obtain p where "events_loop L ?t ?count feed ?f = Returns (?f\<lparr>fd_pending := p\<rparr>)"
    using events_loop_pending [of ?f feed L ?t ?count] assms(6) by auto
  with start have "\<exists>q. events_loop L ?t ?count (ex_chunks X) ?f = Returns (?f\<lparr>fd_pending := q\<rparr>)"
    by auto
  then show ?thesis
    using assms(2,3) by (auto simp: run_events_def console_new_def)
qed

definition feed_args :: cli_args where
  "feed_args = initial_args\<lparr>ca_command := ''events''\<rparr>"

definition feed_lib :: "demo_json json_lib" where
  "feed_lib = demo_json_lib [(''q'', DObject [(''cmd'', DString ''stream''), (''json'', DBool False)]),
     (''a'', DObject [(''ok'', DBool True), (''stream'', DBool True)])]"

lemma feed_lib_laws: "json_laws feed_lib"
  using demo_json_laws [of "[(''q'', DObject [(''cmd'', DString ''stream''), (''json'', DBool False)]),
     (''a'', DObject [(''ok'', DBool True), (''stream'', DBool True)])]"]
  by (simp add: feed_lib_def demo_table_ok_def)

theorem events_shows_nothing_witness:
  "\<exists>errs. run_events feed_lib (demo_exchange\<lparr>ex_chunks := [''a'' @ [newline], ''xyz'', ''xyz'']\<rparr>) feed_args =
     Returns (0, [], errs)"
proof (rule events_shows_nothing [OF feed_lib_laws, where feed = "[''xyz'', ''xyz'']"])
  show "daemon_connect (demo_exchange\<lparr>ex_chunks := [''a'' @ [newline], ''xyz'', ''xyz'']\<rparr>)
      (socket_path (ca_runtime_dir feed_args)) = Inr ()"
    by (simp add: daemon_connect_def demo_exchange_def)
  show "jl_dump feed_lib (jl_object feed_lib [(''cmd'', jl_string feed_lib ''stream''),
      (''json'', jl_bool feed_lib (ca_json_output feed_args))]) = Returns ''q''"
    by (simp add: feed_lib_def demo_json_lib_def feed_args_def initial_args_def)
  show "jl_dump feed_lib (ack_json feed_lib) = Returns ''a''"
    by (simp add: feed_lib_def demo_json_lib_def ack_json_def)
qed simp_all

section \<open>Exit codes\<close>

text \<open>Every subcommand that exits does so with 0 or 1.\<close>

named_theorems exit_codes

lemma validate_exit [exit_codes]:
  assumes "run_policy_validate L fs R args = Returns (code, out, errs)"
  shows "code \<in> {0, 1}"
proof -
  from assms obtain r where r: "from_file L fs (ca_policy_file args) = Returns r"
    by (auto simp: run_policy_validate_def obind_eq_Returns)
  show ?thesis
  proof (cases r)
    case (Inl e)
    with assms r show ?thesis by (simp add: run_policy_validate_def)
  next
    case (Inr p)
    with assms r show ?thesis by (cases "compile R p") (simp_all add: run_policy_validate_def)
  qed
qed

lemma load_exit [exit_codes]:
  "run_policy_load L fs fs_later R X args = Some (Returns (Load_exit (code, out, errs))) \<Longrightarrow> code \<in> {0, 1}"
  by (auto simp: run_policy_load_def Let_def obind_eq_Returns split: outcome.splits sum.splits option.splits if_splits)

lemma list_exit [exit_codes]: "run_policy_list L X args = Some (Returns (code, out, errs)) \<Longrightarrow> code \<in> {0, 1}"
  by (clarsimp simp: run_policy_list_def obind_eq_Returns) (auto simp: obind_eq_Returns split: sum.split_asm if_split_asm)

lemma status_exit [exit_codes]: "run_status L X args = Some (Returns (code, out, errs)) \<Longrightarrow> code \<in> {0, 1}"
  by (clarsimp simp: run_status_def obind_eq_Returns) (auto simp: obind_eq_Returns split: sum.split_asm prod.split_asm)

lemma events_exit [exit_codes]: "run_events L X args = Returns (code, out, errs) \<Longrightarrow> code \<in> {0, 1}"
  by (auto simp: run_events_def obind_eq_Returns split: sum.splits)

lemma stop_exit [exit_codes]: "run_stop L X args = Some (Returns (code, out, errs)) \<Longrightarrow> code \<in> {0, 1}"
  by (clarsimp simp: run_stop_def obind_eq_Returns) (auto simp: obind_eq_Returns split: sum.split_asm)

lemma run_cli_exit:
  assumes "run_cli L fs fs_later R X args = Some (Returns (Cli_exit (code, out, errs)))"
  shows "code \<in> {0, 1}"
  using assms
  by (cases "run_cli_dispatch args")
     (clarsimp simp: run_cli_def exits_def obind_eq_Returns;
      auto split: load_run.split_asm dest: exit_codes)+

text \<open>The exit codes of \<open>guardctl\<close> tell usage errors from failures: a run that exits (and does not go
  on as the server) has code 0, 1 or 2, and code 2 exactly when the command line was refused;
  then it only prints the parser's message on standard error.\<close>

theorem guardctl_exit_codes:
  assumes "guardctl_main L fs fs_later R X root argv = Some (Returns (Cli_exit (code, out, errs)))"
  shows "code \<in> {0, 1, 2} \<and> (code = 2 \<longleftrightarrow> (\<exists>e. parse_cli root argv = Inl e)) \<and>
    (case parse_cli root argv of Inl e \<Rightarrow> out = [] \<and> errs = ''guardctl: '' @ e @ [newline]
     | Inr args \<Rightarrow> run_cli_dispatch args \<noteq> Unknown_command)"
proof (cases "parse_cli root argv")
  case (Inl e)
  with assms show ?thesis by (simp add: guardctl_main_def)
next
  case (Inr args)
  with assms run_cli_exit [of L fs fs_later R X args code out errs] parsed_dispatch [OF Inr] show ?thesis
    by (auto simp: guardctl_main_def)
qed

end
