(* ===== verification/Controller_Properties.thy ===== *)
theory Controller_Properties
  imports Controller_Facts
begin

text \<open>
  The properties of the controller: policy loading as a transaction, start and stop, the event
  pipeline down to the sinks, and the two weak points (concurrent loads, unprintable events).
\<close>

section \<open>Loading a policy\<close>

lemma load_policy_installed:
  assumes "bpf_laws B" and "ct_enforcer c = Some e"
    and "load_policy (linux_ops B env) R (Some p) c = Some (Inr (), c')"
  shows "\<exists>cp e'. compile R p = Inr cp \<and> ct_enforcer c' = Some e' \<and>
    view_of B (snapshot (le_maps e')) = installed_view cp \<and>
    pm_current (ct_policy_manager c') = Some p \<and> ct_resolver c' = Some (rebuild_resolver p cp) \<and>
    st_policy_version (controller_status (linux_ops B env) c') = pol_version p"
proof -
  from load_policy_Inr [OF assms(3)] obtain cp c1 where cp: "compile R p = Inr cp"
    and a: "load_apply (linux_ops B env) cp c = Some (Inr (), c1)"
    and c': "c' = (load_resolver p cp c1)\<lparr>ct_policy_manager := (ct_policy_manager c1)\<lparr>pm_current := Some p\<rparr>\<rparr>"
    by auto
  from a assms(2) obtain e' where e: "linux_apply_policy B e cp = Some (Inr (), e')" "ct_enforcer c1 = Some e'"
    by (auto simp: load_apply_def linux_ops_def backend_ops_def split: option.splits sum.splits)
  have "st_policy_version (controller_status (linux_ops B env) c') = pol_version p"
    using linux_backend.load_policy_status [OF assms(2,1), of env R p c'] assms(3)
    by (simp add: linux_ops_def)
  with cp e linux_apply_Inr [OF assms(1) e(1)] show ?thesis
    by (simp add: c' load_resolver_def)
qed

text \<open>C20. A successful \<open>load_policy\<close> on the Linux backend is a complete switch: the kernel holds
  exactly the compiled policy, the userspace policy and the reverse resolver are those of the
  same policy, and the status reports its version.\<close>

theorem load_policy_switches:
  assumes "bpf_laws B" and "ct_enforcer c = Some e"
    and "load_policy (linux_ops B env) R (Some p) c = Some (Inr (), c')"
  shows "\<exists>cp e'. compile R p = Inr cp \<and> ct_enforcer c' = Some e' \<and>
    view_of B (snapshot (le_maps e')) = installed_view cp \<and>
    pm_current (ct_policy_manager c') = Some p \<and> ct_resolver c' = Some (rebuild_resolver p cp) \<and>
    st_policy_version (controller_status (linux_ops B env) c') = pol_version p"
  using load_policy_installed [OF assms] .

definition controller_with :: "'e \<Rightarrow> ('e, unit) controller" where
  "controller_with e = \<lparr>ct_cfg = default_controller_config, ct_policy_manager = pm_new,
     ct_enforcer = Some e, ct_resolver = None,
     ct_queue = \<lparr>q_slots = [empty_event, empty_event, empty_event], q_head = 0, q_tail = 0, q_stop = False\<rparr>,
     ct_sinks = [Console_sink console_new], ct_boot_offset_ns = 0, ct_clients = [],
     ct_client_store = (\<lambda>_. ()), ct_started = True, ct_ring_thread = True, ct_consumer_thread = True\<rparr>"

definition small_policy :: policy where
  "small_policy = sample_policy\<lparr>pol_version := 5\<rparr>"

lemma small_policy_compiles: "compile demo_resolver small_policy = Inr (demo_compiled 300)"
  by (simp add: compile_def small_policy_def sample_policy_def validate_def demo_resolver_def
      demo_compiled_def file_id_valid_def)

lemma small_policy_valid: "validate small_policy = Inr ()"
  by (simp add: small_policy_def sample_policy_def validate_def)

lemma small_policy_version: "pol_version small_policy = 5"
  by (simp add: small_policy_def)

lemma demo_load:
  "load_policy (linux_ops demo_sys env) demo_resolver (Some small_policy) (controller_with demo_enforcer) =
     Some (Inr (), (controller_with (demo_enforcer' 300))\<lparr>
       ct_resolver := Some (rebuild_resolver small_policy (demo_compiled 300)),
       ct_policy_manager := \<lparr>pm_current = Some small_policy\<rparr>\<rparr>)"
  by (simp add: load_policy_def small_policy_compiles small_policy_valid load_apply_def controller_with_def
      linux_ops_def backend_ops_def demo_apply load_install_valid load_resolver_def pm_new_def)

theorem load_policy_switches_witness:
  "view_of demo_sys (snapshot (le_maps (demo_enforcer' 300))) = installed_view (demo_compiled 300) \<and>
   st_policy_version (linux_status demo_sys (demo_enforcer' 300)) = 5"
  using load_policy_switches [OF demo_sys_laws _ demo_load, of demo_enforcer]
  by (auto simp: controller_with_def small_policy_compiles controller_status_def linux_ops_def
      backend_ops_def small_policy_version)

text \<open>C21. \<open>load_policy\<close> always returns on the Linux backend, and an error leaves everything in
  userspace untouched: the current policy, the reverse resolver, the queue, the sinks and the
  clients are those from before the call (only the backend itself may have changed).\<close>

theorem load_policy_error_keeps:
  assumes "bpf_laws B"
  shows "\<exists>r c'. load_policy (linux_ops B env) R p c = Some (r, c') \<and>
    (r = Inr () \<or> c' = c\<lparr>ct_enforcer := ct_enforcer c'\<rparr>)"
proof -
  have "pred_option (\<lambda>e. bpf_laws B) (ct_enforcer c)" using assms by (simp add: pred_option_def)
  from linux_backend.load_policy_returns [OF this, of env R p] obtain r c' where
    l: "load_policy (linux_ops B env) R p c = Some (r, c')" by (auto simp: linux_ops_def)
  with load_policy_Inl [of "linux_ops B env" R p c _ c'] show ?thesis by (cases r) auto
qed

theorem load_policy_error_keeps_witness:
  "\<exists>r c'. load_policy (linux_ops demo_sys demo_env) (\<lambda>_. Inl ''no such file'') (Some small_policy)
      (controller_with demo_enforcer) = Some (r, c') \<and> r = Inl ''no such file'' \<and>
    pm_current (ct_policy_manager c') = None"
proof -
  have "load_policy (linux_ops demo_sys demo_env) (\<lambda>_. Inl ''no such file'') (Some small_policy)
      (controller_with demo_enforcer) = Some (Inl ''no such file'', controller_with demo_enforcer)"
    by (simp add: load_policy_def small_policy_valid)
       (simp add: compile_def small_policy_def sample_policy_def validate_def)
  with load_policy_error_keeps [OF demo_sys_laws, of demo_env "\<lambda>_. Inl ''no such file''" "Some small_policy"
      "controller_with demo_enforcer"]
  show ?thesis by (auto simp: controller_with_def pm_new_def)
qed

text \<open>Two loads that run at the same time can leave the system inconsistent: no lock spans the
  three effects, and in this interleaving the kernel side ends with the second policy while
  \<open>PolicyManager\<close> and the resolver end with the first.\<close>

theorem concurrent_loads_diverge:
  "let c0 = controller_with (null_new default_enforcer_config);
       second = small_policy\<lparr>pol_version := 6\<rparr>;
       cp1 = demo_compiled 300; cp2 = (demo_compiled 300)\<lparr>cp_version := 6\<rparr>
   in compile demo_resolver small_policy = Inr cp1 \<and> compile demo_resolver second = Inr cp2 \<and>
     (\<exists>c1 c2 c3 c4. load_apply null_ops cp1 c0 = Some (Inr (), c1) \<and>
        load_apply null_ops cp2 c1 = Some (Inr (), c2) \<and>
        load_install second (load_resolver second cp2 c2) = (Inr (), c3) \<and>
        load_install small_policy (load_resolver small_policy cp1 c3) = (Inr (), c4) \<and>
        st_policy_version (controller_status null_ops c4) = 6 \<and>
        pm_version (ct_policy_manager c4) = 5)"
  by (simp add: Let_def small_policy_compiles load_apply_def controller_with_def null_ops_def null_simps
      load_resolver_def load_install_def pm_install_def controller_status_def pm_version_def)
     (simp add: compile_def validate_def small_policy_def sample_policy_def demo_resolver_def
      demo_compiled_def file_id_valid_def null_simps null_new_def)

text \<open>Enrichment is sound: under the resolver that \<open>load_policy\<close> builds, the identity of every
  path of the policy is reported as a path of the policy that resolves to the same identity, and
  an identity the policy does not mention is reported as its device and inode numbers.\<close>

theorem resolver_reports_policy_paths:
  assumes "compile R p = Inr cp"
  shows "(if i \<in> resolved_id R ` policy_paths p
    then \<exists>path. path \<in> policy_paths p \<and> resolver_resolve (rebuild_resolver p cp) i = path \<and> resolved_id R path = i
    else resolver_resolve (rebuild_resolver p cp) i = file_id_to_string i)"
proof (cases "rebuild_resolver p cp i")
  case None
  then have "i \<notin> dom (rebuild_resolver p cp)" by auto
  with None show ?thesis
    using rebuild_resolver_compiled(2) [OF assms] by (simp add: resolver_resolve_def)
next
  case (Some s)
  then have "i \<in> dom (rebuild_resolver p cp)" by auto
  with Some show ?thesis
    using rebuild_resolver_compiled [OF assms] by (simp add: resolver_resolve_def)
qed

theorem resolver_reports_policy_paths_witness:
  "resolver_resolve (rebuild_resolver small_policy (demo_compiled 300)) (FileId 8 1 999) =
     file_id_to_string (FileId 8 1 999)"
  using resolver_reports_policy_paths [OF small_policy_compiles, of "FileId 8 1 999"]
  by (simp add: policy_paths_def protected_paths_def small_policy_def sample_policy_def
      resolved_id_def demo_resolver_def)

section \<open>The pipeline\<close>

text \<open>C27. Events reach the sinks: whatever the consumer had not yet taken when the stop is
  requested, the older events and then every event emitted since, enriched, is written to the
  sinks in order and nothing else is, and the queue ends empty (unless a sink throws, which ends
  the process).\<close>

theorem events_reach_sinks:
  assumes "emit_all fmt raws c = Some c1" and "q_inv (ct_queue c)" and "\<not> q_stop (ct_queue c)"
    and "ct_started c" and "ct_consumer_thread c"
    and "request_stop ops L K c1 = Some (Returns r, c')"
  shows "sinks_write_all L (q_contents (ct_queue c) @
      map (enrich fmt (ct_boot_offset_ns c) (ct_resolver c)) raws) (ct_sinks c) = (ct_sinks c', Returns ()) \<and>
    q_contents (ct_queue c') = []"
proof -
  from emit_all_contents [OF assms(1-3)] obtain q where q: "c1 = c\<lparr>ct_queue := q\<rparr>" "q_inv q"
    "q_contents q = q_contents (ct_queue c) @ map (enrich fmt (ct_boot_offset_ns c) (ct_resolver c)) raws"
    by blast
  let ?c = "c\<lparr>ct_started := False, ct_queue := queue_request_stop q\<rparr>"
  have stop: "q_inv (queue_request_stop q)" "q_stop (queue_request_stop q)"
    "q_contents (queue_request_stop q) = q_contents q"
    using q(2) by (simp_all add: q_inv_def queue_request_stop_def q_contents_def q_count_def)
  with consumer_loop_stopped [of ?c L K] obtain r1 c2 where
    loop: "consumer_loop (Suc (length (q_contents q))) L K ?c = Some (r1, c2)"
    and fin: "r1 = Returns () \<longrightarrow> q_contents (ct_queue c2) = [] \<and>
      sinks_write_all L (q_contents q) (ct_sinks c) = (ct_sinks c2, Returns ())"
    by auto
  from assms(4,5,6) loop stop(3) have "r1 = Returns ()"
    and "ct_queue c' = ct_queue c2 \<and> ct_sinks c' = ct_sinks c2"
    by (auto simp: request_stop_def q(1) Let_def split: outcome.splits option.splits sum.splits prod.splits
        simp del: consumer_loop.simps)
  with fin q(3) show ?thesis by simp
qed

definition demo_raw :: raw_event where
  "demo_raw = \<lparr>raw_timestamp_ns = 5000000, raw_pid = 7, raw_tgid = 7, raw_uid = 0, raw_gid = 0,
     raw_resource = FileId 8 1 100, raw_process = FileId 8 1 200, raw_rule_id = 0,
     raw_operation = Open, raw_action = Deny, raw_reason = DefaultDeny, raw_comm = ''cat''\<rparr>"

abbreviation demo_controller :: "(null_enforcer, unit) controller" where
  "demo_controller \<equiv> controller_with (null_new default_enforcer_config)"

definition no_clients :: "unit client_ops" where
  "no_clients = \<lparr>cl_closed = (\<lambda>_. True), cl_push = (\<lambda>e k. Returns k)\<rparr>"

lemma demo_controller_queue:
  "q_inv (ct_queue demo_controller)" "\<not> q_stop (ct_queue demo_controller)"
  "q_contents (ct_queue demo_controller) = []" "ct_started demo_controller"
  "ct_consumer_thread demo_controller" "ct_sinks demo_controller = [Console_sink console_new]"
  by (simp_all add: controller_with_def q_inv_def q_contents_def q_count_def)

lemma demo_emit: "\<exists>c1. emit_all demo_time [demo_raw] demo_controller = Some c1"
  by (simp add: controller_with_def emit_event_def Let_def push_def q_full_def q_next_def)

text \<open>Stopping returns on a valid queue.\<close>

lemma request_stop_returns:
  assumes "q_inv (ct_queue c)"
  shows "\<exists>r c'. request_stop ops L K c = Some (r, c')"
proof -
  let ?c = "c\<lparr>ct_started := False, ct_queue := queue_request_stop (ct_queue c)\<rparr>"
  have "q_inv (ct_queue ?c)" "q_stop (ct_queue ?c)"
    using assms by (simp_all add: q_inv_def queue_request_stop_def)
  from consumer_loop_stopped [OF this, of L K] obtain r1 c2 where
    "consumer_loop (Suc (length (q_contents (ct_queue ?c)))) L K ?c = Some (r1, c2)" by blast
  then show ?thesis
    by (cases r1; cases "ct_enforcer c2"; cases "ct_enforcer c"; cases "fst (op_detach ops (the (ct_enforcer c2)))";
        cases "fst (op_detach ops (the (ct_enforcer c)))")
       (auto simp: request_stop_def Let_def simp del: consumer_loop.simps split: prod.splits)
qed

theorem events_reach_sinks_witness:
  "\<exists>c1 c'. emit_all demo_time [demo_raw] demo_controller = Some c1 \<and>
     request_stop null_ops log_lib no_clients c1 = Some (Returns (Inr ()), c') \<and>
     sinks_write_all log_lib [enrich demo_time 0 None demo_raw] [Console_sink console_new] =
       (ct_sinks c', Returns ()) \<and>
     q_contents (ct_queue c') = []"
proof -
  obtain c1 where c1: "emit_all demo_time [demo_raw] demo_controller = Some c1" using demo_emit by blast
  have "\<exists>c'. request_stop null_ops log_lib no_clients c1 = Some (Returns (Inr ()), c')"
    using c1
    by (auto simp: controller_with_def emit_event_def Let_def push_def q_full_def q_next_def
        request_stop_def null_ops_def null_simps queue_request_stop_def consume_one_def pop_def
        q_empty_def q_contents_def q_count_def split: if_splits)
  then obtain c' where c': "request_stop null_ops log_lib no_clients c1 = Some (Returns (Inr ()), c')" ..
  from events_reach_sinks [OF c1 demo_controller_queue(1,2,4,5) c'] c1 c'
  show ?thesis by (auto simp: controller_with_def q_contents_def q_count_def)
qed

text \<open>Stopping the Linux backend's controller always succeeds when no sink throws: the controller
  is no longer started, nothing is attached or enforcing (the deployment is fail-open), and a
  second stop does nothing.\<close>

theorem stop_detaches:
  assumes "bpf_laws B" and "ct_started c" and "ct_enforcer c = Some e"
    and "q_inv (ct_queue c)" and "request_stop (linux_ops B env) L K c = Some (Returns r, c')"
  shows "r = Inr () \<and> \<not> ct_started c' \<and>
    \<not> st_attached (controller_status (linux_ops B env) c') \<and>
    \<not> st_enforcing (controller_status (linux_ops B env) c') \<and>
    request_stop (linux_ops B env) L K c' = Some (Returns (Inr ()), c')"
proof -
  let ?c = "c\<lparr>ct_started := False, ct_queue := queue_request_stop (ct_queue c)\<rparr>"
  have "q_inv (ct_queue ?c)" "q_stop (ct_queue ?c)"
    using assms(4) by (simp_all add: q_inv_def queue_request_stop_def)
  from consumer_loop_stopped [OF this, of L K] obtain r1 c2 where
    loop: "consumer_loop (Suc (length (q_contents (ct_queue ?c)))) L K ?c = Some (r1, c2)"
    and c2: "ct_enforcer c2 = Some e" "\<not> ct_started c2" using assms(3) by auto
  from linux_backend.detach_not_enforcing [OF assms(1), of e] obtain e' where
    d: "linux_detach e = (Inr (), e')" "\<not> st_enforcing (linux_status B e')" "\<not> st_attached (linux_status B e')"
    by blast
  from assms(5) loop c2 d(1) assms(2,3) have "r = Inr () \<and> \<not> ct_started c' \<and> ct_enforcer c' = Some e'"
    by (cases "ct_consumer_thread c"; cases r1)
       (auto simp: request_stop_def Let_def linux_ops_def backend_ops_def simp del: consumer_loop.simps)
  with d show ?thesis
    by (simp add: controller_status_def linux_ops_def backend_ops_def request_stop_def)
qed

theorem stop_detaches_witness:
  "\<exists>c'. request_stop (linux_ops demo_sys demo_env) log_lib no_clients (controller_with (demo_enforcer' 300)) =
      Some (Returns (Inr ()), c') \<and> \<not> st_enforcing (controller_status (linux_ops demo_sys demo_env) c')"
proof -
  let ?c = "controller_with (demo_enforcer' 300)"
  have "\<exists>c'. request_stop (linux_ops demo_sys demo_env) log_lib no_clients ?c = Some (Returns (Inr ()), c')"
    by (simp add: controller_with_def request_stop_def linux_ops_def backend_ops_def linux_detach_def Let_def
        queue_request_stop_def consume_one_def pop_def q_empty_def q_contents_def q_count_def)
  then obtain c' where c': "request_stop (linux_ops demo_sys demo_env) log_lib no_clients ?c = Some (Returns (Inr ()), c')" ..
  have "ct_started ?c" "ct_enforcer ?c = Some (demo_enforcer' 300)" "q_inv (ct_queue ?c)"
    by (simp_all add: controller_with_def q_inv_def)
  from stop_detaches [OF demo_sys_laws this c'] c' show ?thesis by blast
qed

lemma sinks_write_throws:
  "Json_sink out \<in> set ss \<Longrightarrow> jl_dump L (event_json L e) = Throws m \<Longrightarrow>
     \<exists>ss'. sinks_write L e ss = (ss', Throws m)"
proof (induction ss)
  case (Cons s ss)
  show ?case
  proof (cases s)
    case (Console_sink cs)
    with Cons show ?thesis by auto
  next
    case (Json_sink out')
    with Cons.prems show ?thesis by (simp add: json_write_def)
  qed
qed simp

text \<open>C36. An event that JSON cannot represent kills the pipeline: when a JSON sink is attached and
  \<open>dump()\<close> throws for the next event (a \<open>comm\<close> that is not UTF-8), the exception leaves
  \<open>consumer_loop\<close>, whatever the other sinks are, with the later events still queued.\<close>

theorem unprintable_event_throws:
  assumes "q_inv (ct_queue c)" and "q_contents (ct_queue c) = ev # rest"
    and "Json_sink out \<in> set (ct_sinks c)" and "jl_dump L (event_json L ev) = Throws m"
  shows "\<exists>c'. consumer_loop (Suc n) L K c = Some (Throws m, c') \<and> q_contents (ct_queue c') = rest"
proof -
  have ne: "\<not> q_empty (ct_queue c)" using assms(1,2) by (simp add: q_empty_iff)
  from q_drop_contents [OF assms(1) ne] assms(2) have
    "q_slots (ct_queue c) ! q_tail (ct_queue c) = ev" "q_contents (q_drop (ct_queue c)) = rest" by simp_all
  moreover obtain ss' where "sinks_write L ev (ct_sinks c) = (ss', Throws m)"
    using sinks_write_throws [OF assms(3,4)] by blast
  ultimately show ?thesis by (simp add: consume_one_def pop_drop ne)
qed

definition unprintable_controller :: "(null_enforcer, unit) controller" where
  "unprintable_controller = demo_controller\<lparr>ct_sinks := [Console_sink console_new, Json_sink []],
     ct_queue := \<lparr>q_slots = [long_pid_event 8, empty_event, empty_event], q_head = 1, q_tail = 0, q_stop = False\<rparr>\<rparr>"

theorem unprintable_event_throws_witness:
  "\<exists>c'. consumer_loop 1 log_lib no_clients unprintable_controller = Some (Throws ''type_error.316'', c')"
proof -
  have "q_inv (ct_queue unprintable_controller)" "q_contents (ct_queue unprintable_controller) = [long_pid_event 8]"
    "Json_sink [] \<in> set (ct_sinks unprintable_controller)"
    by (simp_all add: unprintable_controller_def q_inv_def q_contents_def q_count_def)
  moreover have "jl_dump log_lib (event_json log_lib (long_pid_event 8)) = Throws ''type_error.316''"
    by (simp add: log_lib_def demo_json_lib_def event_json_def long_pid_event_def)
  ultimately show ?thesis
    using unprintable_event_throws [of unprintable_controller "long_pid_event 8" "[]" "[]" log_lib
        "''type_error.316''" 0 no_clients] by auto
qed

text \<open>A printed timestamp is well formed: for a wall-clock time at or after the epoch, it is the
  formatted second, a dot and exactly three digits of milliseconds.\<close>

theorem event_time_millis:
  assumes "0 \<le> sint ts + sint offset"
  shows "\<exists>ms. format_event_time fmt ts offset = fmt ((sint ts + sint offset) div 1000000000) @ ''.'' @ ms \<and>
    length ms = 3 \<and> list_all (\<lambda>d. is_digit d) ms"
proof -
  let ?w = "sint ts + sint offset" and ?ms = "((sint ts + sint offset) mod 1000000000) div 1000000"
  have r: "0 \<le> ?ms" "?ms < 1000" using assms by (auto simp: div_less_iff_less_mult)
  have d: "?w sdiv 1000000000 = ?w div 1000000000" "(?w smod 1000000000) sdiv 1000000 = ?ms"
    using assms by (simp_all add: signed_divide_int_def signed_modulo_int_def sgn_if div_eq_0_iff)
  have "length (show_int ?ms) \<le> 3" using r by (auto simp: show_int_def intro: show_nat_length)
  moreover have "\<forall>c \<in> set (show_int ?ms). is_digit c"
    using r by (auto simp: show_int_def dest: show_nat_digits)
  moreover have "is_digit (CHR ''0'')" by (simp add: is_digit_def)
  ultimately show ?thesis
    unfolding format_event_time_def Let_def d
    by (intro exI [of _ "setw_right (CHR ''0'') 3 (show_int ?ms)"])
       (auto simp: setw_right_def list_all_iff)
qed

theorem event_time_millis_witness:
  "\<exists>ms. format_event_time demo_time 5000000 0 = demo_time 0 @ ''.'' @ ms \<and> length ms = 3"
  using event_time_millis [of 5000000 0 demo_time] by auto

text \<open>A start that succeeds has done all its work: the backend is created and loaded, the worker
  threads run, and a configured policy file has been read, validated and installed in the kernel
  and in userspace.\<close>

theorem start_installs:
  assumes "start ops create_enforcer L fs R c = Some (Returns (Inr ()), c')"
  shows "\<not> ct_started c \<and> ct_started c' \<and> ct_ring_thread c' \<and> ct_consumer_thread c' \<and>
    (\<exists>enf0 enf. op_load ops enf0 = (Inr (), enf) \<and>
      (if cc_policy_file (ct_cfg c) = [] then ct_enforcer c' = Some enf
       else \<exists>p cp enf'. from_file L fs (cc_policy_file (ct_cfg c)) = Returns (Inr p) \<and> policy_wf p \<and>
         compile R p = Inr cp \<and> op_apply ops enf cp = Some (Inr (), enf') \<and> ct_enforcer c' = Some enf' \<and>
         pm_current (ct_policy_manager c') = Some p))"
proof -
  let ?cfg = "(ct_cfg c)\<lparr>cc_enforcer := (cc_enforcer (ct_cfg c))\<lparr>ec_on_event := True\<rparr>\<rparr>"
  have ns: "\<not> ct_started c" using assms by (auto simp: start_def split: if_splits)
  obtain r enf where ld: "op_load ops (create_enforcer (cc_enforcer ?cfg)) = (r, enf)" by fastforce
  with assms ns have r: "r = Inr ()" by (cases r) (auto simp: start_def Let_def)
  let ?c1 = "c\<lparr>ct_started := True, ct_cfg := ?cfg, ct_enforcer := Some enf\<rparr>"
  show ?thesis
  proof (cases "cc_policy_file (ct_cfg c) = []")
    case True
    with assms ns ld r show ?thesis by (auto simp: start_def Let_def)
  next
    case False
    with assms ns ld r obtain p c2 where ff: "from_file L fs (cc_policy_file (ct_cfg c)) = Returns (Inr p)"
      and lp: "load_policy ops R (Some p) ?c1 = Some (Inr (), c2)"
      and c': "c' = c2\<lparr>ct_ring_thread := True, ct_consumer_thread := True\<rparr>"
      by (auto simp: start_def Let_def split: outcome.splits sum.splits option.splits prod.splits)
    from load_policy_Inr [OF lp] obtain cp c3 where cp: "compile R p = Inr cp"
      and a: "load_apply ops cp ?c1 = Some (Inr (), c3)"
      and c2: "c2 = (load_resolver p cp c3)\<lparr>ct_policy_manager := (ct_policy_manager c3)\<lparr>pm_current := Some p\<rparr>\<rparr>"
      by auto
    from a obtain enf' where "op_apply ops enf cp = Some (Inr (), enf')" "c3 = ?c1\<lparr>ct_enforcer := Some enf'\<rparr>"
      by (auto simp: load_apply_def split: option.splits sum.splits)
    with False ns ld r ff cp compile_InrD(1) [OF cp] show ?thesis
      by (auto simp: c' c2 load_resolver_def)
  qed
qed

theorem start_installs_witness:
  "\<exists>c'. start null_ops null_new sample_lib (\<lambda>_. Some (''{}'', False)) demo_resolver
       (demo_controller\<lparr>ct_started := False, ct_cfg := default_controller_config\<lparr>cc_policy_file := ''p''\<rparr>\<rparr>) =
     Some (Returns (Inr ()), c') \<and> pm_current (ct_policy_manager c') = Some sample_policy"
proof -
  let ?c = "demo_controller\<lparr>ct_started := False, ct_cfg := default_controller_config\<lparr>cc_policy_file := ''p''\<rparr>\<rparr>"
  let ?start = "start null_ops null_new sample_lib (\<lambda>_. Some (''{}'', False)) demo_resolver ?c"
  have ff: "from_file sample_lib (\<lambda>_. Some (''{}'', False)) ''p'' = Returns (Inr sample_policy)"
    using from_json_policy_json [OF sample_lib_laws(1) sample_expressible sample_parse] by (simp add: from_file_def)
  have cp: "compile demo_resolver sample_policy = Inr ((demo_compiled 300)\<lparr>cp_version := 3\<rparr>)"
    and ok: "validate sample_policy = Inr ()"
    by (simp_all add: compile_def sample_policy_def validate_def demo_resolver_def demo_compiled_def file_id_valid_def)
  have "\<exists>c'. ?start = Some (Returns (Inr ()), c')"
    by (simp add: start_def null_ops_def null_simps controller_with_def ff load_policy_def cp ok
        load_apply_def load_install_valid load_resolver_def)
  then obtain c' where c': "?start = Some (Returns (Inr ()), c')" by blast
  from start_installs [OF c'] c' ff show ?thesis by (auto simp: controller_with_def)
qed

text \<open>One failed poll ends the audit for good: whatever the error is (\<open>EINTR\<close> included) and whatever
  later polls would have delivered, the polling thread leaves its loop and only a status text
  remains, while the maps and the attached program keep enforcing.\<close>

theorem poll_error_ends_audit:
  assumes "ct_enforcer c = Some e" and "le_ring e" and "n < 0"
  shows "ring_poll_loop (linux_run B ((n, errno) # polls)) c = c\<lparr>ct_enforcer := Some (e\<lparr>le_status :=
    (le_status e)\<lparr>st_detail := ''ring buffer poll error'' @ bpf_err B errno\<rparr>\<rparr>)\<rparr>"
  using assms by (simp add: ring_poll_loop_def)

end
