(* ===== verification/Queue_Concurrency.thy ===== *)
theory Queue_Concurrency
  imports Event_Queue
begin

text \<open>
  The interleavings of the queue of \<open>include/fileguard/event_queue.hpp\<close>: one producer, one
  consumer and the thread that requests the stop, with \<open>mtx_\<close>, the two condition variables and
  the atomic indices as separate steps. A step is one shared access (locking, evaluating the wait
  predicate, going to sleep, writing a slot, publishing an index, unlocking, notifying). Going to
  sleep releases the mutex atomically, as \<open>std::condition_variable::wait\<close> does, and a sleeper may
  wake up spuriously. Memory is sequentially consistent: each index is written by one thread only
  and published with release/acquire.
\<close>

section \<open>Threads\<close>

datatype thread = T_producer | T_consumer | T_stopper

datatype 'a producer =
    P_idle
  | P_lock 'a | P_check 'a | P_decided 'a | P_wait 'a
  | P_store 'a | P_head 'a | P_unlock | P_return | P_notify
  | P_try 'a | P_try_store 'a | P_try_head 'a

datatype 'a consumer =
    C_idle
  | C_lock | C_check | C_passed | C_decided | C_wait
  | C_take | C_tail 'a | C_unlock | C_return | C_notify | C_finished
  | C_try | C_try_take | C_try_tail 'a

datatype stopper = S_idle | S_lock | S_set | S_unlock | S_notify_producer | S_notify_consumer | S_done

record 'a qsys =
  ring :: "'a spsc_queue"
  mtx :: "thread option"
  prod :: "'a producer"
  cons :: "'a consumer"
  stopr :: stopper
  accepted :: "'a list"
  taken :: "'a list"
  dropped :: "'a list"

definition qsys_new :: "'a spsc_queue \<Rightarrow> 'a qsys" where
  "qsys_new q = \<lparr>ring = q, mtx = None, prod = P_idle, cons = C_idle, stopr = S_idle,
     accepted = [], taken = [], dropped = []\<rparr>"

definition write_slot :: "nat \<Rightarrow> 'a \<Rightarrow> 'a spsc_queue \<Rightarrow> 'a spsc_queue" where
  "write_slot i x q = q\<lparr>q_slots := (q_slots q)[i := x]\<rparr>"

definition advance_head :: "'a spsc_queue \<Rightarrow> 'a spsc_queue" where
  "advance_head q = q\<lparr>q_head := q_next q (q_head q)\<rparr>"

text \<open>\<open>notify_one\<close> on a condition variable with one possible waiter.\<close>

definition wake_consumer :: "'a consumer \<Rightarrow> 'a consumer" where
  "wake_consumer c = (case c of C_wait \<Rightarrow> C_lock | _ \<Rightarrow> c)"

definition wake_producer :: "'a producer \<Rightarrow> 'a producer" where
  "wake_producer p = (case p of P_wait x \<Rightarrow> P_lock x | _ \<Rightarrow> p)"

section \<open>Steps\<close>

fun producer_step :: "'a qsys \<Rightarrow> 'a qsys option" where
  "producer_step s = (case prod s of
     P_idle \<Rightarrow> None
   | P_lock x \<Rightarrow> if mtx s = None then Some (s\<lparr>mtx := Some T_producer, prod := P_check x\<rparr>) else None
   | P_check x \<Rightarrow>
       if q_stop (ring s) then Some (s\<lparr>prod := P_return, dropped := dropped s @ [x]\<rparr>)
       else if q_full (ring s) then Some (s\<lparr>prod := P_decided x\<rparr>)
       else Some (s\<lparr>prod := P_store x\<rparr>)
   | P_decided x \<Rightarrow> Some (s\<lparr>mtx := None, prod := P_wait x\<rparr>)
   | P_wait x \<Rightarrow> None
   | P_store x \<Rightarrow> Some (s\<lparr>ring := write_slot (q_head (ring s)) x (ring s), prod := P_head x\<rparr>)
   | P_head x \<Rightarrow> Some (s\<lparr>ring := advance_head (ring s), prod := P_unlock, accepted := accepted s @ [x]\<rparr>)
   | P_unlock \<Rightarrow> Some (s\<lparr>mtx := None, prod := P_notify\<rparr>)
   | P_return \<Rightarrow> Some (s\<lparr>mtx := None, prod := P_idle\<rparr>)
   | P_notify \<Rightarrow> Some (s\<lparr>prod := P_idle, cons := wake_consumer (cons s)\<rparr>)
   | P_try x \<Rightarrow> Some (s\<lparr>prod := (if q_full (ring s) then P_idle else P_try_store x)\<rparr>)
   | P_try_store x \<Rightarrow> Some (s\<lparr>ring := write_slot (q_head (ring s)) x (ring s), prod := P_try_head x\<rparr>)
   | P_try_head x \<Rightarrow> Some (s\<lparr>ring := advance_head (ring s), prod := P_notify, accepted := accepted s @ [x]\<rparr>))"

fun consumer_step :: "'a qsys \<Rightarrow> 'a qsys option" where
  "consumer_step s = (case cons s of
     C_idle \<Rightarrow> None
   | C_lock \<Rightarrow> if mtx s = None then Some (s\<lparr>mtx := Some T_consumer, cons := C_check\<rparr>) else None
   | C_check \<Rightarrow>
       if q_stop (ring s) \<or> \<not> q_empty (ring s) then Some (s\<lparr>cons := C_passed\<rparr>)
       else Some (s\<lparr>cons := C_decided\<rparr>)
   | C_passed \<Rightarrow> Some (s\<lparr>cons := (if q_empty (ring s) then C_return else C_take)\<rparr>)
   | C_decided \<Rightarrow> Some (s\<lparr>mtx := None, cons := C_wait\<rparr>)
   | C_wait \<Rightarrow> None
   | C_take \<Rightarrow> Some (s\<lparr>cons := C_tail (q_slots (ring s) ! q_tail (ring s))\<rparr>)
   | C_tail x \<Rightarrow> Some (s\<lparr>ring := q_drop (ring s), cons := C_unlock, taken := taken s @ [x]\<rparr>)
   | C_unlock \<Rightarrow> Some (s\<lparr>mtx := None, cons := C_notify\<rparr>)
   | C_return \<Rightarrow> Some (s\<lparr>mtx := None, cons := C_finished\<rparr>)
   | C_notify \<Rightarrow> Some (s\<lparr>cons := C_idle, prod := wake_producer (prod s)\<rparr>)
   | C_finished \<Rightarrow> None
   | C_try \<Rightarrow> Some (s\<lparr>cons := (if q_empty (ring s) then C_idle else C_try_take)\<rparr>)
   | C_try_take \<Rightarrow> Some (s\<lparr>cons := C_try_tail (q_slots (ring s) ! q_tail (ring s))\<rparr>)
   | C_try_tail x \<Rightarrow> Some (s\<lparr>ring := q_drop (ring s), cons := C_notify, taken := taken s @ [x]\<rparr>))"

fun stopper_step :: "'a qsys \<Rightarrow> 'a qsys option" where
  "stopper_step s = (case stopr s of
     S_idle \<Rightarrow> None
   | S_lock \<Rightarrow> if mtx s = None then Some (s\<lparr>mtx := Some T_stopper, stopr := S_set\<rparr>) else None
   | S_set \<Rightarrow> Some (s\<lparr>ring := queue_request_stop (ring s), stopr := S_unlock\<rparr>)
   | S_unlock \<Rightarrow> Some (s\<lparr>mtx := None, stopr := S_notify_producer\<rparr>)
   | S_notify_producer \<Rightarrow> Some (s\<lparr>prod := wake_producer (prod s), stopr := S_notify_consumer\<rparr>)
   | S_notify_consumer \<Rightarrow> Some (s\<lparr>cons := wake_consumer (cons s), stopr := S_done\<rparr>)
   | S_done \<Rightarrow> None)"

datatype 'a qaction =
    Call_push 'a | Call_try_push 'a | Call_pop | Call_try_pop | Call_stop
  | Producer | Consumer | Stopper
  | Spurious_producer | Spurious_consumer

fun qstep :: "'a qaction \<Rightarrow> 'a qsys \<Rightarrow> 'a qsys option" where
  "qstep (Call_push x) s = (case prod s of P_idle \<Rightarrow> Some (s\<lparr>prod := P_lock x\<rparr>) | _ \<Rightarrow> None)"
| "qstep (Call_try_push x) s = (case prod s of P_idle \<Rightarrow> Some (s\<lparr>prod := P_try x\<rparr>) | _ \<Rightarrow> None)"
| "qstep Call_pop s = (case cons s of C_idle \<Rightarrow> Some (s\<lparr>cons := C_lock\<rparr>) | _ \<Rightarrow> None)"
| "qstep Call_try_pop s = (case cons s of C_idle \<Rightarrow> Some (s\<lparr>cons := C_try\<rparr>) | _ \<Rightarrow> None)"
| "qstep Call_stop s = (case stopr s of S_idle \<Rightarrow> Some (s\<lparr>stopr := S_lock\<rparr>) | _ \<Rightarrow> None)"
| "qstep Producer s = producer_step s"
| "qstep Consumer s = consumer_step s"
| "qstep Stopper s = stopper_step s"
| "qstep Spurious_producer s = (case prod s of P_wait x \<Rightarrow> Some (s\<lparr>prod := P_lock x\<rparr>) | _ \<Rightarrow> None)"
| "qstep Spurious_consumer s = (case cons s of C_wait \<Rightarrow> Some (s\<lparr>cons := C_lock\<rparr>) | _ \<Rightarrow> None)"

fun qexec :: "'a qaction list \<Rightarrow> 'a qsys \<Rightarrow> 'a qsys option" where
  "qexec [] s = Some s"
| "qexec (a # as) s = Option.bind (qstep a s) (qexec as)"

fun blocking :: "'a qaction \<Rightarrow> bool" where
  "blocking (Call_try_push x) = False"
| "blocking Call_try_pop = False"
| "blocking _ = True"

text \<open>States reachable from a fresh queue; \<open>ok\<close> says which actions the threads use.\<close>

inductive qreach :: "('a qaction \<Rightarrow> bool) \<Rightarrow> 'a spsc_queue \<Rightarrow> 'a qsys \<Rightarrow> bool" for ok q0 where
  start: "qreach ok q0 (qsys_new q0)"
| step: "qreach ok q0 s \<Longrightarrow> ok a \<Longrightarrow> qstep a s = Some s' \<Longrightarrow> qreach ok q0 s'"

inductive_cases qreachE: "qreach ok q0 s"

lemma qexec_reach:
  "qreach ok q0 s \<Longrightarrow> list_all ok as \<Longrightarrow> qexec as s = Some s' \<Longrightarrow> qreach ok q0 s'"
  by (induction "as" arbitrary: s) (auto simp: bind_eq_Some_conv intro: qreach.step)

section \<open>The data invariant\<close>

fun prod_holds :: "'a producer \<Rightarrow> bool" where
  "prod_holds (P_check x) = True" | "prod_holds (P_decided x) = True"
| "prod_holds (P_store x) = True" | "prod_holds (P_head x) = True"
| "prod_holds P_unlock = True" | "prod_holds P_return = True" | "prod_holds _ = False"

fun cons_holds :: "'a consumer \<Rightarrow> bool" where
  "cons_holds C_check = True" | "cons_holds C_passed = True" | "cons_holds C_decided = True" | "cons_holds C_take = True"
| "cons_holds (C_tail x) = True" | "cons_holds C_unlock = True" | "cons_holds C_return = True"
| "cons_holds _ = False"

fun stop_holds :: "stopper \<Rightarrow> bool" where
  "stop_holds S_set = True" | "stop_holds S_unlock = True" | "stop_holds _ = False"

text \<open>The producer has seen room: it will write the slot at \<open>head_\<close>, or has written it.\<close>

fun prod_ok :: "'a spsc_queue \<Rightarrow> 'a producer \<Rightarrow> bool" where
  "prod_ok q (P_store x) = (\<not> q_full q)"
| "prod_ok q (P_try_store x) = (\<not> q_full q)"
| "prod_ok q (P_head x) = (\<not> q_full q \<and> q_slots q ! q_head q = x)"
| "prod_ok q (P_try_head x) = (\<not> q_full q \<and> q_slots q ! q_head q = x)"
| "prod_ok q _ = True"

fun cons_ok :: "'a spsc_queue \<Rightarrow> 'a consumer \<Rightarrow> bool" where
  "cons_ok q C_take = (\<not> q_empty q)"
| "cons_ok q C_try_take = (\<not> q_empty q)"
| "cons_ok q (C_tail x) = (\<not> q_empty q \<and> q_slots q ! q_tail q = x)"
| "cons_ok q (C_try_tail x) = (\<not> q_empty q \<and> q_slots q ! q_tail q = x)"
| "cons_ok q _ = True"

definition lock_inv :: "'a qsys \<Rightarrow> bool" where
  "lock_inv s \<longleftrightarrow> (mtx s = Some T_producer \<longleftrightarrow> prod_holds (prod s)) \<and>
     (mtx s = Some T_consumer \<longleftrightarrow> cons_holds (cons s)) \<and>
     (mtx s = Some T_stopper \<longleftrightarrow> stop_holds (stopr s))"

definition data_inv :: "'a qsys \<Rightarrow> bool" where
  "data_inv s \<longleftrightarrow> q_inv (ring s) \<and> prod_ok (ring s) (prod s) \<and> cons_ok (ring s) (cons s) \<and>
     accepted s = taken s @ q_contents (ring s)"

lemma wake_simps [simp]:
  "prod_holds (wake_producer p) = prod_holds p" "prod_ok q (wake_producer p) = prod_ok q p"
  "cons_holds (wake_consumer c) = cons_holds c" "cons_ok q (wake_consumer c) = cons_ok q c"
  by (simp_all add: wake_producer_def wake_consumer_def split: producer.split consumer.split)

text \<open>The calls and the spurious wake-ups only move a thread between states in which it holds no
  lock and has read nothing.\<close>

fun thread_action :: "'a qaction \<Rightarrow> bool" where
  "thread_action Producer = True" | "thread_action Consumer = True" | "thread_action Stopper = True"
| "thread_action _ = False"

lemma call_frame:
  assumes "qstep a s = Some s'" "\<not> thread_action a"
  shows "ring s' = ring s" "mtx s' = mtx s" "accepted s' = accepted s" "taken s' = taken s"
    "prod_holds (prod s') = prod_holds (prod s)" "cons_holds (cons s') = cons_holds (cons s)"
    "stop_holds (stopr s') = stop_holds (stopr s)"
    "prod_ok q (prod s) \<Longrightarrow> prod_ok q (prod s')" "cons_ok q (cons s) \<Longrightarrow> cons_ok q (cons s')"
  using assms
  by (cases a; auto split: producer.splits consumer.splits stopper.splits)+

lemma producer_lock: "producer_step s = Some s' \<Longrightarrow> lock_inv s \<Longrightarrow> lock_inv s'"
  by (cases "prod s") (auto simp: lock_inv_def split: if_splits)

lemma consumer_lock: "consumer_step s = Some s' \<Longrightarrow> lock_inv s \<Longrightarrow> lock_inv s'"
  by (cases "cons s") (auto simp: lock_inv_def split: if_splits)

lemma stopper_lock: "stopper_step s = Some s' \<Longrightarrow> lock_inv s \<Longrightarrow> lock_inv s'"
  by (cases "stopr s") (auto simp: lock_inv_def split: if_splits)

lemma lock_inv_step:
  assumes "qstep a s = Some s'" "lock_inv s"
  shows "lock_inv s'"
proof (cases "thread_action a")
  case True
  with assms show ?thesis
    by (cases a) (simp_all only: qstep.simps thread_action.simps producer_lock consumer_lock stopper_lock simp_thms)
next
  case False
  from call_frame [OF assms(1) False] assms(2) show ?thesis by (simp add: lock_inv_def)
qed

lemma lock_inv_new: "lock_inv (qsys_new q)"
  by (simp add: lock_inv_def qsys_new_def)

lemma lock_inv_reach: "qreach ok q0 s \<Longrightarrow> lock_inv s"
  by (induction rule: qreach.induct) (blast intro: lock_inv_new lock_inv_step)+

subsection \<open>The ring\<close>

lemma write_slot_frame [simp]:
  "q_inv (write_slot i x q) = q_inv q" "q_empty (write_slot i x q) = q_empty q"
  "q_full (write_slot i x q) = q_full q" "q_head (write_slot i x q) = q_head q"
  "q_tail (write_slot i x q) = q_tail q" "q_stop (write_slot i x q) = q_stop q"
  "q_slots (write_slot i x q) = (q_slots q)[i := x]"
  by (simp_all add: write_slot_def q_inv_def q_empty_def q_full_def q_next_def)

lemma write_head_contents:
  assumes "q_inv q"
  shows "q_contents (write_slot (q_head q) x q) = q_contents q"
proof -
  have "q_head q \<noteq> (q_tail q + i) mod length (q_slots q)" if "i < q_count q" for i
    using ring_fresh [of "q_head q" "length (q_slots q)" "q_tail q" i] that assms
    by (simp add: q_count_def q_bounds eq_commute)
  then show ?thesis by (simp add: q_contents_def q_count_def write_slot_def)
qed

lemma advance_head_store:
  "q_slots q ! q_head q = x \<Longrightarrow> advance_head q = q_store x q"
  by (auto simp: advance_head_def q_store_def)

lemma stop_frame [simp]:
  "q_inv (queue_request_stop q) = q_inv q" "q_empty (queue_request_stop q) = q_empty q"
  "q_full (queue_request_stop q) = q_full q" "q_contents (queue_request_stop q) = q_contents q"
  "q_stop (queue_request_stop q)" "q_slots (queue_request_stop q) = q_slots q"
  "q_head (queue_request_stop q) = q_head q" "q_tail (queue_request_stop q) = q_tail q"
  by (simp_all add: queue_request_stop_def q_inv_def q_empty_def q_full_def q_next_def
      q_contents_def q_count_def)

text \<open>What one end knows survives the other end's steps: publishing an item keeps the ring
  non-empty, taking one keeps it non-full, and neither touches the other's slot.\<close>

lemma prod_ok_stop [simp]: "prod_ok (queue_request_stop q) p = prod_ok q p"
  by (cases p) simp_all

lemma cons_ok_stop [simp]: "cons_ok (queue_request_stop q) c = cons_ok q c"
  by (cases c) simp_all

lemma cons_ok_write:
  "q_inv q \<Longrightarrow> cons_ok q c \<Longrightarrow> cons_ok (write_slot (q_head q) x q) c"
  by (cases c) (auto simp: q_empty_def nth_list_update q_bounds)

lemma q_drop_frame [simp]: "q_slots (q_drop q) = q_slots q" "q_head (q_drop q) = q_head q"
  by (simp_all add: q_drop_def)

lemma q_drop_not_full: "q_inv q \<Longrightarrow> \<not> q_empty q \<Longrightarrow> \<not> q_full (q_drop q)"
  using q_drop_count [of q] q_drop_inv [of q] q_full_iff [of "q_drop q"] q_count_less [of q]
  by (simp add: q_contents_length)

lemma q_store_not_empty: "q_inv q \<Longrightarrow> \<not> q_full q \<Longrightarrow> \<not> q_empty (q_store x q)"
  by (simp add: q_empty_iff q_store_contents q_store_inv)

lemma prod_ok_drop: "q_inv q \<Longrightarrow> \<not> q_empty q \<Longrightarrow> prod_ok q p \<Longrightarrow> prod_ok (q_drop q) p"
  by (cases p) (auto simp: q_drop_not_full)

lemma cons_ok_store:
  assumes "q_inv q" "\<not> q_full q" "q_slots q ! q_head q = x" "cons_ok q c"
  shows "cons_ok (q_store x q) c"
proof -
  have "q_slots (q_store x q) = q_slots q" "q_tail (q_store x q) = q_tail q"
    using assms(3) by (auto simp: q_store_def)
  then show ?thesis using assms q_store_not_empty [OF assms(1,2), of x] by (cases c) auto
qed

lemma producer_data: "producer_step s = Some s' \<Longrightarrow> data_inv s \<Longrightarrow> data_inv s'"
  by (cases "prod s")
     (auto simp: data_inv_def advance_head_store cons_ok_store cons_ok_write write_head_contents
       q_store_contents q_bounds split: if_splits intro: fg_inv)

lemma consumer_data: "consumer_step s = Some s' \<Longrightarrow> data_inv s \<Longrightarrow> data_inv s'"
  by (cases "cons s")
     (auto simp: data_inv_def prod_ok_drop q_drop_contents split: if_splits intro: fg_inv)

lemma stopper_data: "stopper_step s = Some s' \<Longrightarrow> data_inv s \<Longrightarrow> data_inv s'"
  by (cases "stopr s") (auto simp: data_inv_def split: if_splits)

lemma data_inv_step:
  assumes "qstep a s = Some s'" "data_inv s"
  shows "data_inv s'"
proof (cases "thread_action a")
  case True
  with assms show ?thesis
    by (cases a) (simp_all only: qstep.simps thread_action.simps producer_data consumer_data stopper_data simp_thms)
next
  case False
  from call_frame [OF assms(1) False] assms(2) show ?thesis by (simp add: data_inv_def)
qed

lemma data_inv_reach:
  "qreach ok q0 s \<Longrightarrow> q_inv q0 \<Longrightarrow> q_contents q0 = [] \<Longrightarrow> data_inv s"
  by (induction rule: qreach.induct) (auto simp: data_inv_def qsys_new_def dest: data_inv_step)


section \<open>No lost wake-up between blocking calls\<close>

text \<open>With \<open>push\<close> and \<open>pop\<close> only, a thread goes to sleep on a predicate that still holds, since it
  holds the mutex, and whoever makes the predicate false has a notification left to send.\<close>

fun prod_notifies :: "'a producer \<Rightarrow> bool" where
  "prod_notifies P_unlock = True" | "prod_notifies P_notify = True" | "prod_notifies _ = False"

fun cons_notifies :: "'a consumer \<Rightarrow> bool" where
  "cons_notifies C_unlock = True" | "cons_notifies C_notify = True" | "cons_notifies _ = False"

fun prod_tries :: "'a producer \<Rightarrow> bool" where
  "prod_tries (P_try x) = True" | "prod_tries (P_try_store x) = True"
| "prod_tries (P_try_head x) = True" | "prod_tries _ = False"

fun cons_tries :: "'a consumer \<Rightarrow> bool" where
  "cons_tries C_try = True" | "cons_tries C_try_take = True"
| "cons_tries (C_try_tail x) = True" | "cons_tries _ = False"

fun prod_asleep :: "'a producer \<Rightarrow> bool" where
  "prod_asleep (P_wait x) = True" | "prod_asleep _ = False"

fun prod_decided :: "'a producer \<Rightarrow> bool" where
  "prod_decided (P_decided x) = True" | "prod_decided _ = False"

fun cons_asleep :: "'a consumer \<Rightarrow> bool" where
  "cons_asleep C_wait = True" | "cons_asleep _ = False"

fun cons_decided :: "'a consumer \<Rightarrow> bool" where
  "cons_decided C_decided = True" | "cons_decided _ = False"

fun stop_notifies_producer :: "stopper \<Rightarrow> bool" where
  "stop_notifies_producer S_unlock = True" | "stop_notifies_producer S_notify_producer = True"
| "stop_notifies_producer _ = False"

fun stop_notifies_consumer :: "stopper \<Rightarrow> bool" where
  "stop_notifies_consumer S_unlock = True" | "stop_notifies_consumer S_notify_producer = True"
| "stop_notifies_consumer S_notify_consumer = True" | "stop_notifies_consumer _ = False"

definition consumer_must_run :: "'a qsys \<Rightarrow> bool" where
  "consumer_must_run s \<longleftrightarrow> q_stop (ring s) \<or> \<not> q_empty (ring s)"

definition producer_must_run :: "'a qsys \<Rightarrow> bool" where
  "producer_must_run s \<longleftrightarrow> q_stop (ring s) \<or> \<not> q_full (ring s)"

definition no_tries :: "'a qsys \<Rightarrow> bool" where
  "no_tries s \<longleftrightarrow> \<not> prod_tries (prod s) \<and> \<not> cons_tries (cons s)"

definition decided_inv :: "'a qsys \<Rightarrow> bool" where
  "decided_inv s \<longleftrightarrow> (cons_decided (cons s) \<longrightarrow> \<not> consumer_must_run s) \<and>
     (prod_decided (prod s) \<longrightarrow> \<not> producer_must_run s)"

definition consumer_alert :: "'a qsys \<Rightarrow> bool" where
  "consumer_alert s \<longleftrightarrow> (cons_asleep (cons s) \<and> consumer_must_run s \<longrightarrow>
     prod_notifies (prod s) \<or> stop_notifies_consumer (stopr s))"

definition producer_alert :: "'a qsys \<Rightarrow> bool" where
  "producer_alert s \<longleftrightarrow> (prod_asleep (prod s) \<and> producer_must_run s \<longrightarrow>
     cons_notifies (cons s) \<or> stop_notifies_producer (stopr s))"

definition wake_inv :: "'a qsys \<Rightarrow> bool" where
  "wake_inv s \<longleftrightarrow> no_tries s \<and> decided_inv s \<and> consumer_alert s \<and> producer_alert s"

lemma wake_more [simp]:
  "prod_tries (wake_producer p) = prod_tries p" "cons_tries (wake_consumer c) = cons_tries c"
  "prod_decided (wake_producer p) = prod_decided p" "cons_decided (wake_consumer c) = cons_decided c"
  "\<not> prod_asleep (wake_producer p)" "\<not> cons_asleep (wake_consumer c)"
  "prod_notifies (wake_producer p) = prod_notifies p"
  "cons_notifies (wake_consumer c) = cons_notifies c"
  by (simp_all add: wake_producer_def wake_consumer_def split: producer.split consumer.split)

lemma decided_holds:
  "prod_decided p \<Longrightarrow> prod_holds p" "cons_decided c \<Longrightarrow> cons_holds c"
  by (cases p; simp) (cases c; simp)

lemma one_holder:
  "lock_inv s \<Longrightarrow> prod_holds (prod s) \<Longrightarrow> \<not> cons_holds (cons s) \<and> \<not> stop_holds (stopr s)"
  "lock_inv s \<Longrightarrow> cons_holds (cons s) \<Longrightarrow> \<not> prod_holds (prod s) \<and> \<not> stop_holds (stopr s)"
  "lock_inv s \<Longrightarrow> stop_holds (stopr s) \<Longrightarrow> \<not> prod_holds (prod s) \<and> \<not> cons_holds (cons s)"
  by (auto simp: lock_inv_def)

lemma advance_frame [simp]: "q_stop (advance_head q) = q_stop q"
  by (simp add: advance_head_def)

lemma no_tries_step:
  assumes "qstep a s = Some s'" "blocking a" "no_tries s"
  shows "no_tries s'"
proof (cases a)
  case Producer
  with assms show ?thesis by (cases "prod s") (auto simp: no_tries_def split: if_splits)
next
  case Consumer
  with assms show ?thesis by (cases "cons s") (auto simp: no_tries_def split: if_splits)
next
  case Stopper
  with assms show ?thesis by (cases "stopr s") (auto simp: no_tries_def split: if_splits)
qed (use assms in \<open>auto simp: no_tries_def split: producer.splits consumer.splits stopper.splits\<close>)

lemma decided_step:
  assumes "qstep a s = Some s'" "lock_inv s" "no_tries s" "decided_inv s"
  shows "decided_inv s'"
proof (cases a)
  case Producer
  have "prod_holds (prod s) \<Longrightarrow> \<not> cons_decided (cons s)"
    using one_holder(1) [OF assms(2)] decided_holds(2) by blast
  with Producer assms show ?thesis
    by (cases "prod s")
       (auto simp: no_tries_def decided_inv_def consumer_must_run_def producer_must_run_def split: if_splits)
next
  case Consumer
  have "cons_holds (cons s) \<Longrightarrow> \<not> prod_decided (prod s)"
    using one_holder(2) [OF assms(2)] decided_holds(1) by blast
  with Consumer assms show ?thesis
    by (cases "cons s")
       (auto simp: no_tries_def decided_inv_def consumer_must_run_def producer_must_run_def split: if_splits)
next
  case Stopper
  have "stop_holds (stopr s) \<Longrightarrow> \<not> prod_decided (prod s) \<and> \<not> cons_decided (cons s)"
    using one_holder(3) [OF assms(2)] decided_holds by blast
  with Stopper assms show ?thesis
    by (cases "stopr s")
       (auto simp: decided_inv_def consumer_must_run_def producer_must_run_def split: if_splits)
qed (use assms in \<open>auto simp: decided_inv_def consumer_must_run_def producer_must_run_def
      split: producer.splits consumer.splits stopper.splits\<close>)

lemma consumer_alert_step:
  assumes "qstep a s = Some s'" "no_tries s" "decided_inv s" "consumer_alert s"
  shows "consumer_alert s'"
proof (cases a)
  case Producer
  with assms show ?thesis
    by (cases "prod s")
       (auto simp: no_tries_def consumer_alert_def consumer_must_run_def split: if_splits)
next
  case Consumer
  with assms show ?thesis
    by (cases "cons s")
       (auto simp: decided_inv_def consumer_alert_def consumer_must_run_def split: if_splits)
next
  case Stopper
  with assms show ?thesis
    by (cases "stopr s") (auto simp: consumer_alert_def consumer_must_run_def split: if_splits)
qed (use assms in \<open>auto simp: consumer_alert_def consumer_must_run_def
      split: producer.splits consumer.splits stopper.splits\<close>)

lemma producer_alert_step:
  assumes "qstep a s = Some s'" "no_tries s" "decided_inv s" "producer_alert s"
  shows "producer_alert s'"
proof (cases a)
  case Producer
  with assms show ?thesis
    by (cases "prod s")
       (auto simp: decided_inv_def producer_alert_def producer_must_run_def split: if_splits)
next
  case Consumer
  with assms show ?thesis
    by (cases "cons s")
       (auto simp: no_tries_def producer_alert_def producer_must_run_def split: if_splits)
next
  case Stopper
  with assms show ?thesis
    by (cases "stopr s") (auto simp: producer_alert_def producer_must_run_def split: if_splits)
qed (use assms in \<open>auto simp: producer_alert_def producer_must_run_def
      split: producer.splits consumer.splits stopper.splits\<close>)

lemma wake_inv_step:
  "qstep a s = Some s' \<Longrightarrow> blocking a \<Longrightarrow> lock_inv s \<Longrightarrow> wake_inv s \<Longrightarrow> wake_inv s'"
  unfolding wake_inv_def
  by (blast intro: no_tries_step decided_step consumer_alert_step producer_alert_step)

lemma wake_inv_reach: "qreach blocking q0 s \<Longrightarrow> wake_inv s"
proof (induction rule: qreach.induct)
  case start
  show ?case
    by (simp add: wake_inv_def qsys_new_def no_tries_def decided_inv_def consumer_alert_def producer_alert_def)
next
  case (step s a s')
  then show ?case using wake_inv_step lock_inv_reach by blast
qed

text \<open>A pending notification arrives: the notifying thread's next steps cannot block.\<close>

lemma producer_wakes:
  assumes "prod_notifies (prod s)" "cons s = C_wait"
  shows "\<exists>k\<le>3. \<exists>s'. qexec (replicate k Producer) s = Some s' \<and> cons s' = C_lock"
proof (cases "prod s")
  case P_unlock
  with assms show ?thesis by (intro exI [of _ 2]) (simp add: numeral_2_eq_2 wake_consumer_def)
next
  case P_notify
  with assms show ?thesis by (intro exI [of _ 1]) (simp add: wake_consumer_def)
qed (use assms in simp_all)

lemma stopper_wakes_consumer:
  assumes "stop_notifies_consumer (stopr s)" "cons s = C_wait"
  shows "\<exists>k\<le>3. \<exists>s'. qexec (replicate k Stopper) s = Some s' \<and> cons s' = C_lock"
proof (cases "stopr s")
  case S_unlock
  with assms show ?thesis by (intro exI [of _ 3]) (simp add: numeral_3_eq_3 wake_consumer_def)
next
  case S_notify_producer
  with assms show ?thesis by (intro exI [of _ 2]) (simp add: numeral_2_eq_2 wake_consumer_def)
next
  case S_notify_consumer
  with assms show ?thesis by (intro exI [of _ 1]) (simp add: wake_consumer_def)
qed (use assms in simp_all)

lemma consumer_wakes:
  assumes "cons_notifies (cons s)" "prod s = P_wait x"
  shows "\<exists>k\<le>3. \<exists>s'. qexec (replicate k Consumer) s = Some s' \<and> prod s' = P_lock x"
proof (cases "cons s")
  case C_unlock
  with assms show ?thesis by (intro exI [of _ 2]) (simp add: numeral_2_eq_2 wake_producer_def)
next
  case C_notify
  with assms show ?thesis by (intro exI [of _ 1]) (simp add: wake_producer_def)
qed (use assms in simp_all)

lemma stopper_wakes_producer:
  assumes "stop_notifies_producer (stopr s)" "prod s = P_wait x"
  shows "\<exists>k\<le>3. \<exists>s'. qexec (replicate k Stopper) s = Some s' \<and> prod s' = P_lock x"
proof (cases "stopr s")
  case S_unlock
  with assms show ?thesis by (intro exI [of _ 2]) (simp add: numeral_2_eq_2 wake_producer_def)
next
  case S_notify_producer
  with assms show ?thesis by (intro exI [of _ 1]) (simp add: wake_producer_def)
qed (use assms in simp_all)

section \<open>Properties\<close>

definition demo_ring :: "nat spsc_queue" where
  "demo_ring = \<lparr>q_slots = [0, 0], q_head = 0, q_tail = 0, q_stop = False\<rparr>"

lemma demo_ring_new: "spsc_new 0 2 = Returns demo_ring"
  by (simp add: spsc_new_def demo_ring_def numeral_2_eq_2)

text \<open>C25. No event is lost, duplicated or reordered under any interleaving of the producer, the
  consumer and the stopper, with the blocking and the lock-free operations: what the producer
  published is what the consumer took followed by what the ring holds.\<close>

theorem queue_history:
  assumes "spsc_new d n = Returns q0" and "qreach (\<lambda>_. True) q0 s"
  shows "accepted s = taken s @ q_contents (ring s) \<and> length (q_contents (ring s)) < q_capacity (ring s)"
  using data_inv_reach [OF assms(2)] spsc_new_inv [OF assms(1)] q_count_less [of "ring s"]
  by (simp add: data_inv_def)

definition push_then_pop :: "nat qaction list" where
  "push_then_pop = [Call_pop, Consumer, Consumer, Consumer, Call_push 7, Producer, Producer, Producer,
     Producer, Producer, Producer]"

theorem queue_history_witness:
  "\<exists>s. qexec push_then_pop (qsys_new demo_ring) = Some s \<and> accepted s = [7] \<and>
     accepted s = taken s @ q_contents (ring s)"
proof -
  let ?run = "qexec push_then_pop (qsys_new demo_ring)"
  obtain s where s: "?run = Some s" "accepted s = [7]"
    by (simp add: push_then_pop_def qsys_new_def demo_ring_def q_empty_def q_full_def q_next_def
        write_slot_def advance_head_def wake_consumer_def)
  have "qreach (\<lambda>_. True) demo_ring s"
    by (rule qexec_reach [OF qreach.start _ s(1)]) (simp add: list_all_iff)
  from queue_history [OF demo_ring_new this] s show ?thesis by blast
qed

text \<open>The slots are free of data races: whenever the producer is about to write the slot at
  \<open>head_\<close> and the consumer is about to read the slot at \<open>tail_\<close>, locked or not, these are
  different slots.\<close>

theorem slots_race_free:
  assumes "spsc_new d n = Returns q0" and "qreach (\<lambda>_. True) q0 s"
    and "prod s = P_store x \<or> prod s = P_try_store x"
    and "cons s = C_take \<or> cons s = C_try_take"
  shows "q_head (ring s) \<noteq> q_tail (ring s)"
  using data_inv_reach [OF assms(2)] spsc_new_inv [OF assms(1)] assms(4)
  by (auto simp: data_inv_def q_empty_def)

theorem slots_race_free_witness:
  "\<exists>s. qexec [Call_try_push 7, Producer, Producer, Producer, Producer, Call_try_push 8, Producer,
      Call_pop, Consumer, Consumer, Consumer] (qsys_new \<lparr>q_slots = [0, 0, 0], q_head = 0, q_tail = 0, q_stop = False\<rparr>)
     = Some s \<and> prod s = P_try_store (8::nat) \<and> cons s = C_take \<and> q_head (ring s) \<noteq> q_tail (ring s)"
proof -
  let ?q = "\<lparr>q_slots = [0, 0, 0], q_head = 0, q_tail = 0, q_stop = False\<rparr> :: nat spsc_queue"
  let ?as = "[Call_try_push 7, Producer, Producer, Producer, Producer, Call_try_push 8, Producer,
      Call_pop, Consumer, Consumer, Consumer] :: nat qaction list"
  have new: "spsc_new 0 3 = Returns ?q" by (simp add: spsc_new_def numeral_3_eq_3)
  obtain s where s: "qexec ?as (qsys_new ?q) = Some s" "prod s = P_try_store 8" "cons s = C_take"
    by (simp add: qsys_new_def q_empty_def q_full_def q_next_def
        write_slot_def advance_head_def wake_consumer_def)
  have "qreach (\<lambda>_. True) ?q s"
    by (rule qexec_reach [OF qreach.start _ s(1)]) simp
  from slots_race_free [OF new this] s show ?thesis by blast
qed

text \<open>C26. No wake-up is lost when the ends use \<open>push\<close> and \<open>pop\<close>: in every reachable state in
  which a thread sleeps although its wait predicate holds, another thread has a notification
  left to send, and its own next steps (at most three, none of which can block) wake the sleeper.\<close>

theorem no_lost_wakeup:
  assumes "qreach blocking q0 s"
  shows "(cons s = C_wait \<and> (q_stop (ring s) \<or> \<not> q_empty (ring s)) \<longrightarrow>
      (\<exists>a\<in>{Producer, Stopper}. \<exists>k\<le>3. \<exists>s'. qexec (replicate k a) s = Some s' \<and> cons s' = C_lock)) \<and>
    (prod s = P_wait x \<and> (q_stop (ring s) \<or> \<not> q_full (ring s)) \<longrightarrow>
      (\<exists>a\<in>{Consumer, Stopper}. \<exists>k\<le>3. \<exists>s'. qexec (replicate k a) s = Some s' \<and> prod s' = P_lock x))"
  (is "(?c \<longrightarrow> ?wc) \<and> (?p \<longrightarrow> ?wp)")
proof (intro conjI impI)
  assume c: ?c
  with wake_inv_reach [OF assms] have "prod_notifies (prod s) \<or> stop_notifies_consumer (stopr s)"
    by (simp add: wake_inv_def consumer_alert_def consumer_must_run_def)
  then show ?wc using c by (blast dest: producer_wakes stopper_wakes_consumer)
next
  assume p: ?p
  with wake_inv_reach [OF assms] have "cons_notifies (cons s) \<or> stop_notifies_producer (stopr s)"
    by (simp add: wake_inv_def producer_alert_def producer_must_run_def)
  then show ?wp using p by (blast dest: consumer_wakes stopper_wakes_producer)
qed

theorem no_lost_wakeup_witness:
  "\<exists>s. qexec (take 10 push_then_pop) (qsys_new demo_ring) = Some s \<and> cons s = C_wait \<and>
     (\<exists>a\<in>{Producer, Stopper}. \<exists>k\<le>3. \<exists>s'. qexec (replicate k a) s = Some s' \<and> cons s' = C_lock)"
proof -
  obtain s where s: "qexec (take 10 push_then_pop) (qsys_new demo_ring) = Some s" "cons s = C_wait"
    "\<not> q_empty (ring s)"
    by (simp add: push_then_pop_def qsys_new_def demo_ring_def q_empty_def q_full_def q_next_def
        write_slot_def advance_head_def wake_consumer_def)
  have "list_all blocking (take 10 push_then_pop)" by (simp add: push_then_pop_def)
  then have "qreach blocking demo_ring s" by (rule qexec_reach [OF qreach.start _ s(1)])
  from no_lost_wakeup [OF this] s show ?thesis by blast
qed

text \<open>C39. The lock-free \<open>try_push\<close> can lose the wake-up of every blocking \<open>pop\<close>: it publishes and notifies
  without taking the mutex, so it can fall between the consumer's check of its predicate and its going
  to sleep. From any reachable state in which the consumer has decided to sleep but does not sleep yet,
  with the other threads at rest and room in the ring, a \<open>try_push\<close> of any item can run to its end;
  then the consumer falls asleep with the item in the ring, no notification is left to send and no
  thread can take a step, so only a spurious wake-up or a later call helps. (With \<open>push\<close> this cannot
  happen: \<open>no_lost_wakeup\<close>.)\<close>

theorem try_push_loses_wakeup:
  assumes "spsc_new d n = Returns q0" and "qreach (\<lambda>_. True) q0 s"
    and "cons s = C_decided" and "prod s = P_idle" and "stopr s = S_idle" and "\<not> q_full (ring s)"
  shows "\<exists>s'. qexec (Call_try_push x # replicate 4 Producer @ [Consumer]) s = Some s' \<and>
    accepted s' = accepted s @ [x] \<and> taken s' = taken s \<and> q_contents (ring s') = q_contents (ring s) @ [x] \<and>
    cons s' = C_wait \<and> prod s' = P_idle \<and> (\<forall>a. thread_action a \<longrightarrow> qstep a s' = None)"
proof -
  let ?s' = "s\<lparr>ring := advance_head (write_slot (q_head (ring s)) x (ring s)), mtx := None, prod := P_idle,
     cons := C_wait, accepted := accepted s @ [x]\<rparr>"
  have full: "q_full (write_slot i x q) = q_full q" for i q by (simp add: write_slot_def q_full_def q_next_def)
  have run: "qexec (Call_try_push x # replicate 4 Producer @ [Consumer]) s = Some ?s'"
    using assms(3-6) by (simp add: eval_nat_numeral wake_consumer_def full)
  have r: "qreach (\<lambda>_. True) q0 ?s'" by (rule qexec_reach [OF assms(2) _ run]) (simp add: list_all_iff)
  have "data_inv s" "data_inv ?s'"
    using data_inv_reach [OF assms(2)] data_inv_reach [OF r] spsc_new_inv [OF assms(1)] by simp_all
  then have "q_contents (ring ?s') = q_contents (ring s) @ [x]" by (simp add: data_inv_def)
  moreover have "\<forall>a. thread_action a \<longrightarrow> qstep a ?s' = None"
    using assms(5) by (auto elim: thread_action.elims)
  ultimately show ?thesis using run by (intro exI [of _ ?s']) simp
qed

theorem try_push_loses_wakeup_witness:
  "\<exists>s s'. qexec [Call_pop, Consumer, Consumer] (qsys_new demo_ring) = Some s \<and>
     qexec (Call_try_push 7 # replicate 4 Producer @ [Consumer]) s = Some s' \<and>
     q_contents (ring s') = [7] \<and> cons s' = C_wait \<and> qstep Producer s' = None"
proof -
  obtain s where s: "qexec [Call_pop, Consumer, Consumer] (qsys_new demo_ring) = Some s" "cons s = C_decided" "prod s = P_idle"
    "stopr s = S_idle" "ring s = demo_ring"
    by (simp add: qsys_new_def demo_ring_def q_empty_def)
  have q: "\<not> q_full demo_ring" "q_contents demo_ring = []"
    by (simp_all add: demo_ring_def q_inv_def q_empty_def q_full_def q_next_def q_contents_def q_count_def)
  have "qreach (\<lambda>_. True) demo_ring s" by (rule qexec_reach [OF qreach.start _ s(1)]) simp
  from try_push_loses_wakeup [OF demo_ring_new this s(2-4), of 7] s(1,5) q show ?thesis by force
qed

end
