(* ===== verification/Sessions.thy ===== *)
theory Sessions
  imports Daemon_Properties
begin

text \<open>
  The connections of a running daemon side by side: the accept loop of \<open>Daemon::run\<close>, the threads
  in \<open>handle_client\<close> and \<open>enter_stream_mode\<close>, the writer threads of the stream clients, the
  controller's ring and consumer threads, and \<open>Daemon::stop\<close>, interleaved at the grain of one
  \<open>send\<close> of a writer, one handled line or one turn of a loop (\<open>session_step\<close>): a test of \<open>running_\<close> and the
  \<open>poll\<close> and \<open>recv\<close> after it are one step. File descriptors are
  numbers that the process's table (\<open>ss_fds\<close>) maps to connections, so that what a thread does with
  a number after the number was closed is what the operating system does with it.
\<close>

section \<open>State\<close>

text \<open>Where a connection's thread is: in the loop of \<open>handle_client\<close> with the bytes not yet
  handled; in the loop of \<open>enter_stream_mode\<close>; past it, with the client off both lists and shut
  down; past \<open>::close(fd)\<close>, with the last reference to the client about to go.\<close>

datatype phase = Serving string | Feeding | Leaving | Dropping

text \<open>Where the writer thread of a stream client is: at the head of \<open>writer_loop\<close>, in \<open>write_all\<close> with the
  bytes not yet sent, or past the loop.\<close>

datatype writer = W_loop | W_sending string | W_ended

record conn =
  cn_fd :: int
  cn_phase :: phase

text \<open>Connections are numbered in the order of \<open>accept\<close>; the stream client of a connection has its
  number as pointer. \<open>ss_out\<close> is what was sent to each connection's peer; \<open>ss_alive\<close> is false
  once an exception has left a thread.\<close>

record 'e sessions =
  ss_daemon :: "'e daemon"
  ss_fds :: "int \<Rightarrow> nat option"
  ss_conns :: "nat \<Rightarrow> conn option"
  ss_next :: nat
  ss_out :: "nat \<Rightarrow> string"
  ss_alive :: bool
  ss_writers :: "nat \<Rightarrow> writer"

definition sessions_new :: "'e daemon \<Rightarrow> 'e sessions" where
  "sessions_new d = \<lparr>ss_daemon = d, ss_fds = (\<lambda>_. None), ss_conns = (\<lambda>_. None), ss_next = 0,
     ss_out = (\<lambda>_. []), ss_alive = True, ss_writers = (\<lambda>_. W_ended)\<rparr>"

definition send_to :: "int \<Rightarrow> string \<Rightarrow> 'e sessions \<Rightarrow> 'e sessions" where
  "send_to fd bytes s =
     (case ss_fds s fd of None \<Rightarrow> s
      | Some n \<Rightarrow> s\<lparr>ss_out := (ss_out s)(n := ss_out s n @ bytes)\<rparr>)"

definition close_fd :: "int \<Rightarrow> 'e sessions \<Rightarrow> 'e sessions" where
  "close_fd fd s = s\<lparr>ss_fds := (ss_fds s)(fd := None)\<rparr>"

definition set_writer :: "nat \<Rightarrow> writer \<Rightarrow> 'e sessions \<Rightarrow> 'e sessions" where
  "set_writer n w s = s\<lparr>ss_writers := (ss_writers s)(n := w)\<rparr>"

definition set_conn :: "nat \<Rightarrow> conn option \<Rightarrow> 'e sessions \<Rightarrow> 'e sessions" where
  "set_conn n c s = s\<lparr>ss_conns := (ss_conns s)(n := c)\<rparr>"

text \<open>The body of the accept loop, for the number that \<open>accept\<close> returned.\<close>

definition accept_conn :: "int \<Rightarrow> 'e sessions \<Rightarrow> 'e sessions" where
  "accept_conn fd s = s\<lparr>ss_fds := (ss_fds s)(fd \<mapsto> ss_next s),
     ss_conns := (ss_conns s)(ss_next s \<mapsto> \<lparr>cn_fd = fd, cn_phase = Serving []\<rparr>),
     ss_next := Suc (ss_next s)\<rparr>"

text \<open>The destructor of \<open>SocketStreamClient\<close>, past the join of the writer thread.\<close>

definition drop_client :: "stream_client \<Rightarrow> 'e sessions \<Rightarrow> 'e sessions" where
  "drop_client k s = (if sc_fd k \<ge> 0 then close_fd (sc_fd k) s else s)"

section \<open>Steps\<close>

datatype session_action =
    Accepts int | Receives nat string | Handles nat | Hangs_up nat | Disconnects nat
  | Leaves nat | Feed_ends nat | Closes nat | Drops nat | Writes nat | Sends nat nat | Send_fails nat
  | Emits raw_event | Consumes | Stops

inductive session_step ::
  "'e enforcer_ops \<Rightarrow> 'j json_lib \<Rightarrow> file_resolver \<Rightarrow> (int \<Rightarrow> string) \<Rightarrow>
     session_action \<Rightarrow> 'e sessions \<Rightarrow> 'e sessions \<Rightarrow> bool"
  for ops L R fmt where
  accept: "ss_alive s \<Longrightarrow> ss_fds s fd = None \<Longrightarrow>
    fd \<ge> 0 \<Longrightarrow> session_step ops L R fmt (Accepts fd) s (accept_conn fd s)"
| receive: "ss_alive s \<Longrightarrow> ss_conns s n = Some \<lparr>cn_fd = fd, cn_phase = Serving buf\<rparr> \<Longrightarrow>
    d_running (ss_daemon s) \<Longrightarrow> cut_line buf = None \<Longrightarrow> ss_fds s fd \<noteq> None \<Longrightarrow> chunk \<noteq> [] \<Longrightarrow>
    session_step ops L R fmt (Receives n chunk) s
      (set_conn n (Some \<lparr>cn_fd = fd, cn_phase = Serving (buf @ chunk)\<rparr>) s)"
| blank: "ss_alive s \<Longrightarrow> ss_conns s n = Some \<lparr>cn_fd = fd, cn_phase = Serving buf\<rparr> \<Longrightarrow>
    cut_line buf = Some ([], rest) \<Longrightarrow>
    session_step ops L R fmt (Handles n) s
      (set_conn n (Some \<lparr>cn_fd = fd, cn_phase = Serving rest\<rparr>) s)"
| reply: "ss_alive s \<Longrightarrow> ss_conns s n = Some \<lparr>cn_fd = fd, cn_phase = Serving buf\<rparr> \<Longrightarrow>
    cut_line buf = Some (line, rest) \<Longrightarrow> line \<noteq> [] \<Longrightarrow>
    handle_line ops L R line (ss_daemon s) = Some (Replied out, d') \<Longrightarrow>
    session_step ops L R fmt (Handles n) s
      (set_conn n (Some \<lparr>cn_fd = fd, cn_phase = Serving rest\<rparr>) (send_to fd out (s\<lparr>ss_daemon := d'\<rparr>)))"
| stream: "ss_alive s \<Longrightarrow> ss_conns s n = Some \<lparr>cn_fd = fd, cn_phase = Serving buf\<rparr> \<Longrightarrow>
    cut_line buf = Some (line, rest) \<Longrightarrow> line \<noteq> [] \<Longrightarrow>
    handle_line ops L R line (ss_daemon s) = Some (Streams out, d') \<Longrightarrow>
    session_step ops L R fmt (Handles n) s
      (set_writer n W_loop (set_conn n (Some \<lparr>cn_fd = fd, cn_phase = Feeding\<rparr>)
        (send_to fd out (s\<lparr>ss_daemon := stream_enter n fd d'\<rparr>))))"
| crash: "ss_alive s \<Longrightarrow> ss_conns s n = Some \<lparr>cn_fd = fd, cn_phase = Serving buf\<rparr> \<Longrightarrow>
    cut_line buf = Some (line, rest) \<Longrightarrow> line \<noteq> [] \<Longrightarrow>
    handle_line ops L R line (ss_daemon s) = Some (Crashed m, d') \<Longrightarrow>
    session_step ops L R fmt (Handles n) s (s\<lparr>ss_daemon := d', ss_alive := False\<rparr>)"
| hang_up: "ss_alive s \<Longrightarrow> ss_conns s n = Some \<lparr>cn_fd = fd, cn_phase = Serving buf\<rparr> \<Longrightarrow>
    cut_line buf = None \<Longrightarrow> \<not> d_running (ss_daemon s) \<Longrightarrow>
    session_step ops L R fmt (Hangs_up n) s (set_conn n None (close_fd fd s))"
| disconnect: "ss_alive s \<Longrightarrow> ss_conns s n = Some \<lparr>cn_fd = fd, cn_phase = Serving buf\<rparr> \<Longrightarrow>
    cut_line buf = None \<Longrightarrow> d_running (ss_daemon s) \<Longrightarrow>
    session_step ops L R fmt (Disconnects n) s (set_conn n None (close_fd fd s))"
| leave: "ss_alive s \<Longrightarrow> ss_conns s n = Some \<lparr>cn_fd = fd, cn_phase = Feeding\<rparr> \<Longrightarrow>
    \<not> d_running (ss_daemon s) \<Longrightarrow>
    session_step ops L R fmt (Leaves n) s
      (set_conn n (Some \<lparr>cn_fd = fd, cn_phase = Leaving\<rparr>)
        (s\<lparr>ss_daemon := stream_leave n (ss_daemon s)\<rparr>))"
| feed_end: "ss_alive s \<Longrightarrow> ss_conns s n = Some \<lparr>cn_fd = fd, cn_phase = Feeding\<rparr> \<Longrightarrow>
    d_running (ss_daemon s) \<Longrightarrow>
    session_step ops L R fmt (Feed_ends n) s
      (set_conn n (Some \<lparr>cn_fd = fd, cn_phase = Leaving\<rparr>)
        (s\<lparr>ss_daemon := stream_leave n (ss_daemon s)\<rparr>))"
| close: "ss_alive s \<Longrightarrow> ss_conns s n = Some \<lparr>cn_fd = fd, cn_phase = Leaving\<rparr> \<Longrightarrow>
    session_step ops L R fmt (Closes n) s
      (set_conn n (Some \<lparr>cn_fd = fd, cn_phase = Dropping\<rparr>) (close_fd fd s))"
| drop: "ss_alive s \<Longrightarrow> ss_conns s n = Some \<lparr>cn_fd = fd, cn_phase = Dropping\<rparr> \<Longrightarrow>
    ss_writers s n = W_ended \<Longrightarrow>
    session_step ops L R fmt (Drops n) s
      (set_conn n None (drop_client (client_of (ss_daemon s) n) s))"
| write_head: "ss_alive s \<Longrightarrow> ss_conns s n = Some \<lparr>cn_fd = fd, cn_phase = ph\<rparr> \<Longrightarrow>
    ph \<in> {Feeding, Leaving, Dropping} \<Longrightarrow> ss_writers s n = W_loop \<Longrightarrow> writer_take (client_of (ss_daemon s) n) = Some (next_line, c') \<Longrightarrow>
    session_step ops L R fmt (Writes n) s
      (set_writer n (case next_line of None \<Rightarrow> W_ended | Some line \<Rightarrow> W_sending line)
        (s\<lparr>ss_daemon := update_client (\<lambda>_. c') n (ss_daemon s)\<rparr>))"
| write_send: "ss_alive s \<Longrightarrow> ss_conns s n = Some \<lparr>cn_fd = fd, cn_phase = ph\<rparr> \<Longrightarrow>
    ph \<in> {Feeding, Leaving, Dropping} \<Longrightarrow> ss_writers s n = W_sending line \<Longrightarrow> k \<le> length line \<Longrightarrow> 0 < k \<or> line = [] \<Longrightarrow>
    session_step ops L R fmt (Sends n k) s
      (set_writer n (if drop k line = [] then W_loop else W_sending (drop k line))
        (send_to (sc_fd (client_of (ss_daemon s) n)) (take k line) s))"
| write_fail: "ss_alive s \<Longrightarrow> ss_conns s n = Some \<lparr>cn_fd = fd, cn_phase = ph\<rparr> \<Longrightarrow>
    ph \<in> {Feeding, Leaving, Dropping} \<Longrightarrow> ss_writers s n = W_sending line \<Longrightarrow> line \<noteq> [] \<Longrightarrow>
    session_step ops L R fmt (Send_fails n) s
      (set_writer n W_ended
        (s\<lparr>ss_daemon := update_client (\<lambda>c. c\<lparr>sc_closed := True\<rparr>) n (ss_daemon s)\<rparr>))"
| emit: "ss_alive s \<Longrightarrow> ct_ring_thread (d_controller (ss_daemon s)) \<Longrightarrow>
    emit_event fmt raw (d_controller (ss_daemon s)) = Some c' \<Longrightarrow>
    session_step ops L R fmt (Emits raw) s (s\<lparr>ss_daemon := (ss_daemon s)\<lparr>d_controller := c'\<rparr>\<rparr>)"
| consume: "ss_alive s \<Longrightarrow> ct_consumer_thread (d_controller (ss_daemon s)) \<Longrightarrow>
    consume_one L (stream_ops L) (d_controller (ss_daemon s)) = Some (Returns True, c') \<Longrightarrow>
    session_step ops L R fmt Consumes s (s\<lparr>ss_daemon := (ss_daemon s)\<lparr>d_controller := c'\<rparr>\<rparr>)"
| consume_throws: "ss_alive s \<Longrightarrow> ct_consumer_thread (d_controller (ss_daemon s)) \<Longrightarrow>
    consume_one L (stream_ops L) (d_controller (ss_daemon s)) = Some (Throws m, c') \<Longrightarrow>
    session_step ops L R fmt Consumes s
      (s\<lparr>ss_daemon := (ss_daemon s)\<lparr>d_controller := c'\<rparr>, ss_alive := False\<rparr>)"
| stop: "ss_alive s \<Longrightarrow>
    session_step ops L R fmt Stops s (s\<lparr>ss_daemon := snd (daemon_stop (ss_daemon s))\<rparr>)"

inductive_cases session_stepE: "session_step ops L R fmt a s s'"

text \<open>Runs; \<open>ok\<close> restricts the steps taken.\<close>

inductive session_reach ::
  "(session_action \<Rightarrow> 'e sessions \<Rightarrow> bool) \<Rightarrow> 'e enforcer_ops \<Rightarrow> 'j json_lib \<Rightarrow> file_resolver \<Rightarrow>
     (int \<Rightarrow> string) \<Rightarrow> 'e daemon \<Rightarrow> 'e sessions \<Rightarrow> bool"
  for ok ops L R fmt d0 where
  init: "session_reach ok ops L R fmt d0 (sessions_new d0)"
| step: "session_reach ok ops L R fmt d0 s \<Longrightarrow> ok a s \<Longrightarrow> session_step ops L R fmt a s s' \<Longrightarrow>
    session_reach ok ops L R fmt d0 s'"

section \<open>What the steps leave alone\<close>

text \<open>The parts of the daemon that the stream clients live in.\<close>

definition client_view :: "'e daemon \<Rightarrow> nat list \<times> nat list \<times> (nat \<Rightarrow> stream_client)" where
  "client_view d = (ct_clients (d_controller d), d_stream_clients d, ct_client_store (d_controller d))"

lemma handle_request_view:
  assumes "handle_request ops L R req d = Some (r, d')"
  shows "client_view d' = client_view d \<and> (d_running d' \<longrightarrow> d_running d)"
  using assms
  by (auto simp: handle_request_def handle_load_def Let_def client_view_def daemon_stop_def
      dest!: load_policy_frame split: if_splits option.splits outcome.splits sum.splits prod.splits)

lemma handle_line_view:
  assumes "handle_line ops L R line d = Some (r, d')"
  shows "client_view d' = client_view d" "d_running d' \<Longrightarrow> d_running d"
proof -
  have "d' = d \<or> (\<exists>req j. handle_request ops L R req d = Some (j, d'))"
    using assms by (auto simp: handle_line_def Let_def split: sum.splits option.splits outcome.splits if_splits bool.splits)
  then show "client_view d' = client_view d" "d_running d' \<Longrightarrow> d_running d"
    by (auto dest: handle_request_view)
qed

text \<open>The lists and clients after the daemon's own operations.\<close>

abbreviation clients :: "'e sessions \<Rightarrow> nat list" where
  "clients s \<equiv> ct_clients (d_controller (ss_daemon s))"

abbreviation streams :: "'e sessions \<Rightarrow> nat list" where
  "streams s \<equiv> d_stream_clients (ss_daemon s)"

lemma stream_enter_view:
  "ct_clients (d_controller (stream_enter p fd d)) = ct_clients (d_controller d) @ [p]"
  "d_stream_clients (stream_enter p fd d) = d_stream_clients d @ [p]"
  "client_of (stream_enter p fd d) q = (if q = p then stream_client_new fd else client_of d q)"
  "d_running (stream_enter p fd d) = d_running d"
  by (simp_all add: stream_enter_def Let_def update_client_def add_event_stream_client_def client_of_def)

lemma stream_leave_view:
  "ct_clients (d_controller (stream_leave p d)) = filter (\<lambda>q. q \<noteq> p) (ct_clients (d_controller d))"
  "d_stream_clients (stream_leave p d) = filter (\<lambda>q. q \<noteq> p) (d_stream_clients d)"
  "client_of (stream_leave p d) q = (if q = p then client_shutdown (client_of d q) else client_of d q)"
  "d_running (stream_leave p d) = d_running d"
  by (simp_all add: stream_leave_def Let_def update_client_def remove_event_stream_client_def client_of_def)

lemma update_client_view:
  "ct_clients (d_controller (update_client f p d)) = ct_clients (d_controller d)"
  "d_stream_clients (update_client f p d) = d_stream_clients d"
  "client_of (update_client f p d) q = (if q = p then f (client_of d q) else client_of d q)"
  "d_running (update_client f p d) = d_running d"
  by (simp_all add: update_client_def client_of_def)

lemma fold_update_lists:
  "ct_clients (d_controller (fold (update_client f) ps d)) = ct_clients (d_controller d)"
  by (induction ps arbitrary: d) (simp_all add: update_client_view)

lemma daemon_stop_view:
  "ct_clients (d_controller (snd (daemon_stop d))) = ct_clients (d_controller d)"
  "set (d_stream_clients (snd (daemon_stop d))) \<subseteq> set (d_stream_clients d)"
  "sc_fd (client_of (snd (daemon_stop d)) q) = sc_fd (client_of d q)"
  "sc_closed (client_of d q) \<Longrightarrow> sc_closed (client_of (snd (daemon_stop d)) q)"
proof -
  have c: "client_of (d1\<lparr>d_stream_clients := xs\<rparr>) q = client_of d1 q" "client_of (d1\<lparr>d_running := b\<rparr>) q = client_of d1 q"
    for d1 :: "'a daemon" and xs b by (simp_all add: client_of_def)
  show "ct_clients (d_controller (snd (daemon_stop d))) = ct_clients (d_controller d)"
    "set (d_stream_clients (snd (daemon_stop d))) \<subseteq> set (d_stream_clients d)"
    "sc_fd (client_of (snd (daemon_stop d)) q) = sc_fd (client_of d q)"
    "sc_closed (client_of d q) \<Longrightarrow> sc_closed (client_of (snd (daemon_stop d)) q)"
    by (simp_all add: daemon_stop_def c fold_shutdown fold_update_lists)
qed

lemmas session_views = stream_enter_view stream_leave_view update_client_view daemon_stop_view

lemma client_push_keeps:
  assumes "client_push L e k = Returns k'"
  shows "sc_closed k' = sc_closed k \<and> sc_fd k' = sc_fd k"
proof (cases "sc_closed k")
  case False
  then obtain line where "json_of L e = Returns line" using assms by (auto simp: client_push_def obind_eq_Returns)
  with False assms show ?thesis
    by (cases "try_push line (sc_queue k)") (auto simp: client_push_def split: bool.splits)
qed (use assms in \<open>simp add: client_push_def\<close>)

text \<open>A delivery, also one that throws, takes only closed clients off the list.\<close>

definition delivered :: "nat list \<Rightarrow> (nat \<Rightarrow> stream_client) \<Rightarrow> nat list \<Rightarrow> (nat \<Rightarrow> stream_client) \<Rightarrow> bool" where
  "delivered ps store ps' store' \<longleftrightarrow> (distinct ps \<longrightarrow> distinct ps') \<and> set ps' \<subseteq> set ps \<and>
     {p \<in> set ps. \<not> sc_closed (store p)} \<subseteq> set ps' \<and>
     (\<forall>p. sc_closed (store' p) = sc_closed (store p) \<and> sc_fd (store' p) = sc_fd (store p))"

lemma deliver_delivered:
  "deliver (stream_ops L) e ps store = (ps', store', r) \<Longrightarrow> delivered ps store ps' store'"
proof (induction ps arbitrary: store ps')
  case (Cons p ps)
  show ?case
  proof (cases "sc_closed (store p)")
    case True
    with Cons.prems have "deliver (stream_ops L) e ps store = (ps', store', r)" by (simp add: stream_ops_def)
    from Cons.IH [OF this] True show ?thesis by (auto simp: delivered_def)
  next
    case False
    show ?thesis
    proof (cases "client_push L e (store p)")
      case (Returns k)
      with Cons.prems False obtain ps1 where d: "deliver (stream_ops L) e ps (store(p := k)) = (ps1, store', r)"
        and ps': "ps' = p # ps1"
        by (auto simp: stream_ops_def split: prod.splits)
      have "sc_closed ((store(p := k)) q) = sc_closed (store q) \<and> sc_fd ((store(p := k)) q) = sc_fd (store q)" for q
        using client_push_keeps [OF Returns] by simp
      with Cons.IH [OF d] show ?thesis by (auto simp: delivered_def ps')
    qed (use Cons.prems False in \<open>auto simp: delivered_def stream_ops_def\<close>)
  qed
qed (simp add: delivered_def)

lemma consume_one_delivered:
  assumes "consume_one L (stream_ops L) c = Some (r, c')"
  shows "delivered (ct_clients c) (ct_client_store c) (ct_clients c') (ct_client_store c')"
proof -
  have refl: "delivered ps store ps store" for ps store by (simp add: delivered_def)
  show ?thesis
    using assms refl deliver_delivered
    by (auto simp: consume_one_def split: option.splits outcome.splits prod.splits)
qed

lemma emit_event_view:
  "emit_event fmt raw c = Some c' \<Longrightarrow> ct_clients c' = ct_clients c \<and> ct_client_store c' = ct_client_store c"
  by (auto simp: emit_event_def Let_def)

lemma writer_take_keeps:
  "writer_take k = Some (x, k') \<Longrightarrow> sc_fd k' = sc_fd k \<and> (sc_closed k \<longrightarrow> sc_closed k' \<and> x = None)"
  by (auto simp: writer_take_def split: if_splits option.splits prod.splits)

section \<open>Registered clients belong to live feeds\<close>

definition phase_of :: "'e sessions \<Rightarrow> nat \<Rightarrow> phase option" where
  "phase_of s n = map_option cn_phase (ss_conns s n)"

definition client_fd_ok :: "stream_client \<Rightarrow> conn \<Rightarrow> bool" where
  "client_fd_ok k c = (case cn_phase c of Serving buf \<Rightarrow> True | Feeding \<Rightarrow> sc_fd k = cn_fd c
     | _ \<Rightarrow> sc_fd k = cn_fd c \<and> sc_closed k)"

lemma client_fd_ok_mono:
  "client_fd_ok k c \<Longrightarrow> sc_fd k' = sc_fd k \<Longrightarrow> (sc_closed k \<Longrightarrow> sc_closed k') \<Longrightarrow> client_fd_ok k' c"
  by (auto simp: client_fd_ok_def split: phase.splits)

lemma client_fd_ok_simps [simp]:
  "client_fd_ok k \<lparr>cn_fd = fd, cn_phase = Serving buf\<rparr>"
  "client_fd_ok k \<lparr>cn_fd = fd, cn_phase = Feeding\<rparr> \<longleftrightarrow> sc_fd k = fd"
  "client_fd_ok k \<lparr>cn_fd = fd, cn_phase = Leaving\<rparr> \<longleftrightarrow> sc_fd k = fd \<and> sc_closed k"
  "client_fd_ok k \<lparr>cn_fd = fd, cn_phase = Dropping\<rparr> \<longleftrightarrow> sc_fd k = fd \<and> sc_closed k"
  by (simp_all add: client_fd_ok_def)

definition registered_ok :: "'e sessions \<Rightarrow> bool" where
  "registered_ok s \<longleftrightarrow>
     distinct (clients s) \<and>
     (\<forall>n. n \<in> set (clients s) \<or> n \<in> set (streams s) \<longrightarrow> phase_of s n = Some Feeding) \<and>
     (\<forall>n. phase_of s n = Some Feeding \<longrightarrow> n \<in> set (clients s) \<or> sc_closed (client_of (ss_daemon s) n)) \<and>
     (\<forall>n. ss_conns s n \<noteq> None \<longrightarrow> n < ss_next s) \<and>
     (\<forall>n c. ss_conns s n = Some c \<longrightarrow> client_fd_ok (client_of (ss_daemon s) n) c)"

lemma send_to_sel [simp]:
  "ss_daemon (send_to fd b s) = ss_daemon s" "ss_conns (send_to fd b s) = ss_conns s"
  "ss_fds (send_to fd b s) = ss_fds s" "ss_next (send_to fd b s) = ss_next s"
  "ss_alive (send_to fd b s) = ss_alive s"
  by (simp_all add: send_to_def split: option.splits)

lemma close_fd_sel [simp]:
  "ss_daemon (close_fd fd s) = ss_daemon s" "ss_conns (close_fd fd s) = ss_conns s"
  "ss_fds (close_fd fd s) = (ss_fds s)(fd := None)" "ss_next (close_fd fd s) = ss_next s"
  "ss_alive (close_fd fd s) = ss_alive s" "ss_out (close_fd fd s) = ss_out s"
  by (simp_all add: close_fd_def)

lemma accept_conn_sel [simp]:
  "ss_daemon (accept_conn fd s) = ss_daemon s" "ss_next (accept_conn fd s) = Suc (ss_next s)"
  "ss_fds (accept_conn fd s) = (ss_fds s)(fd \<mapsto> ss_next s)" "ss_alive (accept_conn fd s) = ss_alive s"
  "ss_conns (accept_conn fd s) = (ss_conns s)(ss_next s \<mapsto> \<lparr>cn_fd = fd, cn_phase = Serving []\<rparr>)"
  "ss_out (accept_conn fd s) = ss_out s"
  by (simp_all add: accept_conn_def)

lemma drop_client_sel [simp]:
  "ss_daemon (drop_client k s) = ss_daemon s" "ss_conns (drop_client k s) = ss_conns s"
  "ss_fds (drop_client k s) = (if sc_fd k \<ge> 0 then (ss_fds s)(sc_fd k := None) else ss_fds s)"
  "ss_next (drop_client k s) = ss_next s" "ss_alive (drop_client k s) = ss_alive s" "ss_out (drop_client k s) = ss_out s"
  by (simp_all add: drop_client_def)

lemma set_writer_sel [simp]:
  "ss_daemon (set_writer n w s) = ss_daemon s" "ss_conns (set_writer n w s) = ss_conns s"
  "ss_fds (set_writer n w s) = ss_fds s" "ss_next (set_writer n w s) = ss_next s"
  "ss_alive (set_writer n w s) = ss_alive s" "ss_out (set_writer n w s) = ss_out s"
  "ss_writers (set_writer n w s) = (ss_writers s)(n := w)"
  by (simp_all add: set_writer_def)

lemma writers_sel [simp]:
  "ss_writers (send_to fd b s) = ss_writers s" "ss_writers (close_fd fd s) = ss_writers s"
  "ss_writers (accept_conn fd s) = ss_writers s" "ss_writers (drop_client k s) = ss_writers s"
  "ss_writers (set_conn n c s) = ss_writers s"
  by (simp_all add: send_to_def close_fd_def accept_conn_def drop_client_def set_conn_def split: option.splits)

lemma set_conn_sel [simp]:
  "ss_daemon (set_conn n c s) = ss_daemon s" "ss_conns (set_conn n c s) = (ss_conns s)(n := c)"
  "ss_fds (set_conn n c s) = ss_fds s" "ss_next (set_conn n c s) = ss_next s"
  "ss_alive (set_conn n c s) = ss_alive s" "ss_out (set_conn n c s) = ss_out s"
  by (simp_all add: set_conn_def)

lemma view_eqD:
  assumes "client_view d' = client_view d"
  shows "ct_clients (d_controller d') = ct_clients (d_controller d)" "d_stream_clients d' = d_stream_clients d"
    "client_of d' = client_of d"
  using assms by (auto simp: client_view_def client_of_def fun_eq_iff)

lemma client_of_controller: "client_of (d\<lparr>d_controller := c\<rparr>) p = ct_client_store c p"
  by (simp add: client_of_def)

lemma registered_client:
  "registered_ok s \<Longrightarrow> ss_conns s n = Some c \<Longrightarrow> client_fd_ok (client_of (ss_daemon s) n) c"
  unfolding registered_ok_def by blast

lemma registered_consume:
  assumes "registered_ok s"
    and "delivered (clients s) (ct_client_store (d_controller (ss_daemon s))) (ct_clients c') (ct_client_store c')"
  shows "registered_ok (s\<lparr>ss_daemon := (ss_daemon s)\<lparr>d_controller := c'\<rparr>\<rparr>)"
proof -
  have keep: "sc_closed (ct_client_store c' p) = sc_closed (client_of (ss_daemon s) p)"
    "sc_fd (ct_client_store c' p) = sc_fd (client_of (ss_daemon s) p)" for p
    using assms(2) by (simp_all add: delivered_def client_of_def)
  have "client_fd_ok (ct_client_store c' n) c" if "ss_conns s n = Some c" for n c
    using client_fd_ok_mono [OF registered_client [OF assms(1) that] keep(2)] keep(1) by blast
  with assms show ?thesis
    by (auto simp: registered_ok_def phase_of_def client_of_controller keep delivered_def client_of_def)
qed

lemma registered_step:
  assumes "registered_ok s" and "session_step ops L R fmt a s s'"
  shows "registered_ok s'"
proof -
  have consumed: "registered_ok (s\<lparr>ss_daemon := (ss_daemon s)\<lparr>d_controller := c'\<rparr>\<rparr>)"
    if "consume_one L (stream_ops L) (d_controller (ss_daemon s)) = Some (r, c')" for r c'
    using registered_consume [OF assms(1) consume_one_delivered [OF that]] .
  show ?thesis
    using assms(2)
  proof cases
    case (reply n fd buf line rest out d')
    note v = view_eqD [OF handle_line_view(1) [OF reply(7)]]
    from assms(1) reply show ?thesis by (auto simp: registered_ok_def phase_of_def v)
  next
    case (stream n fd buf line rest out d')
    note v = view_eqD [OF handle_line_view(1) [OF stream(7)]]
    have "n \<notin> set (clients s)" "n \<notin> set (streams s)"
      using assms(1) stream by (auto simp: registered_ok_def phase_of_def)
    with assms(1) stream show ?thesis
      by (auto simp: registered_ok_def phase_of_def v session_views stream_client_new_def)
  next
    case (crash n fd buf line rest m d')
    note v = view_eqD [OF handle_line_view(1) [OF crash(7)]]
    from assms(1) crash show ?thesis by (auto simp: registered_ok_def phase_of_def v)
  next
    case (consume c')
    then show ?thesis using consumed [of _ c'] by simp
  next
    case (consume_throws m c')
    then show ?thesis using consumed [of _ c'] by (simp add: registered_ok_def phase_of_def)
  next
    case (write_head n fd ph next_line c')
    let ?k = "client_of (ss_daemon s) n"
    from writer_take_keeps [OF write_head(7)] have k: "sc_fd c' = sc_fd ?k" "sc_closed ?k \<Longrightarrow> sc_closed c'"
      by simp_all
    have "client_fd_ok c' cc" if "ss_conns s n = Some cc" for cc
      using client_fd_ok_mono [OF _ k] assms(1) that by (simp add: registered_ok_def)
    with k assms(1) write_head(2) show ?thesis
      by (auto simp: registered_ok_def phase_of_def session_views)
  next
    case (write_fail n fd ph line)
    let ?k = "client_of (ss_daemon s) n"
    have "client_fd_ok (?k\<lparr>sc_closed := True\<rparr>) cc" if "ss_conns s n = Some cc" for cc
      using client_fd_ok_mono [of ?k cc "?k\<lparr>sc_closed := True\<rparr>"] assms(1) that by (simp add: registered_ok_def)
    with assms(1) write_fail(2) show ?thesis
      by (auto simp: registered_ok_def phase_of_def session_views)
  next
    case (leave n fd)
    from registered_client [OF assms(1) leave(4)] have "sc_fd (client_of (ss_daemon s) n) = fd" by simp
    with assms(1) leave show ?thesis
      by (auto simp: registered_ok_def phase_of_def session_views client_shutdown_def)
  next
    case (feed_end n fd)
    from registered_client [OF assms(1) feed_end(4)] have "sc_fd (client_of (ss_daemon s) n) = fd" by simp
    with assms(1) feed_end show ?thesis
      by (auto simp: registered_ok_def phase_of_def session_views client_shutdown_def)
  next
    case (close n fd)
    from registered_client [OF assms(1) close(4)] have "sc_fd (client_of (ss_daemon s) n) = fd"
      "sc_closed (client_of (ss_daemon s) n)" by simp_all
    with assms(1) close show ?thesis by (auto simp: registered_ok_def phase_of_def)
  next
    case stop
    have "client_fd_ok (client_of (ss_daemon s') n) c" if "ss_conns s n = Some c" for n c
      using client_fd_ok_mono [OF registered_client [OF assms(1) that] daemon_stop_view(3) daemon_stop_view(4)]
      by (simp add: stop(2))
    moreover have "set (streams s') \<subseteq> set (streams s)" using daemon_stop_view(2) by (simp add: stop(2))
    ultimately show ?thesis using assms(1) stop
      by (auto simp: registered_ok_def phase_of_def daemon_stop_view(1,4))
  next
    case (emit raw c')
    from emit_event_view [OF emit(5)] assms(1) emit show ?thesis
      by (simp add: registered_ok_def phase_of_def client_of_def)
  qed (use assms(1) in \<open>auto simp: registered_ok_def phase_of_def client_of_controller less_Suc_eq\<close>)
qed

lemma registered_reach:
  assumes "session_reach ok ops L R fmt d0 s"
    and "ct_clients (d_controller d0) = []" and "d_stream_clients d0 = []"
  shows "registered_ok s"
  using assms
proof (induction rule: session_reach.induct)
  case init
  then show ?case by (simp add: registered_ok_def sessions_new_def phase_of_def)
qed (use registered_step in blast)

text \<open>In every interleaving, what the controller delivers events to are the live feeds: the
  registered clients are distinct, each is the client of a connection whose thread is in the feed
  loop, every such connection's client is registered unless it is closed, and once a connection
  has left the feed neither list refers to its client.\<close>

theorem clients_are_feeds:
  assumes "session_reach ok ops L R fmt d0 s"
    and "ct_clients (d_controller d0) = []" and "d_stream_clients d0 = []"
  shows "distinct (clients s) \<and>
    set (clients s) \<union> set (streams s) \<subseteq> {n. phase_of s n = Some Feeding} \<and>
    {n. phase_of s n = Some Feeding \<and> \<not> sc_closed (client_of (ss_daemon s) n)} \<subseteq> set (clients s)"
  using registered_reach [OF assms] by (auto simp: registered_ok_def)

section \<open>Who owns a descriptor\<close>

text \<open>Descriptor numbers that a thread may still use belong to its own connection; a client that is
  about to be dropped holds a number that is free.\<close>

definition held :: "nat \<Rightarrow> conn \<Rightarrow> nat option" where
  "held n c = (if cn_phase c = Dropping then None else Some n)"

definition owned :: "'e sessions \<Rightarrow> bool" where
  "owned s \<longleftrightarrow> registered_ok s \<and>
     (\<forall>n c. ss_conns s n = Some c \<longrightarrow> ss_fds s (cn_fd c) = held n c)"

text \<open>No number is handed out again between the two times it is closed.\<close>

definition no_early_reuse :: "session_action \<Rightarrow> 'e sessions \<Rightarrow> bool" where
  "no_early_reuse a s = (case a of
     Accepts fd \<Rightarrow> \<not> (\<exists>n. ss_conns s n = Some \<lparr>cn_fd = fd, cn_phase = Dropping\<rparr>) | _ \<Rightarrow> True)"

lemma ownedD:
  assumes "owned s"
  shows "registered_ok s" and "ss_conns s n = Some c \<Longrightarrow> ss_fds s (cn_fd c) = held n c"
  using assms by (simp_all add: owned_def)

lemma owned_inj:
  assumes "owned s" and "ss_conns s n = Some c" "cn_phase c \<noteq> Dropping"
    and "ss_conns s m = Some c'" "cn_fd c' = cn_fd c"
  shows "m = n"
  using ownedD(2) [OF assms(1,2)] ownedD(2) [OF assms(1,4)] assms(3,5)
  by (auto simp: held_def split: if_splits)

lemma owned_step:
  assumes "owned s" and "no_early_reuse a s" and "session_step ops L R fmt a s s'"
  shows "owned s'"
proof -
  have reg: "registered_ok s'" using ownedD(1) [OF assms(1)] assms(3) by (rule registered_step)
  note fd = ownedD(2) [OF assms(1)]
  have "ss_fds s' (cn_fd c) = held m c" if m: "ss_conns s' m = Some c" for m c
    using assms(3)
  proof cases
    case (accept f)
    have "cn_fd c \<noteq> f" if c: "ss_conns s n = Some c" for n c
    proof
      assume "cn_fd c = f"
      with fd [OF c] accept(4) have "cn_phase c = Dropping" by (auto simp: held_def split: if_splits)
      with \<open>cn_fd c = f\<close> have "c = \<lparr>cn_fd = f, cn_phase = Dropping\<rparr>" by simp
      with c assms(2) accept(1) show False by (auto simp: no_early_reuse_def)
    qed
    with accept(2) m fd show ?thesis by (cases "m = ss_next s") (auto simp: held_def)
  next
    case (hang_up n f buf)
    from m hang_up(2) have c: "ss_conns s m = Some c" "m \<noteq> n" by (simp_all split: if_split_asm)
    with owned_inj [OF assms(1) hang_up(4) _ c(1)] have "cn_fd c \<noteq> f" by auto
    with hang_up(2) fd [OF c(1)] show ?thesis by simp
  next
    case (disconnect n f buf)
    from m disconnect(2) have c: "ss_conns s m = Some c" "m \<noteq> n" by (simp_all split: if_split_asm)
    with owned_inj [OF assms(1) disconnect(4) _ c(1)] have "cn_fd c \<noteq> f" by auto
    with disconnect(2) fd [OF c(1)] show ?thesis by simp
  next
    case (close n f)
    show ?thesis
    proof (cases "m = n")
      case True
      with m close(2) show ?thesis by (auto simp: held_def)
    next
      case False
      with m close(2) have c: "ss_conns s m = Some c" by simp
      with owned_inj [OF assms(1) close(4) _ c] False have "cn_fd c \<noteq> f" by auto
      with close(2) fd [OF c] show ?thesis by simp
    qed
  next
    case (drop n f)
    have "sc_fd (client_of (ss_daemon s) n) = f"
      using registered_client [OF ownedD(1) [OF assms(1)] drop(4)] by simp
    moreover have "ss_fds s f = None" using fd [OF drop(4)] by (simp add: held_def)
    ultimately have "ss_fds s' = ss_fds s" using drop by (simp add: fun_upd_idem)
    moreover have "ss_conns s m = Some c" using m drop(2) by (simp split: if_split_asm)
    ultimately show ?thesis using fd by simp
  qed (use m in \<open>auto simp: held_def dest: fd split: if_split_asm\<close>)
  with reg show ?thesis by (simp add: owned_def)
qed

lemma owned_reach:
  assumes "session_reach no_early_reuse ops L R fmt d0 s"
    and "ct_clients (d_controller d0) = []" and "d_stream_clients d0 = []"
  shows "owned s"
  using assms
proof (induction rule: session_reach.induct)
  case init
  with registered_reach [OF session_reach.init init] show ?case by (simp add: owned_def sessions_new_def)
qed (use owned_step in blast)

text \<open>The connection whose thread, or whose client's writer thread, makes a step.\<close>

fun actor :: "session_action \<Rightarrow> nat option" where
  "actor (Receives n chunk) = Some n" | "actor (Handles n) = Some n" | "actor (Hangs_up n) = Some n"
| "actor (Disconnects n) = Some n" | "actor (Leaves n) = Some n" | "actor (Feed_ends n) = Some n"
| "actor (Closes n) = Some n" | "actor (Drops n) = Some n" | "actor (Writes n) = Some n"
| "actor (Sends n k) = Some n" | "actor (Send_fails n) = Some n" | "actor _ = None"

lemma step_frame:
  assumes "session_step ops L R fmt a s s'" and "actor a = Some n" "m \<noteq> n"
  shows "ss_conns s' m = ss_conns s m"
  using assms by cases auto

lemma send_to_out: "ss_fds s fd \<in> {None, Some n} \<Longrightarrow> m \<noteq> n \<Longrightarrow> ss_out (send_to fd b s) m = ss_out s m"
  by (auto simp: send_to_def)

lemma step_out:
  assumes "owned s" and "session_step ops L R fmt a s s'" and "actor a = Some n" "m \<noteq> n"
  shows "ss_out s' m = ss_out s m"
proof -
  have fd: "ss_fds s (cn_fd c) \<in> {None, Some n}" if "ss_conns s n = Some c" for c
    using ownedD(2) [OF assms(1) that] by (simp add: held_def)
  show ?thesis
    using assms(2)
  proof cases
    case (reply n' f buf line rest out d')
    then show ?thesis using fd [of "\<lparr>cn_fd = f, cn_phase = Serving buf\<rparr>"] assms(3,4) by (simp add: send_to_out [of _ _ n])
  next
    case (stream n' f buf line rest out d')
    then show ?thesis using fd [of "\<lparr>cn_fd = f, cn_phase = Serving buf\<rparr>"] assms(3,4) by (simp add: send_to_out [of _ _ n])
  next
    case (write_send n' f ph line k)
    with registered_client [OF ownedD(1) [OF assms(1)] write_send(4)] have "sc_fd (client_of (ss_daemon s) n') = f" by auto
    with write_send show ?thesis using fd [of "\<lparr>cn_fd = f, cn_phase = ph\<rparr>"] assms(3,4) by (simp add: send_to_out [of _ _ n])
  qed (use assms(3,4) in simp_all)
qed

text \<open>C35. As long as no descriptor number is handed out again between the two times a stream
  connection closes it, every connection keeps to itself: the number a thread serves stands for
  its own connection, and a step of one connection's threads sends nothing to another, changes no
  other thread and closes no other connection's descriptor.\<close>

theorem connections_separate:
  assumes "session_reach no_early_reuse ops L R fmt d0 s"
    and "ct_clients (d_controller d0) = []" and "d_stream_clients d0 = []"
    and "ss_conns s m = Some c" "cn_phase c \<noteq> Dropping"
  shows "ss_fds s (cn_fd c) = Some m \<and>
    (\<forall>a n s'. session_step ops L R fmt a s s' \<longrightarrow> actor a = Some n \<longrightarrow> n \<noteq> m \<longrightarrow>
       ss_out s' m = ss_out s m \<and> ss_conns s' m = Some c \<and> ss_fds s' (cn_fd c) = Some m)"
proof (intro conjI allI impI)
  note o = owned_reach [OF assms(1-3)]
  show "ss_fds s (cn_fd c) = Some m" using ownedD(2) [OF o assms(4)] assms(5) by (simp add: held_def)
  fix a n s'
  assume st: "session_step ops L R fmt a s s'" and a: "actor a = Some n" "n \<noteq> m"
  show "ss_out s' m = ss_out s m" using step_out [OF o st a(1)] a(2) by simp
  show c: "ss_conns s' m = Some c" using step_frame [OF st a(1)] a(2) assms(4) by simp
  have "no_early_reuse a s" using a(1) by (cases a) (auto simp: no_early_reuse_def)
  from ownedD(2) [OF owned_step [OF o this st] c] assms(5) show "ss_fds s' (cn_fd c) = Some m"
    by (simp add: held_def)
qed

definition session_daemon :: "((fileguard_file_id \<times> fileguard_protected_val) list,
    (fileguard_rule_key \<times> fileguard_rule_val) list, fileguard_config) linux_enforcer daemon" where
  "session_daemon = demo_daemon\<lparr>d_controller := (d_controller demo_daemon)\<lparr>ct_clients := []\<rparr>,
     d_stream_clients := []\<rparr>"

lemma wire_stream_line:
  "handle_line ops wire_lib R ''r'' d = Some (Streams [CHR ''a'', newline], d)"
proof -
  have p: "jl_parse wire_lib ''r'' = Inr status_req" "jl_value_string wire_lib status_req ''cmd'' [] = Returns ''stream''"
    by (simp_all add: wire_lib_def demo_json_lib_def status_req_def)
  show ?thesis
    by (simp add: handle_line_def handle_request_def p)
       (simp add: wire_lib_def demo_json_lib_def status_req_def)
qed

text \<open>A reachable state of this daemon, by its descriptors, threads and output.\<close>

definition demo_state ::
  "(int \<Rightarrow> nat option) \<Rightarrow> (nat \<Rightarrow> conn option) \<Rightarrow> nat \<Rightarrow> (nat \<Rightarrow> string) \<Rightarrow> (nat \<Rightarrow> writer) \<Rightarrow> bool" where
  "demo_state fds conns k out w \<longleftrightarrow> (\<exists>s.
     session_reach (\<lambda>_ _. True) (linux_ops demo_sys demo_env) wire_lib demo_resolver demo_time session_daemon s \<and>
     ss_alive s \<and> d_running (ss_daemon s) \<and> ss_fds s = fds \<and> ss_conns s = conns \<and> ss_next s = k \<and> ss_out s = out \<and>
     ss_writers s = w)"

lemma demo_state_step:
  assumes "demo_state fds conns k out w"
    and "\<And>s. registered_ok s \<Longrightarrow> ss_alive s \<Longrightarrow> d_running (ss_daemon s) \<Longrightarrow> ss_fds s = fds \<Longrightarrow> ss_conns s = conns \<Longrightarrow>
      ss_next s = k \<Longrightarrow> ss_out s = out \<Longrightarrow> ss_writers s = w \<Longrightarrow>
      \<exists>a s'. session_step (linux_ops demo_sys demo_env) wire_lib demo_resolver demo_time a s s' \<and>
        ss_alive s' \<and> d_running (ss_daemon s') \<and> ss_fds s' = fds' \<and> ss_conns s' = conns' \<and> ss_next s' = k' \<and> ss_out s' = out' \<and>
        ss_writers s' = w'"
  shows "demo_state fds' conns' k' out' w'"
proof -
  from assms(1) obtain s where
    r: "session_reach (\<lambda>_ _. True) (linux_ops demo_sys demo_env) wire_lib demo_resolver demo_time session_daemon s"
    and s: "ss_alive s" "d_running (ss_daemon s)" "ss_fds s = fds" "ss_conns s = conns" "ss_next s = k" "ss_out s = out" "ss_writers s = w"
    by (auto simp: demo_state_def)
  have "registered_ok s"
    using registered_reach [OF r] by (simp add: session_daemon_def)
  from assms(2) [OF this s] session_reach.step [OF r TrueI] show ?thesis
    unfolding demo_state_def by blast
qed

lemma demo_accept:
  assumes "demo_state fds conns k out w" "fds fd = None" "fd \<ge> 0"
  shows "demo_state (fds(fd \<mapsto> k)) (conns(k \<mapsto> \<lparr>cn_fd = fd, cn_phase = Serving []\<rparr>)) (Suc k) out w"
  using assms(1)
proof (rule demo_state_step, goal_cases)
  case (1 s)
  with assms(2,3) show ?case by - (intro exI conjI, rule session_step.accept [where fd = fd], simp_all)
qed

lemma demo_receive:
  assumes "demo_state fds conns k out w" "conns n = Some \<lparr>cn_fd = fd, cn_phase = Serving []\<rparr>" "fds fd \<noteq> None" "chunk \<noteq> []"
  shows "demo_state fds (conns(n \<mapsto> \<lparr>cn_fd = fd, cn_phase = Serving chunk\<rparr>)) k out w"
  using assms(1)
proof (rule demo_state_step, goal_cases)
  case (1 s)
  with assms(2-4) show ?case by - (intro exI conjI, rule session_step.receive [where n = n and fd = fd and buf = "[]" and chunk = chunk], simp_all)
qed

lemma demo_leave:
  assumes "demo_state fds conns k out w" "conns n = Some \<lparr>cn_fd = fd, cn_phase = Feeding\<rparr>"
  shows "demo_state fds (conns(n \<mapsto> \<lparr>cn_fd = fd, cn_phase = Leaving\<rparr>)) k out w"
  using assms(1)
proof (rule demo_state_step, goal_cases)
  case (1 s)
  with assms(2) show ?case by - (intro exI conjI, rule session_step.feed_end [where n = n and fd = fd],
        simp_all add: session_views)
qed

lemma demo_close:
  assumes "demo_state fds conns k out w" "conns n = Some \<lparr>cn_fd = fd, cn_phase = Leaving\<rparr>"
  shows "demo_state (fds(fd := None)) (conns(n \<mapsto> \<lparr>cn_fd = fd, cn_phase = Dropping\<rparr>)) k out w"
  using assms(1)
proof (rule demo_state_step, goal_cases)
  case (1 s)
  with assms(2) show ?case by - (intro exI conjI, rule session_step.close [where n = n and fd = fd], simp_all)
qed

lemma demo_drop:
  assumes "demo_state fds conns k out w" "conns n = Some \<lparr>cn_fd = fd, cn_phase = Dropping\<rparr>" "w n = W_ended" "fd \<ge> 0"
  shows "demo_state (fds(fd := None)) (conns(n := None)) k out w"
  using assms(1)
proof (rule demo_state_step, goal_cases)
  case (1 s)
  then have "sc_fd (client_of (ss_daemon s) n) = fd" using registered_client [of s n] assms(2) by simp
  with 1 assms(2-4) show ?case by - (intro exI conjI, rule session_step.drop [where n = n and fd = fd], simp_all)
qed

lemma demo_writer_ends:
  assumes "demo_state fds conns k out w" "conns n = Some \<lparr>cn_fd = fd, cn_phase = Dropping\<rparr>" "w n = W_loop"
  shows "demo_state fds conns k out (w(n := W_ended))"
  using assms(1)
proof (rule demo_state_step, goal_cases)
  case (1 s)
  then have "sc_closed (client_of (ss_daemon s) n)" using registered_client [of s n] assms(2) by simp
  then have "writer_take (client_of (ss_daemon s) n) = Some (None, client_of (ss_daemon s) n)" by (simp add: writer_take_def)
  with 1 assms(2,3) show ?case
    by - (intro exI conjI, rule session_step.write_head [where n = n and fd = fd and ph = Dropping and next_line = None],
        simp_all add: update_client_view)
qed

lemma demo_stream:
  assumes "demo_state fds conns k out w" "conns n = Some \<lparr>cn_fd = fd, cn_phase = Serving [CHR ''r'', newline]\<rparr>"
    and "fds fd = Some m"
  shows "demo_state fds (conns(n \<mapsto> \<lparr>cn_fd = fd, cn_phase = Feeding\<rparr>)) k
    (out(m := out m @ [CHR ''a'', newline])) (w(n := W_loop))"
  using assms(1)
proof (rule demo_state_step, goal_cases)
  case (1 s)
  have cut: "cut_line [CHR ''r'', newline] = Some (''r'', [])" using cut_line_append [of "''r''" "[]"] by simp
  from 1 assms(2,3) cut show ?case
    by - (intro exI conjI, rule session_step.stream [where n = n and fd = fd, OF _ _ cut _ wire_stream_line],
        simp_all add: session_views send_to_def)
qed

lemma demo_feeding:
  "demo_state [5 \<mapsto> 0] [0 \<mapsto> \<lparr>cn_fd = 5, cn_phase = Feeding\<rparr>] 1 ((\<lambda>_. [])(0 := [CHR ''a'', newline]))
     ((\<lambda>_. W_ended)(0 := W_loop))"
proof -
  have "demo_state (\<lambda>_. None) (\<lambda>_. None) 0 (\<lambda>_. []) (\<lambda>_. W_ended)"
    unfolding demo_state_def
    by (intro exI [of _ "sessions_new session_daemon"] conjI session_reach.init)
       (simp_all add: sessions_new_def session_daemon_def demo_daemon_def)
  from demo_accept [OF this, of 5] have "demo_state [5 \<mapsto> 0] [0 \<mapsto> \<lparr>cn_fd = 5, cn_phase = Serving []\<rparr>] 1 (\<lambda>_. []) (\<lambda>_. W_ended)"
    by (simp add: eval_nat_numeral)
  from demo_receive [OF this, of 0 5 "[CHR ''r'', newline]"]
  have "demo_state [5 \<mapsto> 0] [0 \<mapsto> \<lparr>cn_fd = 5, cn_phase = Serving [CHR ''r'', newline]\<rparr>] 1 (\<lambda>_. []) (\<lambda>_. W_ended)" by (simp add: eval_nat_numeral)
  from demo_stream [OF this, of 0 5 0] show ?thesis by (simp add: eval_nat_numeral)
qed

theorem clients_are_feeds_witness:
  "\<exists>s. session_reach (\<lambda>_ _. True) (linux_ops demo_sys demo_env) wire_lib demo_resolver demo_time session_daemon s \<and>
     phase_of s 0 = Some Feeding \<and> distinct (clients s) \<and> set (clients s) \<subseteq> {0}"
proof -
  from demo_feeding obtain s where
    r: "session_reach (\<lambda>_ _. True) (linux_ops demo_sys demo_env) wire_lib demo_resolver demo_time session_daemon s"
    and c: "ss_conns s = [0 \<mapsto> \<lparr>cn_fd = 5, cn_phase = Feeding\<rparr>]"
    by (auto simp: demo_state_def)
  from clients_are_feeds [OF r] have "distinct (clients s)" "set (clients s) \<subseteq> {0}"
    by (auto simp: session_daemon_def phase_of_def c split: if_splits)
  with r c show ?thesis by (auto simp: phase_of_def)
qed

definition two_conns :: "((fileguard_file_id \<times> fileguard_protected_val) list,
    (fileguard_rule_key \<times> fileguard_rule_val) list, fileguard_config) linux_enforcer sessions" where
  "two_conns = (sessions_new session_daemon)\<lparr>ss_fds := [5 \<mapsto> 0, 6 \<mapsto> 1],
     ss_conns := [0 \<mapsto> \<lparr>cn_fd = 5, cn_phase = Serving []\<rparr>, 1 \<mapsto> \<lparr>cn_fd = 6, cn_phase = Serving []\<rparr>],
     ss_next := 2\<rparr>"

lemma two_conns_reach:
  "session_reach no_early_reuse (linux_ops demo_sys demo_env) wire_lib demo_resolver demo_time session_daemon two_conns"
proof -
  let ?reach = "session_reach no_early_reuse (linux_ops demo_sys demo_env) wire_lib demo_resolver demo_time session_daemon"
  let ?s1 = "(sessions_new session_daemon)\<lparr>ss_fds := [5 \<mapsto> 0],
     ss_conns := [0 \<mapsto> \<lparr>cn_fd = 5, cn_phase = Serving []\<rparr>], ss_next := 1\<rparr>"
  have "?reach ?s1"
    by (rule session_reach.step [OF session_reach.init, of _ "Accepts 5"])
       (simp_all add: no_early_reuse_def sessions_new_def session_step.simps accept_conn_def)
  then show ?thesis
    by (rule session_reach.step [of _ _ _ _ _ _ _ "Accepts 6"])
       (simp_all add: no_early_reuse_def sessions_new_def session_step.simps accept_conn_def two_conns_def eval_nat_numeral)
qed

theorem connections_separate_witness:
  "ss_fds two_conns 6 = Some 1 \<and>
   (\<exists>s'. session_step (linux_ops demo_sys demo_env) wire_lib demo_resolver demo_time (Disconnects 0) two_conns s' \<and>
     ss_fds s' 6 = Some 1)"
proof -
  have c: "ss_conns two_conns 1 = Some \<lparr>cn_fd = 6, cn_phase = Serving []\<rparr>" by (simp add: two_conns_def)
  have "session_step (linux_ops demo_sys demo_env) wire_lib demo_resolver demo_time (Disconnects 0) two_conns
      (set_conn 0 None (close_fd 5 two_conns))"
    by (rule session_step.disconnect [where buf = "[]"])
       (simp_all add: two_conns_def sessions_new_def session_daemon_def demo_daemon_def)
  with connections_separate [OF two_conns_reach _ _ c] show ?thesis
    by (fastforce simp: session_daemon_def)
qed

text \<open>Reuse in between breaks the separation: \<open>enter_stream_mode\<close> closes the descriptor and the
  client's destructor closes the number again. A connection accepted between the two closes gets
  the number and loses it with the second close; the next connection gets it once more, and the
  reply to the second connection's request goes to the third.\<close>

theorem double_close_misroutes:
  "\<exists>s. session_reach (\<lambda>_ _. True) (linux_ops demo_sys demo_env) wire_lib demo_resolver demo_time session_daemon s \<and>
     ss_conns s 1 = Some \<lparr>cn_fd = 5, cn_phase = Feeding\<rparr> \<and> ss_out s 1 = [] \<and>
     ss_conns s 2 = Some \<lparr>cn_fd = 5, cn_phase = Serving []\<rparr> \<and> ss_out s 2 = [CHR ''a'', newline]"
proof -
  from demo_leave [OF demo_feeding, of 0 5] have "demo_state [5 \<mapsto> 0] [0 \<mapsto> \<lparr>cn_fd = 5, cn_phase = Leaving\<rparr>] 1
    ((\<lambda>_. [])(0 := [CHR ''a'', newline])) ((\<lambda>_. W_ended)(0 := W_loop))" by (simp add: eval_nat_numeral)
  from demo_close [OF this, of 0 5] have "demo_state (\<lambda>_. None) [0 \<mapsto> \<lparr>cn_fd = 5, cn_phase = Dropping\<rparr>] 1
    ((\<lambda>_. [])(0 := [CHR ''a'', newline])) ((\<lambda>_. W_ended)(0 := W_loop))" by (simp add: eval_nat_numeral)
  from demo_accept [OF this, of 5] have "demo_state [5 \<mapsto> 1]
      [0 \<mapsto> \<lparr>cn_fd = 5, cn_phase = Dropping\<rparr>, 1 \<mapsto> \<lparr>cn_fd = 5, cn_phase = Serving []\<rparr>] 2
    ((\<lambda>_. [])(0 := [CHR ''a'', newline])) ((\<lambda>_. W_ended)(0 := W_loop))" by (simp add: eval_nat_numeral)
  from demo_receive [OF this, of 1 5 "[CHR ''r'', newline]"] have "demo_state [5 \<mapsto> 1]
      [0 \<mapsto> \<lparr>cn_fd = 5, cn_phase = Dropping\<rparr>, 1 \<mapsto> \<lparr>cn_fd = 5, cn_phase = Serving [CHR ''r'', newline]\<rparr>] 2
    ((\<lambda>_. [])(0 := [CHR ''a'', newline])) ((\<lambda>_. W_ended)(0 := W_loop))" by (simp add: eval_nat_numeral)
  from demo_writer_ends [OF this, of 0 5] have "demo_state [5 \<mapsto> 1]
      [0 \<mapsto> \<lparr>cn_fd = 5, cn_phase = Dropping\<rparr>, 1 \<mapsto> \<lparr>cn_fd = 5, cn_phase = Serving [CHR ''r'', newline]\<rparr>] 2
    ((\<lambda>_. [])(0 := [CHR ''a'', newline])) (\<lambda>_. W_ended)" by (simp add: eval_nat_numeral fun_upd_idem)
  from demo_drop [OF this, of 0 5] have "demo_state (\<lambda>_. None)
      [1 \<mapsto> \<lparr>cn_fd = 5, cn_phase = Serving [CHR ''r'', newline]\<rparr>] 2
    ((\<lambda>_. [])(0 := [CHR ''a'', newline])) (\<lambda>_. W_ended)" by (simp add: fun_upd_twist eval_nat_numeral)
  from demo_accept [OF this, of 5] have "demo_state [5 \<mapsto> 2]
      [1 \<mapsto> \<lparr>cn_fd = 5, cn_phase = Serving [CHR ''r'', newline]\<rparr>, 2 \<mapsto> \<lparr>cn_fd = 5, cn_phase = Serving []\<rparr>] 3
    ((\<lambda>_. [])(0 := [CHR ''a'', newline])) (\<lambda>_. W_ended)" by (simp add: eval_nat_numeral)
  from demo_stream [OF this, of 1 5 2] show ?thesis
    unfolding demo_state_def by auto
qed

section \<open>Connections end after a stop\<close>
















end
