(* ===== verification/Serve.thy ===== *)
theory Serve
  imports Cli Daemon_Properties
begin

text \<open>
  The subcommand \<open>serve\<close>: \<open>run_serve\<close> and \<open>ensure_runtime_dir\<close> of \<open>src/cli.cpp\<close> around
  \<open>Daemon::run\<close> and the destructors. After the set-up two threads run: the main thread, which waits
  for the end of the daemon or for a signal, and the thread in \<open>Daemon::run\<close>; a step of the
  process (\<open>serve_step\<close>) is a step of one of them, a signal, or a handled request line.
\<close>

section \<open>Set-up\<close>

datatype fork_result = Fork_failed string | Fork_parent | Fork_child

record serve_env =
  se_exists :: bool \<comment> \<open>the socket path exists\<close>
  se_fork :: fork_result
  se_devnull :: bool \<comment> \<open>\<open>/dev/null\<close> opens\<close>
  se_create_dir :: "string option" \<comment> \<open>the message of a failing \<open>create_directories\<close>\<close>

definition ensure_runtime_dir :: "serve_env \<Rightarrow> string \<Rightarrow> unit result" where
  "ensure_runtime_dir E dir =
     (case se_create_dir E of
        Some msg \<Rightarrow> Inl (''cannot create runtime directory '' @ quoted dir @ '': '' @ msg)
      | None \<Rightarrow> Inr ())"

text \<open>Output of the process goes nowhere once the child has redirected it.\<close>

definition shown :: "serve_env \<Rightarrow> cli_args \<Rightarrow> string \<Rightarrow> string" where
  "shown E args text = (if ca_daemonize args \<and> se_devnull E then [] else text)"

text \<open>Up to the construction of the daemon: an exit, or its configuration.\<close>

definition serve_setup :: "serve_env \<Rightarrow> cli_args \<Rightarrow> run_result + daemon_config" where
  "serve_setup E args =
     (let sock = socket_path (ca_runtime_dir args);
          go = (case ensure_runtime_dir E (ca_runtime_dir args) of
              Inl e \<Rightarrow> Inl (1, [], shown E args (''fileguard: '' @ e @ [newline]))
            | Inr _ \<Rightarrow> Inr (serve_config args))
      in if se_exists E then
           Inl (1, [], ''fileguard: a controller is already running ('' @ sock @ '')'' @ [newline])
         else if ca_daemonize args then
           (case se_fork E of
              Fork_failed msg \<Rightarrow> Inl (1, [], ''fork failed: '' @ msg @ [newline])
            | Fork_parent \<Rightarrow> Inl (0, [], [])
            | Fork_child \<Rightarrow> go)
         else go)"

section \<open>The two threads\<close>

datatype run_phase = Starting | Running serving | Ended "unit result"

datatype main_phase = Waiting_done | Joining | Exited int

record 'e process =
  pr_daemon :: "'e daemon"
  pr_run :: run_phase
  pr_main :: main_phase
  pr_signal :: nat \<comment> \<open>\<open>g_signal\<close>\<close>
  pr_out :: string
  pr_err :: string

definition serve_begin :: "cli_args \<Rightarrow> 'e daemon \<Rightarrow> 'e process" where
  "serve_begin args d = \<lparr>pr_daemon = d, pr_run = Starting, pr_main = Waiting_done, pr_signal = 0,
     pr_out = ''fileguard: serving on '' @ socket_path (ca_runtime_dir args) @ [newline] @
       ''  eBPF FileGuard 0.1.0 '' @ em_dash @ '' Kernel-Assisted Runtime File Access Control'' @ [newline],
     pr_err = []\<rparr>"

text \<open>The main thread after its wait.\<close>

definition main_wake :: "'e process \<Rightarrow> 'e process" where
  "main_wake p =
     (if pr_signal p \<noteq> 0 then
        p\<lparr>pr_main := Joining,
          pr_out := pr_out p @ [newline] @ ''fileguard: received signal '' @ show_nat (pr_signal p) @
            '', shutting down'' @ [newline],
          pr_daemon := snd (daemon_stop (pr_daemon p))\<rparr>
      else p\<lparr>pr_main := Joining\<rparr>)"

text \<open>After the join: the exit code and its message.\<close>

definition main_report :: "unit result \<Rightarrow> 'e process \<Rightarrow> 'e process" where
  "main_report r p =
     (case r of
        Inl e \<Rightarrow> p\<lparr>pr_main := Exited 1, pr_err := pr_err p @ ''fileguard: controller exited with an error: '' @
          (if e = [] then ''unknown'' else e) @ [newline]\<rparr>
      | Inr _ \<Rightarrow> p\<lparr>pr_main := Exited 0, pr_out := pr_out p @ ''fileguard: stopped cleanly'' @ [newline]\<rparr>)"

text \<open>The destructors of \<open>Daemon\<close> and of its \<open>Controller\<close>; \<open>None\<close> when an exception ends the process.\<close>

definition destroy_daemon :: "'e enforcer_ops \<Rightarrow> 'j json_lib \<Rightarrow> 'e daemon \<Rightarrow> 'e daemon option" where
  "destroy_daemon ops L d =
     (let d1 = snd (daemon_stop d) in
      case request_stop ops L (stream_ops L) (d_controller d1) of
        Some (Returns _, c) \<Rightarrow> Some (d1\<lparr>d_controller := c\<rparr>)
      | _ \<Rightarrow> None)"

datatype serve_action = Run | Request string | Signal nat | Main

inductive serve_step ::
  "'e enforcer_ops \<Rightarrow> (enforcer_config \<Rightarrow> 'e) \<Rightarrow> 'j json_lib \<Rightarrow> file_system \<Rightarrow> file_resolver \<Rightarrow> run_env \<Rightarrow>
     serve_action \<Rightarrow> 'e process \<Rightarrow> 'e process \<Rightarrow> bool"
  for ops create L fs R env where
  run_starts: "pr_run p = Starting \<Longrightarrow>
    daemon_run_start ops create L fs R env nothing_left (pr_daemon p) = Some (Returns (Inr ()), sv, d') \<Longrightarrow>
    serve_step ops create L fs R env Run p (p\<lparr>pr_run := Running sv, pr_daemon := d'\<rparr>)"
| run_fails: "pr_run p = Starting \<Longrightarrow>
    daemon_run_start ops create L fs R env nothing_left (pr_daemon p) = Some (Returns (Inl e), sv, d') \<Longrightarrow>
    serve_step ops create L fs R env Run p (p\<lparr>pr_run := Ended (Inl e), pr_daemon := d'\<rparr>)"
| run_ends: "pr_run p = Running sv \<Longrightarrow> \<not> d_running (pr_daemon p) \<Longrightarrow>
    daemon_run_finish ops L sv (pr_daemon p) = Some (Returns r, sv', d') \<Longrightarrow>
    serve_step ops create L fs R env Run p (p\<lparr>pr_run := Ended r, pr_daemon := d'\<rparr>)"
| request: "pr_run p = Running sv \<Longrightarrow> d_running (pr_daemon p) \<Longrightarrow>
    handle_line ops L R line (pr_daemon p) = Some (e, d') \<Longrightarrow> (\<forall>m. e \<noteq> Crashed m) \<Longrightarrow>
    serve_step ops create L fs R env (Request line) p (p\<lparr>pr_daemon := d'\<rparr>)"
| signalled: "sig \<noteq> 0 \<Longrightarrow> (\<forall>rc. pr_main p \<noteq> Exited rc) \<Longrightarrow>
    serve_step ops create L fs R env (Signal sig) p (p\<lparr>pr_signal := sig\<rparr>)"
| main_wakes: "pr_main p = Waiting_done \<Longrightarrow> pr_signal p \<noteq> 0 \<or> (\<exists>r. pr_run p = Ended r) \<Longrightarrow>
    serve_step ops create L fs R env Main p (main_wake p)"
| main_exits: "pr_main p = Joining \<Longrightarrow> pr_run p = Ended r \<Longrightarrow> destroy_daemon ops L (pr_daemon p) = Some d' \<Longrightarrow>
    serve_step ops create L fs R env Main p (main_report r (p\<lparr>pr_daemon := d'\<rparr>))"

inductive_cases serve_stepE: "serve_step ops create L fs R env a p q"

inductive serve_reach ::
  "(serve_action \<Rightarrow> bool) \<Rightarrow> 'e enforcer_ops \<Rightarrow> (enforcer_config \<Rightarrow> 'e) \<Rightarrow> 'j json_lib \<Rightarrow> file_system \<Rightarrow>
     file_resolver \<Rightarrow> run_env \<Rightarrow> 'e process \<Rightarrow> 'e process \<Rightarrow> bool"
  for ok ops create L fs R env p0 where
  begins: "serve_reach ok ops create L fs R env p0 p0"
| step: "serve_reach ok ops create L fs R env p0 p \<Longrightarrow> ok a \<Longrightarrow> serve_step ops create L fs R env a p q \<Longrightarrow>
    serve_reach ok ops create L fs R env p0 q"

section \<open>Set-up outcomes\<close>

text \<open>The set-up of \<open>serve\<close> goes on to the daemon exactly in the process that is to become it: no
  socket in the way, the directory there, and in the child when it forks; the daemon then
  listens on and records its PID in the runtime directory. Every other outcome exits, with code
  0 only in the parent.\<close>

theorem serve_setup_cases:
  "(serve_setup E args = Inr cfg \<longleftrightarrow>
      \<not> se_exists E \<and> (ca_daemonize args \<longrightarrow> se_fork E = Fork_child) \<and> se_create_dir E = None \<and>
      cfg = serve_config args) \<and>
   (serve_setup E args = Inl (rc, out, err) \<longrightarrow> out = [] \<and>
      (rc = 0 \<longleftrightarrow> \<not> se_exists E \<and> ca_daemonize args \<and> se_fork E = Fork_parent))"
  by (auto simp: serve_setup_def ensure_runtime_dir_def Let_def split: option.splits fork_result.splits if_splits)

definition child_env :: serve_env where
  "child_env = \<lparr>se_exists = False, se_fork = Fork_child, se_devnull = True, se_create_dir = None\<rparr>"

theorem serve_setup_cases_witness:
  "serve_setup child_env (initial_args\<lparr>ca_daemonize := True\<rparr>) = Inr (serve_config (initial_args\<lparr>ca_daemonize := True\<rparr>)) \<and>
   serve_setup (child_env\<lparr>se_fork := Fork_parent\<rparr>) (initial_args\<lparr>ca_daemonize := True\<rparr>) = Inl (0, [], [])"
  using serve_setup_cases [of child_env "initial_args\<lparr>ca_daemonize := True\<rparr>"]
    serve_setup_cases [of "child_env\<lparr>se_fork := Fork_parent\<rparr>" "initial_args\<lparr>ca_daemonize := True\<rparr>" _ 0 "[]" "[]"]
  by (simp add: child_env_def serve_setup_def)

section \<open>A lost signal\<close>

text \<open>Once the main thread is past its wait, only a request can clear \<open>running_\<close>.\<close>

lemma serving_for_ever:
  assumes "serve_reach (\<lambda>a. \<forall>line. a \<noteq> Request line) ops create L fs R env p q"
    and "pr_main p = Joining" and "pr_run p = Running sv" and "d_running (pr_daemon p)"
  shows "pr_main q = Joining \<and> pr_run q = Running sv \<and> d_running (pr_daemon q)"
  using assms
proof (induction rule: serve_reach.induct)
  case (step q a q')
  then have q: "pr_main q = Joining" "pr_run q = Running sv" "d_running (pr_daemon q)" by simp_all
  from step.hyps(3,2) q show ?case by cases auto
qed simp

lemma shutdown_running: "d_running (fold (update_client f) ps d) = d_running d"
  by (induction ps arbitrary: d) (simp_all add: update_client_def)

text \<open>C33. A signal during start-up can be lost; it depends on which thread is first. Suppose that a
  signal has arrived while \<open>Daemon::run\<close> is still setting up, and that the set-up will succeed. If the main
  thread wakes up for it before \<open>run\<close> sets \<open>running_\<close>, which is always possible, its \<open>stop()\<close> does
  nothing: the daemon then serves, and whatever happens except requests, further signals included, the
  main thread stays in the join and the daemon keeps serving. If \<open>run\<close> sets \<open>running_\<close> first, the wake-up
  clears it again, and the signal works.\<close>

theorem startup_signal_lost:
  assumes "pr_run p = Starting" and "pr_main p = Waiting_done" and "\<not> d_running (pr_daemon p)" and "pr_signal p \<noteq> 0"
    and "daemon_run_start ops create L fs R env nothing_left (pr_daemon p) = Some (Returns (Inr ()), sv, d')"
    and "d_running d'"
  shows "(\<exists>p1 p2. serve_step ops create L fs R env Main p p1 \<and> serve_step ops create L fs R env Run p1 p2) \<and>
    (\<forall>p1 p2 q. serve_step ops create L fs R env Main p p1 \<longrightarrow> serve_step ops create L fs R env Run p1 p2 \<longrightarrow>
       serve_reach (\<lambda>a. \<forall>line. a \<noteq> Request line) ops create L fs R env p2 q \<longrightarrow>
       pr_main q = Joining \<and> pr_run q = Running sv \<and> d_running (pr_daemon q)) \<and>
    (\<forall>p1 p2. serve_step ops create L fs R env Run p p1 \<longrightarrow> serve_step ops create L fs R env Main p1 p2 \<longrightarrow>
       pr_run p2 = Running sv \<and> \<not> d_running (pr_daemon p2))"
proof (intro conjI allI impI)
  let ?p1 = "main_wake p" and ?p2 = "(main_wake p)\<lparr>pr_run := Running sv, pr_daemon := d'\<rparr>"
  have d: "pr_daemon ?p1 = pr_daemon p" "pr_run ?p1 = Starting" "pr_main ?p1 = Joining"
    using assms(1-4) by (simp_all add: main_wake_def daemon_stop_def)
  have "serve_step ops create L fs R env Main p ?p1" using assms(2,4) by (blast intro: serve_step.main_wakes)
  moreover have "serve_step ops create L fs R env Run ?p1 ?p2"
    using assms(5) d by (intro serve_step.run_starts) simp_all
  ultimately show "\<exists>p1 p2. serve_step ops create L fs R env Main p p1 \<and> serve_step ops create L fs R env Run p1 p2" by blast
  fix p1 p2
  {
    fix q
    assume "serve_step ops create L fs R env Main p p1" "serve_step ops create L fs R env Run p1 p2"
      and q: "serve_reach (\<lambda>a. \<forall>line. a \<noteq> Request line) ops create L fs R env p2 q"
    then have "p1 = ?p1" using assms(2) by (auto elim: serve_stepE)
    with \<open>serve_step ops create L fs R env Run p1 p2\<close> assms(5) d have "p2 = ?p2" by (auto elim!: serve_stepE)
    with serving_for_ever [OF q, of sv] d assms(6)
    show "pr_main q = Joining" "pr_run q = Running sv" "d_running (pr_daemon q)" by simp_all
  }
  assume "serve_step ops create L fs R env Run p p1" "serve_step ops create L fs R env Main p1 p2"
  then have p1: "p1 = p\<lparr>pr_run := Running sv, pr_daemon := d'\<rparr>" using assms(1,5) by (auto elim!: serve_stepE)
  with \<open>serve_step ops create L fs R env Main p1 p2\<close> assms(2) have "p2 = main_wake p1" by (auto elim: serve_stepE)
  with p1 assms(4,6) show "pr_run p2 = Running sv" "\<not> d_running (pr_daemon p2)"
    by (simp_all add: main_wake_def daemon_stop_def shutdown_running)
qed

text \<open>A daemon before \<open>run\<close>, for the examples.\<close>

definition fresh_daemon :: "string \<Rightarrow> 'e daemon" where
  "fresh_daemon file = \<lparr>d_cfg = \<lparr>dc_controller = default_controller_config, dc_socket_path = ''/tmp/s'', dc_pid_file = []\<rparr>,
     d_controller = \<lparr>ct_cfg = default_controller_config\<lparr>cc_policy_file := file\<rparr>, ct_policy_manager = pm_new,
       ct_enforcer = None, ct_resolver = None,
       ct_queue = \<lparr>q_slots = [empty_event, empty_event], q_head = 0, q_tail = 0, q_stop = False\<rparr>,
       ct_sinks = [], ct_boot_offset_ns = 0, ct_clients = [], ct_client_store = (\<lambda>_. stream_client_new 3),
       ct_started = False, ct_ring_thread = False, ct_consumer_thread = False\<rparr>,
     d_running = False, d_stream_clients = []\<rparr>"

theorem startup_signal_lost_witness:
  "\<exists>p1 p2. serve_step null_ops null_new wire_lib (\<lambda>_. None) demo_resolver ok_env Main
      ((serve_begin initial_args (fresh_daemon []))\<lparr>pr_signal := 15\<rparr>) p1 \<and>
    serve_step null_ops null_new wire_lib (\<lambda>_. None) demo_resolver ok_env Run p1 p2 \<and> d_running (pr_daemon p2)"
proof -
  let ?p = "(serve_begin initial_args (fresh_daemon []))\<lparr>pr_signal := 15\<rparr> :: null_enforcer process"
  have "\<exists>sv d'. daemon_run_start null_ops null_new wire_lib (\<lambda>_. None) demo_resolver ok_env nothing_left (pr_daemon ?p) =
      Some (Returns (Inr ()), sv, d') \<and> d_running d'"
    by (simp add: daemon_run_start_def serve_begin_def fresh_daemon_def ok_env_def start_def null_ops_def null_simps
        nothing_left_def)
  then obtain sv d' where run: "daemon_run_start null_ops null_new wire_lib (\<lambda>_. None) demo_resolver ok_env nothing_left
      (pr_daemon ?p) = Some (Returns (Inr ()), sv, d')" and d': "d_running d'" by blast
  have "pr_run ?p = Starting" "pr_main ?p = Waiting_done" "\<not> d_running (pr_daemon ?p)" "pr_signal ?p \<noteq> 0"
    by (simp_all add: serve_begin_def fresh_daemon_def)
  note lost = startup_signal_lost [OF this run d']
  then obtain p1 p2 where "serve_step null_ops null_new wire_lib (\<lambda>_. None) demo_resolver ok_env Main ?p p1"
    "serve_step null_ops null_new wire_lib (\<lambda>_. None) demo_resolver ok_env Run p1 p2" by blast
  with lost serve_reach.begins show ?thesis by blast
qed

section \<open>Nothing is left enforcing\<close>

definition detached :: "'e enforcer_ops \<Rightarrow> 'e daemon \<Rightarrow> bool" where
  "detached ops d \<longleftrightarrow> \<not> st_attached (controller_status ops (d_controller d)) \<and>
     \<not> st_enforcing (controller_status ops (d_controller d))"

lemma consume_one_frame:
  "consume_one L K c = Some (r, c') \<Longrightarrow> ct_enforcer c' = ct_enforcer c \<and> ct_started c' = ct_started c"
  by (auto simp: consume_one_def split: option.splits outcome.splits prod.splits)

lemma consumer_loop_frame:
  "consumer_loop n L K c = Some (r, c') \<Longrightarrow> ct_enforcer c' = ct_enforcer c \<and> ct_started c' = ct_started c"
proof (induction n arbitrary: c)
  case (Suc n)
  from Suc.prems obtain r1 c1 where one: "consume_one L K c = Some (r1, c1)" by (auto split: option.splits)
  note f = consume_one_frame [OF this]
  show ?case
  proof (cases r1)
    case (Returns b)
    with Suc one f show ?thesis by (cases b) auto
  qed (use Suc.prems one f in auto)
qed simp

lemma request_stop_linux:
  assumes "request_stop (linux_ops B env) L K c = Some (Returns r, c')"
  shows "if ct_started c then \<not> ct_started c' \<and> ct_enforcer c' = map_option (snd \<circ> linux_detach) (ct_enforcer c)
    else c' = c"
proof (cases "ct_started c")
  case True
  with assms show ?thesis
    by (auto simp: request_stop_def Let_def linux_ops_def backend_ops_def linux_detach_def
        simp del: consumer_loop.simps dest!: consumer_loop_frame
        split: if_split_asm option.split_asm outcome.split_asm)
qed (use assms in \<open>simp add: request_stop_def\<close>)

lemma linux_detach_status:
  "\<not> st_attached (linux_status B (snd (linux_detach e)))" "\<not> st_enforcing (linux_status B (snd (linux_detach e)))"
  by (simp_all add: linux_detach_def linux_status_def Let_def)

lemma request_stop_detached:
  assumes "request_stop (linux_ops B env) L K (d_controller d) = Some (Returns r, c)"
    and "\<not> ct_started (d_controller d) \<Longrightarrow> detached (linux_ops B env) d"
  shows "\<not> ct_started c \<and> detached (linux_ops B env) (d\<lparr>d_controller := c\<rparr>)"
proof (cases "ct_started (d_controller d)")
  case True
  with request_stop_linux [OF assms(1)] show ?thesis
    by (auto simp: detached_def controller_status_def initial_status_def linux_ops_def backend_ops_def
        linux_detach_status split: option.splits)
next
  case False
  with request_stop_linux [OF assms(1)] assms(2) show ?thesis by (simp add: detached_def)
qed

text \<open>The invariant: a controller that is not started has nothing attached; a daemon that serves has
  a started one; an exit code tells how \<open>run\<close> ended.\<close>

definition process_ok :: "'e enforcer_ops \<Rightarrow> 'e process \<Rightarrow> bool" where
  "process_ok ops p \<longleftrightarrow>
     (\<not> ct_started (d_controller (pr_daemon p)) \<longrightarrow> detached ops (pr_daemon p)) \<and>
     (\<forall>sv. pr_run p = Running sv \<longrightarrow> ct_started (d_controller (pr_daemon p))) \<and>
     (\<forall>rc. pr_main p = Exited rc \<longrightarrow>
        (\<exists>r. pr_run p = Ended r \<and> (rc = 0 \<longleftrightarrow> r = Inr ())) \<and> \<not> ct_started (d_controller (pr_daemon p)))"

lemma daemon_run_start_outcome:
  assumes "daemon_run_start ops create L fs R env sv d = Some (r, sv', d')"
  shows "d' = d \<or> ct_started (d_controller d')" "r = Returns (Inr ()) \<Longrightarrow> ct_started (d_controller d')"
  using assms
  by (auto simp: daemon_run_start_def Let_def dest!: start_started
      split: if_splits option.splits outcome.splits sum.splits prod.splits)

lemma handle_line_started:
  assumes "handle_line ops L R line d = Some (e, d')"
  shows "ct_started (d_controller d') = ct_started (d_controller d)"
proof -
  have "ct_started (d_controller d2) = ct_started (d_controller d)"
    if "handle_request ops L R req d = Some (r, d2)" for req r d2
    using that
    by (auto simp: handle_request_def handle_load_def Let_def daemon_stop_def dest!: load_policy_frame
        split: if_splits option.splits outcome.splits sum.splits prod.splits)
  with assms show ?thesis
    by (auto simp: handle_line_def Let_def split: sum.splits option.splits outcome.splits if_splits bool.splits)
qed

lemma fold_update_controller:
  "ct_started (d_controller (fold (update_client f) ps d)) = ct_started (d_controller d)"
  "ct_enforcer (d_controller (fold (update_client f) ps d)) = ct_enforcer (d_controller d)"
  by (induction ps arbitrary: d) (simp_all add: update_client_def)

lemma daemon_stop_controller:
  "ct_started (d_controller (snd (daemon_stop d))) = ct_started (d_controller d)"
  "detached ops (snd (daemon_stop d)) = detached ops d"
  by (simp_all add: daemon_stop_def detached_def controller_status_def fold_update_controller)

lemma main_phase_sel:
  "pr_daemon (main_report r p) = pr_daemon p" "pr_run (main_report r p) = pr_run p"
  "pr_main (main_report r p) = Exited (if r = Inr () then 0 else 1)"
  "pr_run (main_wake p) = pr_run p" "pr_main (main_wake p) = Joining"
  "pr_daemon (main_wake p) = (if pr_signal p \<noteq> 0 then snd (daemon_stop (pr_daemon p)) else pr_daemon p)"
  by (simp_all add: main_report_def main_wake_def split: sum.splits)

lemma process_ok_step:
  assumes "process_ok (linux_ops B benv) p" and "serve_step (linux_ops B benv) create L fs R env a p q"
  shows "process_ok (linux_ops B benv) q"
  using assms(2)
proof cases
  case (run_starts sv d')
  from daemon_run_start_outcome(2) [OF run_starts(4)] assms(1) run_starts show ?thesis
    by (auto simp: process_ok_def)
next
  case (run_fails e sv d')
  from daemon_run_start_outcome(1) [OF run_fails(4)] assms(1) run_fails show ?thesis
    by (auto simp: process_ok_def)
next
  case (run_ends sv r sv' d')
  from run_ends(5) obtain c where "request_stop (linux_ops B benv) L (stream_ops L) (d_controller (pr_daemon p)) = Some (Returns r, c)"
    and d': "d' = (pr_daemon p)\<lparr>d_controller := c\<rparr>"
    by (auto simp: daemon_run_finish_def Let_def split: option.splits outcome.splits sum.splits)
  from request_stop_detached [OF this(1)] assms(1) d' run_ends show ?thesis by (auto simp: process_ok_def)
next
  case (request sv line e d')
  from handle_line_started [OF request(5)] assms(1) request show ?thesis by (auto simp: process_ok_def)
next
  case main_wakes
  with assms(1) show ?thesis by (auto simp: process_ok_def main_phase_sel daemon_stop_controller)
next
  case (main_exits r d')
  from main_exits(5) obtain x c where "request_stop (linux_ops B benv) L (stream_ops L)
      (d_controller (snd (daemon_stop (pr_daemon p)))) = Some (Returns x, c)"
    and d': "d' = (snd (daemon_stop (pr_daemon p)))\<lparr>d_controller := c\<rparr>"
    by (auto simp: destroy_daemon_def Let_def split: option.splits outcome.splits)
  from request_stop_detached [OF this(1)] assms(1) d' main_exits show ?thesis
    by (auto simp: process_ok_def main_phase_sel daemon_stop_controller)
qed (use assms(1) in \<open>auto simp: process_ok_def\<close>)

text \<open>C37. However \<open>serve\<close> exits on the Linux backend, no enforcement is left behind: in every run of the
  process from a fresh daemon, at the exit nothing is attached or enforcing any more, and the exit
  code is 0 exactly when \<open>Daemon::run\<close> ended without an error.\<close>

theorem serve_exit_detached:
  assumes "serve_reach ok (linux_ops B benv) create L fs R env (serve_begin args d0) p"
    and "\<not> ct_started (d_controller d0)" and "ct_enforcer (d_controller d0) = None"
    and "pr_main p = Exited rc"
  shows "detached (linux_ops B benv) (pr_daemon p) \<and>
    (\<exists>r. pr_run p = Ended r \<and> (rc = 0 \<longleftrightarrow> r = Inr ()))"
proof -
  have "process_ok (linux_ops B benv) p"
    using assms(1)
  proof (induction rule: serve_reach.induct)
    case begins
    with assms(2,3) show ?case
      by (simp add: process_ok_def serve_begin_def detached_def controller_status_def initial_status_def)
  qed (use process_ok_step in blast)
  with assms(4) show ?thesis by (auto simp: process_ok_def)
qed

theorem serve_exit_detached_witness:
  "\<exists>p. serve_reach (\<lambda>_. True) (linux_ops demo_sys demo_env) (\<lambda>_. demo_enforcer\<lparr>le_skel := False\<rparr>) wire_lib (\<lambda>_. None)
      demo_resolver ok_env (serve_begin initial_args (fresh_daemon ''missing'')) p \<and> pr_main p = Exited 1 \<and>
    detached (linux_ops demo_sys demo_env) (pr_daemon p)"
proof -
  let ?reach = "serve_reach (\<lambda>_. True) (linux_ops demo_sys demo_env) (\<lambda>_. demo_enforcer\<lparr>le_skel := False\<rparr>) wire_lib (\<lambda>_. None)
      demo_resolver ok_env (serve_begin initial_args (fresh_daemon ''missing''))"
  let ?p = "serve_begin initial_args (fresh_daemon ''missing'') ::
    ((fileguard_file_id \<times> fileguard_protected_val) list,
      (fileguard_rule_key \<times> fileguard_rule_val) list, fileguard_config) linux_enforcer process"
  note load = linux_ops_def backend_ops_def linux_load_def demo_env_def demo_enforcer_def
  obtain e sv d' where run: "daemon_run_start (linux_ops demo_sys demo_env) (\<lambda>_. demo_enforcer\<lparr>le_skel := False\<rparr>) wire_lib
      (\<lambda>_. None) demo_resolver ok_env nothing_left (pr_daemon ?p) = Some (Returns (Inl e), sv, d')"
    and d': "\<not> d_running d'" "\<not> ct_consumer_thread (d_controller d')" "ct_started (d_controller d')"
    by (simp add: daemon_run_start_def serve_begin_def fresh_daemon_def ok_env_def start_def load nothing_left_def
        from_file_def default_controller_config_def default_enforcer_config_def)
  let ?p1 = "?p\<lparr>pr_run := Ended (Inl e), pr_daemon := d'\<rparr>"
  have "?reach ?p1"
    by (rule serve_reach.step [OF serve_reach.begins _ serve_step.run_fails [OF _ run]]) (simp_all add: serve_begin_def)
  then have r2: "?reach (main_wake ?p1)"
    by (rule serve_reach.step [OF _ _ serve_step.main_wakes]) (simp_all add: serve_begin_def)
  have "\<exists>d2. destroy_daemon (linux_ops demo_sys demo_env) wire_lib (pr_daemon (main_wake ?p1)) = Some d2"
    using d' by (auto simp: destroy_daemon_def main_wake_def daemon_stop_def serve_begin_def Let_def request_stop_def
        linux_ops_def backend_ops_def linux_detach_def split: option.splits)
  then obtain d2 where "destroy_daemon (linux_ops demo_sys demo_env) wire_lib (pr_daemon (main_wake ?p1)) = Some d2" ..
  from serve_reach.step [OF r2 _ serve_step.main_exits [OF _ _ this]]
  have r3: "?reach (main_report (Inl e) ((main_wake ?p1)\<lparr>pr_daemon := d2\<rparr>))" by (simp add: main_phase_sel)
  from serve_exit_detached [OF this, of 1] r3 show ?thesis
    by (auto simp: main_phase_sel fresh_daemon_def)
qed

end
