(* ===== verification/Tools.thy ===== *)
theory Tools
  imports Agreement Controller_Properties Cli
begin

text \<open>
  The demonstration and measurement programs of \<open>tools/\<close>: the two readers \<open>backup-agent\<close> and
  \<open>test-reader\<close>, which are the same program under two names, and the benchmark \<open>fileguard-bench\<close>.
  A program is a function from its arguments and from what the system calls return to its exit
  code, its output and, for the benchmark, the calls it makes. The texts that \<open>printf\<close> and
  \<open>operator<<\<close> print for the floating-point figures are parameters; no decision depends on them.
\<close>

section \<open>The readers\<close>

text \<open>\<open>fs\<close> gives what opening and reading the file returns; a read that fails throws out of the
  stream buffer, and nothing catches it.\<close>

definition reader_main :: "string \<Rightarrow> file_system \<Rightarrow> string list \<Rightarrow> run_result outcome" where
  "reader_main name fs args =
     (case args of
        [path] \<Rightarrow>
          (case fs path of
             None \<Rightarrow> Returns (1, [], name @ '': '' @ path @ '': Permission denied.'' @ [newline])
           | Some (contents, bad) \<Rightarrow>
               if bad then Throws ''basic_filebuf::underflow error reading the file''
               else Returns (0, ''Access allowed.'' @ [newline] @ contents @
                 (if contents \<noteq> [] \<and> last contents \<noteq> newline then [newline] else []), []))
      | _ \<Rightarrow> Returns (2, [], ''usage: '' @ name @ '' <file>'' @ [newline]))"

definition backup_agent :: "file_system \<Rightarrow> string list \<Rightarrow> run_result outcome" where
  "backup_agent = reader_main ''backup-agent''"

definition test_reader :: "file_system \<Rightarrow> string list \<Rightarrow> run_result outcome" where
  "test_reader = reader_main ''test-reader''"

section \<open>The benchmark\<close>

subsection \<open>Arguments\<close>

record bench_args =
  ba_file :: string
  ba_n :: i64
  ba_pacing :: i64
  ba_csv :: string

definition initial_bench :: bench_args where
  "initial_bench = \<lparr>ba_file = [], ba_n = 100000, ba_pacing = 0, ba_csv = []\<rparr>"

fun bench_options :: "string list \<Rightarrow> bench_args \<Rightarrow> bench_args option" where
  "bench_options [] a = Some a"
| "bench_options [t] a = (if t = ''-q'' then Some (a\<lparr>ba_csv := []\<rparr>) else None)"
| "bench_options (t # v # ts) a =
     (if t = ''-f'' then bench_options ts (a\<lparr>ba_file := v\<rparr>)
      else if t = ''-n'' then bench_options ts (a\<lparr>ba_n := atoi v\<rparr>)
      else if t = ''-p'' then bench_options ts (a\<lparr>ba_pacing := atoi v\<rparr>)
      else if t = ''-o'' then bench_options ts (a\<lparr>ba_csv := v\<rparr>)
      else if t = ''-q'' then bench_options (v # ts) (a\<lparr>ba_csv := []\<rparr>)
      else None)"

definition bench_parse :: "string list \<Rightarrow> bench_args option" where
  "bench_parse args =
     (case bench_options args initial_bench of
        None \<Rightarrow> None
      | Some a \<Rightarrow> if ba_file a = [] \<or> sint (ba_n a) \<le> 0 then None else Some a)"

definition bench_usage :: "string \<Rightarrow> string" where
  "bench_usage prog = ''usage: '' @ prog @ '' -f FILE -n N [-p pacing_ns] [-o csv] [-q]'' @ [newline]"

subsection \<open>The measured loop\<close>

datatype syscall = Open_call string | Close_call i32 | Sleep_call i64

record bench_state =
  bn_opens :: nat \<comment> \<open>calls of \<open>open\<close> so far\<close>
  bn_failed :: i32
  bn_calls :: "syscall list"

text \<open>\<open>fds k\<close> is what the call number \<open>k\<close> of \<open>open\<close> returns.\<close>

definition open_call :: "(nat \<Rightarrow> i32) \<Rightarrow> string \<Rightarrow> bench_state \<Rightarrow> i32 \<times> bench_state" where
  "open_call fds path s =
     (fds (bn_opens s), s\<lparr>bn_opens := bn_opens s + 1, bn_calls := bn_calls s @ [Open_call path]\<rparr>)"

definition close_call :: "i32 \<Rightarrow> bench_state \<Rightarrow> bench_state" where
  "close_call fd s = s\<lparr>bn_calls := bn_calls s @ [Close_call fd]\<rparr>"

definition warm_up_step :: "(nat \<Rightarrow> i32) \<Rightarrow> bench_args \<Rightarrow> bench_state \<Rightarrow> bench_state" where
  "warm_up_step fds a s =
     (let (fd, s1) = open_call fds (ba_file a) s in if sint fd \<ge> 0 then close_call fd s1 else s1)"

text \<open>\<open>++failed\<close> wraps here; in C++ the overflow of an \<open>int\<close> is undefined.\<close>

definition bench_step :: "(nat \<Rightarrow> i32) \<Rightarrow> bench_args \<Rightarrow> bench_state \<Rightarrow> bench_state" where
  "bench_step fds a s =
     (let (fd, s1) = open_call fds (ba_file a) s;
          s2 = (if sint fd < 0 then s1\<lparr>bn_failed := bn_failed s1 + 1\<rparr> else close_call fd s1)
      in if sint (ba_pacing a) > 0 then s2\<lparr>bn_calls := bn_calls s2 @ [Sleep_call (ba_pacing a)]\<rparr> else s2)"

lemma sint_Suc: "sint i < sint n \<Longrightarrow> sint (i + 1) = sint i + 1" for i n :: i64
proof -
  assume "sint i < sint n"
  moreover have "- (2 ^ 63) \<le> sint i" "sint n < 2 ^ 63" using sint_greater_eq [of i] sint_lt [of n] by simp_all
  ultimately have "signed_take_bit 63 (sint i + 1) = sint i + 1"
    by (simp add: signed_take_bit_int_eq_self_iff)
  then show ?thesis by (simp add: sint_word_ariths)
qed

text \<open>The two counted loops: \<open>i\<close> is the loop counter, an \<open>int\<close> below 1000 in the first.\<close>

fun warm_up :: "nat \<Rightarrow> (nat \<Rightarrow> i32) \<Rightarrow> bench_args \<Rightarrow> bench_state \<Rightarrow> bench_state" where
  "warm_up 0 fds a s = s"
| "warm_up (Suc k) fds a s = warm_up k fds a (warm_up_step fds a s)"

function bench_loop :: "(nat \<Rightarrow> i32) \<Rightarrow> bench_args \<Rightarrow> i64 \<Rightarrow> bench_state \<Rightarrow> bench_state" where
  "bench_loop fds a i s =
     (if sint i < sint (ba_n a) then bench_loop fds a (i + 1) (bench_step fds a s) else s)"
  by pat_completeness auto
termination
  by (relation "measure (\<lambda>(fds, a, i, s). nat (sint (ba_n a) - sint i))") (auto simp: sint_Suc)

declare bench_loop.simps [simp del]

subsection \<open>The program\<close>

text \<open>The figures as text, from the elapsed time and the count.\<close>

record bench_texts =
  bt_secs :: "i64 \<Rightarrow> string"
  bt_per_op :: "i64 \<Rightarrow> i64 \<Rightarrow> string"
  bt_throughput :: "i64 \<Rightarrow> i64 \<Rightarrow> string"
  bt_csv_per_op :: "i64 \<Rightarrow> i64 \<Rightarrow> string"
  bt_csv_throughput :: "i64 \<Rightarrow> i64 \<Rightarrow> string"

record bench_env =
  be_fds :: "nat \<Rightarrow> i32"
  be_start :: i64
  be_end :: i64
  be_texts :: bench_texts
  be_csv_opens :: bool

record bench_result =
  br_exit :: int
  br_out :: string
  br_err :: string
  br_csv :: "string option" \<comment> \<open>the row appended to the CSV file\<close>
  br_calls :: "syscall list"

definition bench_row :: "bench_texts \<Rightarrow> bench_args \<Rightarrow> i32 \<Rightarrow> i64 \<Rightarrow> string" where
  "bench_row t a failed elapsed =
     ba_file a @ '','' @ show_int (sint (ba_n a)) @ '','' @ show_int (sint failed) @ '','' @
     bt_csv_per_op t elapsed (ba_n a) @ '','' @ bt_csv_throughput t elapsed (ba_n a) @ '','' @
     show_int (sint elapsed) @ [newline]"

definition bench_report :: "bench_texts \<Rightarrow> bench_args \<Rightarrow> i32 \<Rightarrow> i64 \<Rightarrow> string" where
  "bench_report t a failed elapsed =
     ''file='' @ ba_file a @ '' iterations='' @ show_int (sint (ba_n a)) @
     '' failed='' @ show_int (sint failed) @ [newline] @
     ''total_time='' @ bt_secs t elapsed @ ''s avg_per_open='' @ bt_per_op t elapsed (ba_n a) @
     ''us throughput='' @ bt_throughput t elapsed (ba_n a) @ '' opens/s'' @ [newline]"

definition bench_run :: "bench_env \<Rightarrow> bench_args \<Rightarrow> bench_result" where
  "bench_run E a =
     (let s0 = warm_up 1000 (be_fds E) a \<lparr>bn_opens = 0, bn_failed = 0, bn_calls = []\<rparr>;
          s = bench_loop (be_fds E) a 0 s0;
          elapsed = be_end E - be_start E; t = be_texts E
      in \<lparr>br_exit = (if bn_failed s = 0 then 0 else 1),
          br_out = bench_report t a (bn_failed s) elapsed,
          br_err = [],
          br_csv = (if ba_csv a \<noteq> [] \<and> be_csv_opens E
            then Some (bench_row t a (bn_failed s) elapsed) else None),
          br_calls = bn_calls s\<rparr>)"

definition bench_main :: "bench_env \<Rightarrow> string \<Rightarrow> string list \<Rightarrow> bench_result" where
  "bench_main E prog args =
     (case bench_parse args of
        None \<Rightarrow> \<lparr>br_exit = 2, br_out = [], br_err = bench_usage prog, br_csv = None, br_calls = []\<rparr>
      | Some a \<Rightarrow> bench_run E a)"

section \<open>What a run does\<close>

definition open_block :: "(nat \<Rightarrow> i32) \<Rightarrow> bench_args \<Rightarrow> nat \<Rightarrow> syscall list" where
  "open_block fds a k = Open_call (ba_file a) # (if sint (fds k) \<ge> 0 then [Close_call (fds k)] else [])"

definition paced_block :: "(nat \<Rightarrow> i32) \<Rightarrow> bench_args \<Rightarrow> nat \<Rightarrow> syscall list" where
  "paced_block fds a k = open_block fds a k @ (if sint (ba_pacing a) > 0 then [Sleep_call (ba_pacing a)] else [])"

definition failures :: "(nat \<Rightarrow> i32) \<Rightarrow> nat \<Rightarrow> nat \<Rightarrow> nat" where
  "failures fds i j = length (filter (\<lambda>k. sint (fds k) < 0) [i..<j])"

lemma failures_Suc: "failures fds i (Suc (i + m)) = (if sint (fds i) < 0 then 1 else 0) + failures fds (Suc i) (Suc (i + m))"
  by (simp add: failures_def upt_conv_Cons del: upt_Suc)

lemma failures_le: "failures fds i j \<le> j - i"
  using length_filter_le [of "\<lambda>k. sint (fds k) < 0" "[i..<j]"] by (simp add: failures_def del: length_filter_le)

lemma warm_up_run:
  "warm_up m fds a s = s\<lparr>bn_opens := bn_opens s + m,
     bn_calls := bn_calls s @ concat (map (open_block fds a) [bn_opens s..<bn_opens s + m])\<rparr>"
proof (induction m arbitrary: s)
  case (Suc m)
  have "warm_up_step fds a s = s\<lparr>bn_opens := Suc (bn_opens s), bn_calls := bn_calls s @ open_block fds a (bn_opens s)\<rparr>"
    by (simp add: warm_up_step_def open_call_def close_call_def open_block_def)
  with Suc show ?case by (simp add: upt_conv_Cons del: upt_Suc)
qed simp

lemma bench_step_run:
  "bench_step fds a s = s\<lparr>bn_opens := Suc (bn_opens s),
     bn_failed := bn_failed s + (if sint (fds (bn_opens s)) < 0 then 1 else 0),
     bn_calls := bn_calls s @ paced_block fds a (bn_opens s)\<rparr>"
  by (simp add: bench_step_def open_call_def close_call_def open_block_def paced_block_def)

lemma bench_loop_run:
  "sint i + int m = sint (ba_n a) \<Longrightarrow> bench_loop fds a i s = s\<lparr>bn_opens := bn_opens s + m,
     bn_failed := bn_failed s + of_nat (failures fds (bn_opens s) (bn_opens s + m)),
     bn_calls := bn_calls s @ concat (map (paced_block fds a) [bn_opens s..<bn_opens s + m])\<rparr>"
proof (induction m arbitrary: i s)
  case 0
  then show ?case by (subst bench_loop.simps) (simp add: failures_def)
next
  case (Suc m)
  then have less: "sint i < sint (ba_n a)" by simp
  from Suc.prems sint_Suc [OF less] have "sint (i + 1) + int m = sint (ba_n a)" by simp
  from Suc.IH [OF this, of "bench_step fds a s"] less show ?case
    by (subst bench_loop.simps) (simp add: bench_step_run failures_Suc upt_conv_Cons del: upt_Suc)
qed

lemma bench_run_run:
  assumes "0 < sint (ba_n a)" and "N = nat (sint (ba_n a))"
  shows "br_exit (bench_run E a) = (if (of_nat (failures (be_fds E) 1000 (1000 + N)) :: i32) = 0 then 0 else 1)"
    and "br_out (bench_run E a) = bench_report (be_texts E) a
      (of_nat (failures (be_fds E) 1000 (1000 + N))) (be_end E - be_start E)"
    and "br_calls (bench_run E a) = concat (map (open_block (be_fds E) a) [0..<1000]) @
      concat (map (paced_block (be_fds E) a) [1000..<1000 + N])"
    and "br_csv (bench_run E a) = (if ba_csv a \<noteq> [] \<and> be_csv_opens E
      then Some (bench_row (be_texts E) a (of_nat (failures (be_fds E) 1000 (1000 + N))) (be_end E - be_start E)) else None)"
proof -
  have "sint (0 :: i64) + int N = sint (ba_n a)" using assms by simp
  note r = bench_loop_run [OF this] warm_up_run
  show "br_exit (bench_run E a) = (if (of_nat (failures (be_fds E) 1000 (1000 + N)) :: i32) = 0 then 0 else 1)"
    "br_out (bench_run E a) = bench_report (be_texts E) a
      (of_nat (failures (be_fds E) 1000 (1000 + N))) (be_end E - be_start E)"
    "br_calls (bench_run E a) = concat (map (open_block (be_fds E) a) [0..<1000]) @
      concat (map (paced_block (be_fds E) a) [1000..<1000 + N])"
    "br_csv (bench_run E a) = (if ba_csv a \<noteq> [] \<and> be_csv_opens E
      then Some (bench_row (be_texts E) a (of_nat (failures (be_fds E) 1000 (1000 + N))) (be_end E - be_start E)) else None)"
    by (simp_all add: bench_run_def Let_def r del: upt_Suc)
qed

lemma bench_parse_valid:
  "bench_parse args = Some a \<Longrightarrow> 0 < sint (ba_n a)" "bench_parse args = Some a \<Longrightarrow> ba_file a \<noteq> []"
  by (auto simp: bench_parse_def split: option.splits if_splits)

lemma failures_word: "F < 2 ^ 31 \<Longrightarrow> sint (of_nat F :: i32) = int F"
  by (simp add: signed_of_nat signed_take_bit_int_eq_self_iff)

lemma failures_zero: "(of_nat F :: i32) = 0 \<longleftrightarrow> 2 ^ 32 dvd F"
  by (simp add: word_of_nat_eq_0_iff)

section \<open>Under enforcement\<close>

text \<open>A non-zero answer of the LSM hook makes \<open>open\<close> fail; the programs see nothing else of it.\<close>

definition hook_answer :: "('p, 'r, 'c) bpf_sys \<Rightarrow> ('p, 'r, 'c) linux_enforcer \<Rightarrow> open_ctx \<Rightarrow> kfile \<Rightarrow> i32" where
  "hook_answer B e ctx file = fst (fg_file_open (view_of B (snapshot (le_maps e))) ctx file)"

definition hooked_fs :: "(string \<Rightarrow> i32) \<Rightarrow> file_system \<Rightarrow> file_system" where
  "hooked_fs hook fs path = (if hook path \<noteq> 0 then None else fs path)"

definition hooked_fds :: "i32 \<Rightarrow> (nat \<Rightarrow> i32) \<Rightarrow> nat \<Rightarrow> i32" where
  "hooked_fds ret fds k = (if ret \<noteq> 0 then - 1 else fds k)"

definition engine_allows :: "policy \<Rightarrow> string \<Rightarrow> string \<Rightarrow> bool" where
  "engine_allows p path exe \<longleftrightarrow> dec_action (evaluate p \<lparr>req_resource_path = path,
     req_process = \<lparr>pid_type = ExePath, pid_value = exe\<rparr>, req_operation = Open\<rparr>) = Allow"

lemma loaded_answer:
  assumes "bpf_laws B" and "expressible p" and "pol_default_action p = Deny"
    and "ct_enforcer c = Some e" and "load_policy (linux_ops B env) R (Some p) c = Some (Inr (), c')"
    and "separates R p path exe" and "resolves R path" and "resolves R exe"
    and "opened_id file = to_abi (resolved_id R path)" and "exe_id ctx = to_abi (resolved_id R exe)"
    and "ct_enforcer c' = Some e'"
  shows "hook_answer B e' ctx file = (if engine_allows p path exe then 0 else - EACCES)"
proof -
  from load_policy_installed [OF assms(1,4,5)] assms(11) obtain cp where cp: "compile R p = Inr cp"
    and e': "view_of B (snapshot (le_maps e')) = installed_view cp" by auto
  have "policy_wf p" using assms(2) by (simp add: expressible_def)
  from installed_decision [OF cp assms(2,7-10)] file_decision_path(1) [OF this assms(6,3)] e' show ?thesis
    by (simp add: hook_answer_def engine_allows_def)
qed

text \<open>The demonstration works, between paths that are not links to one another: after a policy with
  default DENY is loaded on the Linux backend, a reader prints the file exactly as without FileGuard when the decision engine allows the path to
  its executable, and otherwise prints nothing, reports the denial and exits with code 1.\<close>

theorem reader_under_policy:
  assumes "bpf_laws B" and "expressible p" and "pol_default_action p = Deny"
    and "ct_enforcer c = Some e" and "load_policy (linux_ops B env) R (Some p) c = Some (Inr (), c')"
    and "separates R p path exe" and "resolves R path" and "resolves R exe"
    and "opened_id file = to_abi (resolved_id R path)" and "exe_id ctx = to_abi (resolved_id R exe)"
    and "ct_enforcer c' = Some e'" and "hook path = hook_answer B e' ctx file"
  shows "reader_main name (hooked_fs hook fs) [path] =
    (if engine_allows p path exe then reader_main name fs [path]
     else Returns (1, [], name @ '': '' @ path @ '': Permission denied.'' @ [newline]))"
  by (simp add: reader_main_def hooked_fs_def assms(12) loaded_answer [OF assms(1-11)])

definition reader_resolver :: file_resolver where
  "reader_resolver path =
     (if path = ''/usr/local/bin/test-reader'' then Inr (FileId 8 1 200) else demo_resolver path)"

lemma reader_load:
  "load_policy (linux_ops demo_sys env) reader_resolver (Some small_policy) (controller_with demo_enforcer) =
     Some (Inr (), (controller_with (demo_enforcer' 300))\<lparr>
       ct_resolver := Some (rebuild_resolver small_policy (demo_compiled 300)),
       ct_policy_manager := \<lparr>pm_current = Some small_policy\<rparr>\<rparr>)"
proof -
  have "compile reader_resolver small_policy = Inr (demo_compiled 300)"
    by (simp add: compile_def small_policy_def sample_policy_def validate_def demo_resolver_def reader_resolver_def
        demo_compiled_def file_id_valid_def)
  then show ?thesis
    by (simp add: load_policy_def small_policy_valid load_apply_def controller_with_def
        linux_ops_def backend_ops_def demo_apply load_install_valid load_resolver_def pm_new_def)
qed

lemma reader_side:
  "expressible small_policy" "pol_default_action small_policy = Deny"
  "ct_enforcer (controller_with demo_enforcer) = Some demo_enforcer"
  "resolves reader_resolver ''/protected/secret.txt''"
  "opened_id (demo_file 100) = to_abi (resolved_id reader_resolver ''/protected/secret.txt'')"
  using sample_expressible
  by (simp_all add: small_policy_def expressible_def policy_wf_def protected_paths_def controller_with_def
      sample_policy_def resolves_def reader_resolver_def demo_resolver_def file_id_valid_def demo_file_id
      resolved_id_def to_abi_def demo_fid_def)

lemma reader_exes:
  "separates reader_resolver small_policy ''/protected/secret.txt'' ''/usr/local/bin/test-reader''"
  "separates reader_resolver small_policy ''/protected/secret.txt'' ''/usr/local/bin/backup-agent''"
  "resolves reader_resolver ''/usr/local/bin/test-reader''" "resolves reader_resolver ''/usr/local/bin/backup-agent''"
  "exe_id (demo_ctx 200 0) = to_abi (resolved_id reader_resolver ''/usr/local/bin/test-reader'')"
  "exe_id (demo_ctx 300 0) = to_abi (resolved_id reader_resolver ''/usr/local/bin/backup-agent'')"
  "\<not> engine_allows small_policy ''/protected/secret.txt'' ''/usr/local/bin/test-reader''"
  "engine_allows small_policy ''/protected/secret.txt'' ''/usr/local/bin/backup-agent''"
  by (auto simp: separates_def inj_on_def policy_paths_def protected_paths_def small_policy_def
      sample_policy_def resolved_id_def demo_resolver_def reader_resolver_def resolves_def file_id_valid_def
      demo_exe_id to_abi_def demo_fid_def engine_allows_def evaluate_def is_protected_def find_rule_def Let_def)

theorem reader_under_policy_witness:
  "test_reader (hooked_fs (\<lambda>_. hook_answer demo_sys (demo_enforcer' 300) (demo_ctx 200 0) (demo_file 100))
       (\<lambda>_. Some (''key'', False))) [''/protected/secret.txt''] =
     Returns (1, [], ''test-reader: /protected/secret.txt: Permission denied.'' @ [newline]) \<and>
   backup_agent (hooked_fs (\<lambda>_. hook_answer demo_sys (demo_enforcer' 300) (demo_ctx 300 0) (demo_file 100))
       (\<lambda>_. Some (''key'', False))) [''/protected/secret.txt''] =
     Returns (0, ''Access allowed.'' @ [newline] @ ''key'' @ [newline], [])"
proof -
  let ?path = "''/protected/secret.txt''"
  let ?hook = "\<lambda>exe (_ :: string). hook_answer demo_sys (demo_enforcer' 300) (demo_ctx exe 0) (demo_file 100)"
  note r = reader_under_policy [OF demo_sys_laws reader_side(1,2,3) reader_load _ reader_side(4) _ reader_side(5)]
  have e: "ct_enforcer ((controller_with (demo_enforcer' 300))\<lparr>
       ct_resolver := Some (rebuild_resolver small_policy (demo_compiled 300)),
       ct_policy_manager := \<lparr>pm_current = Some small_policy\<rparr>\<rparr>) = Some (demo_enforcer' 300)"
    by (simp add: controller_with_def)
  have "reader_main ''test-reader'' (hooked_fs (?hook 200) (\<lambda>_. Some (''key'', False))) [?path] =
      Returns (1, [], ''test-reader: /protected/secret.txt: Permission denied.'' @ [newline])"
    by (subst r [OF reader_exes(1,3,5) e]) (simp_all add: reader_exes)
  moreover have "reader_main ''backup-agent'' (hooked_fs (?hook 300) (\<lambda>_. Some (''key'', False))) [?path] =
      Returns (0, ''Access allowed.'' @ [newline] @ ''key'' @ [newline], [])"
    by (subst r [OF reader_exes(2,4,6) e]) (simp_all add: reader_exes reader_main_def)
  ultimately show ?thesis by (simp add: test_reader_def backup_agent_def)
qed

section \<open>The benchmark's verdict\<close>

text \<open>The benchmark counts what it measured: of \<open>n\<close> opens after the warm-up it counts those
  that failed, at \<open>int\<close> width; the exit code is 0 exactly when that number is a multiple of
  \<open>2 ^ 32\<close>, so for fewer than \<open>2 ^ 31\<close> iterations the printed number is exact and the code is 0
  exactly when no open failed.\<close>

theorem bench_exit_code:
  assumes "bench_parse args = Some a" and "F = failures (be_fds E) 1000 (1000 + nat (sint (ba_n a)))"
  shows "F \<le> nat (sint (ba_n a)) \<and> br_exit (bench_main E prog args) = (if 2 ^ 32 dvd F then 0 else 1) \<and>
    br_out (bench_main E prog args) = bench_report (be_texts E) a (of_nat F) (be_end E - be_start E) \<and>
    (sint (ba_n a) < 2 ^ 31 \<longrightarrow> sint (of_nat F :: i32) = int F \<and>
      (br_exit (bench_main E prog args) = 0 \<longleftrightarrow> F = 0))"
proof -
  note r = bench_run_run [OF bench_parse_valid(1) [OF assms(1)] refl, of E, folded assms(2)]
  have le: "F \<le> nat (sint (ba_n a))" using failures_le [of "be_fds E" 1000 "1000 + nat (sint (ba_n a))"] by (simp add: assms(2))
  have "sint (of_nat F :: i32) = int F \<and> (2 ^ 32 dvd F \<longleftrightarrow> F = 0)" if "sint (ba_n a) < 2 ^ 31"
  proof -
    have "nat (sint (ba_n a)) < 2 ^ 31"
      using that bench_parse_valid(1) [OF assms(1)] by (simp add: nat_less_iff)
    with le have "F < 2 ^ 31" by (rule le_less_trans)
    then show ?thesis using failures_word [of F] by (auto dest: dvd_imp_le)
  qed
  then show ?thesis using le by (simp add: bench_main_def assms(1) r(1,2) failures_zero)
qed

definition quiet_texts :: bench_texts where
  "quiet_texts = \<lparr>bt_secs = (\<lambda>_. ''0''), bt_per_op = (\<lambda>_ _. ''0''), bt_throughput = (\<lambda>_ _. ''0''),
     bt_csv_per_op = (\<lambda>_ _. ''0''), bt_csv_throughput = (\<lambda>_ _. ''0'')\<rparr>"

definition bench_demo :: "(nat \<Rightarrow> i32) \<Rightarrow> bench_env" where
  "bench_demo fds = \<lparr>be_fds = fds, be_start = 0, be_end = 5, be_texts = quiet_texts, be_csv_opens = False\<rparr>"

lemma bench_demo_parse:
  "bench_parse [''-f'', ''/protected/secret.txt'', ''-n'', ''3''] =
     Some \<lparr>ba_file = ''/protected/secret.txt'', ba_n = 3, ba_pacing = 0, ba_csv = []\<rparr>"
  by (simp add: bench_parse_def initial_bench_def atoi_def blank_def is_digit_def)

theorem bench_exit_code_witness:
  "br_exit (bench_main (bench_demo (\<lambda>k. if k = 1001 then - 1 else 3)) ''bench''
     [''-f'', ''/protected/secret.txt'', ''-n'', ''3'']) = 1"
proof -
  have f: "failures (be_fds (bench_demo (\<lambda>k. if k = 1001 then - 1 else 3))) 1000 1003 = 1"
    by (simp add: failures_def bench_demo_def upt_rec)
  from bench_exit_code [OF bench_demo_parse refl, of "bench_demo (\<lambda>k. if k = 1001 then - 1 else 3)" "''bench''"]
  show ?thesis by (simp add: f)
qed

text \<open>The benchmark leaks no descriptor: it opens the file \<open>1000 + n\<close> times and nothing else, and
  every descriptor it gets is closed before the next call of \<open>open\<close>.\<close>

theorem bench_closes_all:
  assumes "bench_parse args = Some a"
  shows "br_calls (bench_main E prog args) =
    concat (map (open_block (be_fds E) a) [0..<1000]) @
    concat (map (paced_block (be_fds E) a) [1000..<1000 + nat (sint (ba_n a))])"
  using bench_run_run(3) [OF bench_parse_valid(1) [OF assms] refl] by (simp add: bench_main_def assms)

theorem bench_closes_all_witness:
  "br_calls (bench_main (bench_demo (\<lambda>k. 3)) ''bench'' [''-f'', ''/protected/secret.txt'', ''-n'', ''3'']) =
     concat (replicate 1003 [Open_call ''/protected/secret.txt'', Close_call 3])"
proof -
  let ?b = "[Open_call ''/protected/secret.txt'', Close_call 3]"
  have "map (\<lambda>_. ?b) [0..<1000] @ map (\<lambda>_. ?b) [1000..<1003] = replicate 1003 ?b"
    by (simp only: map_replicate_const length_upt flip: replicate_add) simp
  moreover have "open_block (\<lambda>k. 3) a = (\<lambda>_. ?b)" "paced_block (\<lambda>k. 3) a = (\<lambda>_. ?b)"
    if "a = \<lparr>ba_file = ''/protected/secret.txt'', ba_n = 3, ba_pacing = 0, ba_csv = []\<rparr>" for a
    by (simp_all add: that fun_eq_iff open_block_def paced_block_def)
  moreover have "be_fds (bench_demo (\<lambda>k. 3)) = (\<lambda>k. 3)" by (simp add: bench_demo_def)
  ultimately show ?thesis
    unfolding bench_closes_all [OF bench_demo_parse] by (simp only: flip: concat_append) simp
qed

text \<open>The benchmark under enforcement: with a loaded default-DENY policy and paths that are not
  links to one another, it exits with code 0 when the decision engine allows the file to its executable (and the file
  opens at all), and otherwise every one of its opens fails and the code is 1.\<close>

theorem bench_under_policy:
  assumes "bpf_laws B" and "expressible p" and "pol_default_action p = Deny"
    and "ct_enforcer c = Some e" and "load_policy (linux_ops B env) R (Some p) c = Some (Inr (), c')"
    and "separates R p path exe" and "resolves R path" and "resolves R exe"
    and "opened_id file = to_abi (resolved_id R path)" and "exe_id ctx = to_abi (resolved_id R exe)"
    and "ct_enforcer c' = Some e'" and "bench_parse args = Some a" and "ba_file a = path"
    and "sint (ba_n a) < 2 ^ 31" and "\<And>k. 0 \<le> sint (fds k)"
    and "be_fds E = hooked_fds (hook_answer B e' ctx file) fds"
  shows "(if engine_allows p path exe
     then br_exit (bench_main E prog args) = 0 \<and>
       br_out (bench_main E prog args) = bench_report (be_texts E) a 0 (be_end E - be_start E)
     else br_exit (bench_main E prog args) = 1 \<and>
       br_out (bench_main E prog args) = bench_report (be_texts E) a (scast (ba_n a)) (be_end E - be_start E))"
proof -
  let ?N = "nat (sint (ba_n a))"
  note pos = bench_parse_valid(1) [OF assms(12)]
  note r = bench_run_run [OF pos refl, of E]
  have F: "failures (be_fds E) 1000 (1000 + ?N) = (if engine_allows p path exe then 0 else ?N)"
    using assms(15) by (simp add: failures_def assms(16) hooked_fds_def loaded_answer [OF assms(1-11)] not_less)
  have N: "?N < 2 ^ 31" "0 < ?N" using pos assms(14) by auto
  then have "(of_nat ?N :: i32) \<noteq> 0" unfolding failures_zero by (auto dest: dvd_imp_le)
  moreover have "of_nat ?N = (scast (ba_n a) :: i32)"
    by (rule signed_word_eqI) (use pos assms(14) failures_word [OF N(1)] in \<open>simp\<close>)
  ultimately show ?thesis by (simp add: bench_main_def assms(12) r(1,2) F)
qed

theorem bench_under_policy_witness:
  "br_exit (bench_main (bench_demo (hooked_fds (hook_answer demo_sys (demo_enforcer' 300) (demo_ctx 200 0) (demo_file 100)) (\<lambda>_. 3)))
     ''bench'' [''-f'', ''/protected/secret.txt'', ''-n'', ''3'']) = 1"
proof -
  let ?E = "bench_demo (hooked_fds (hook_answer demo_sys (demo_enforcer' 300) (demo_ctx 200 0) (demo_file 100)) (\<lambda>_. 3))"
  have e: "ct_enforcer ((controller_with (demo_enforcer' 300))\<lparr>
       ct_resolver := Some (rebuild_resolver small_policy (demo_compiled 300)),
       ct_policy_manager := \<lparr>pm_current = Some small_policy\<rparr>\<rparr>) = Some (demo_enforcer' 300)"
    by (simp add: controller_with_def)
  have E: "be_fds ?E = hooked_fds (hook_answer demo_sys (demo_enforcer' 300) (demo_ctx 200 0) (demo_file 100)) (\<lambda>_. 3)"
    by (simp add: bench_demo_def)
  from bench_under_policy [OF demo_sys_laws reader_side(1,2,3) reader_load reader_exes(1) reader_side(4) reader_exes(3)
      reader_side(5) reader_exes(5) e bench_demo_parse _ _ _ E, of "''bench''"]
  show ?thesis by (simp add: reader_exes)
qed

text \<open>The header comment offers \<open>-q\<close> (quiet) and \<open>-r N\<close>: the latter is a usage error, and
  \<open>-q\<close> only undoes an \<open>-o\<close> that comes before it.\<close>

theorem bench_option_order:
  "br_exit (bench_main E prog ([''-f'', f, ''-n'', n, ''-r'', r])) = 2 \<and>
   bench_options [''-o'', f, ''-q''] a = Some (a\<lparr>ba_csv := []\<rparr>) \<and>
   bench_options [''-q'', ''-o'', f] a = Some (a\<lparr>ba_csv := f\<rparr>)"
  by (simp add: bench_main_def bench_parse_def)

end
