(* ===== verification/Controller_Types.thy ===== *)
theory Controller_Types
  imports Controller_Properties
begin

text \<open>
  The state of the controller is well formed at every moment of its life: the operations of
  \<open>Controller\<close> in any order and number, successful or not, from the constructor on.
\<close>

section \<open>Every operation as a step\<close>

text \<open>The file system and the paths may change between calls; the backend, the library and the
  clients' operations are those of one process.\<close>

inductive ctl_step ::
  "'e enforcer_ops \<Rightarrow> (enforcer_config \<Rightarrow> 'e) \<Rightarrow> 'j json_lib \<Rightarrow> 'k client_ops \<Rightarrow> (int \<Rightarrow> string) \<Rightarrow>
     ('e, 'k) controller \<Rightarrow> ('e, 'k) controller \<Rightarrow> bool" for ops create_enforcer L K fmt where
  ctl_start: "start ops create_enforcer L fs R c = Some (r, c') \<Longrightarrow> ctl_step ops create_enforcer L K fmt c c'"
| ctl_load: "load_policy ops R p c = Some (r, c') \<Longrightarrow> ctl_step ops create_enforcer L K fmt c c'"
| ctl_emit: "emit_event fmt raw c = Some c' \<Longrightarrow> ctl_step ops create_enforcer L K fmt c c'"
| ctl_consume: "consume_one L K c = Some (r, c') \<Longrightarrow> ctl_step ops create_enforcer L K fmt c c'"
| ctl_add: "ctl_step ops create_enforcer L K fmt c (add_event_stream_client k c)"
| ctl_remove: "ctl_step ops create_enforcer L K fmt c (remove_event_stream_client k c)"
| ctl_stop: "request_stop ops L K c = Some (r, c') \<Longrightarrow> ctl_step ops create_enforcer L K fmt c c'"

section \<open>Well-formed states\<close>

text \<open>The userspace policy is valid and the reverse resolver is the one built with it.\<close>

definition policy_state_ok :: "policy option \<Rightarrow> path_resolver option \<Rightarrow> bool" where
  "policy_state_ok cur res \<longleftrightarrow>
     (case cur of
        None \<Rightarrow> res = None
      | Some p \<Rightarrow> policy_wf p \<and> (\<exists>R cp. compile R p = Inr cp \<and> res = Some (rebuild_resolver p cp)))"

definition controller_ok :: "('e, 'k) controller \<Rightarrow> bool" where
  "controller_ok c \<longleftrightarrow> q_inv (ct_queue c) \<and> q_capacity (ct_queue c) = cc_event_queue_capacity (ct_cfg c) \<and>
     ct_ring_thread c = ct_consumer_thread c \<and> (ct_consumer_thread c \<longrightarrow> ct_enforcer c \<noteq> None) \<and>
     policy_state_ok (pm_current (ct_policy_manager c)) (ct_resolver c)"

named_theorems ctl_ok

lemma push_frame: "push x q = Some q' \<Longrightarrow> q_inv q \<Longrightarrow> q_inv q' \<and> q_capacity q' = q_capacity q"
  by (auto simp: push_store q_store_inv split: if_splits)

lemma pop_frame: "pop q = Some (r, q') \<Longrightarrow> q_inv q \<Longrightarrow> q_inv q' \<and> q_capacity q' = q_capacity q"
  by (auto simp: pop_drop q_drop_inv split: if_splits)

lemma stop_frame_inv: "q_inv (queue_request_stop q) = q_inv q" "q_capacity (queue_request_stop q) = q_capacity q"
  by (simp_all add: queue_request_stop_def q_inv_def q_capacity_def)

lemma new_ok [ctl_ok]:
  assumes "controller_new logs offset store cfg = Returns c"
  shows "controller_ok c \<and> ct_cfg c = cfg"
proof -
  obtain q where q: "spsc_new empty_event (cc_event_queue_capacity cfg) = Returns q"
    using assms by (cases "spsc_new empty_event (cc_event_queue_capacity cfg)") (auto simp: controller_new_def)
  then have "q_inv q \<and> q_capacity q = cc_event_queue_capacity cfg"
    by (auto simp: spsc_new_def q_inv_def q_capacity_def split: if_splits)
  with assms q show ?thesis
    by (auto simp: controller_new_def Let_def controller_ok_def policy_state_ok_def pm_new_def)
qed

lemma load_apply_ok:
  "load_apply ops cp c = Some (r, c') \<Longrightarrow> \<exists>e. c' = c\<lparr>ct_enforcer := e\<rparr> \<and> (ct_enforcer c \<noteq> None \<longrightarrow> e \<noteq> None)"
  by (auto simp: load_apply_def split: option.splits sum.splits intro: exI [of _ "ct_enforcer c"])

lemma load_ok [ctl_ok]:
  assumes "load_policy ops R p c = Some (r, c')" and "controller_ok c"
  shows "controller_ok c' \<and> ct_cfg c' = ct_cfg c \<and> (ct_enforcer c \<noteq> None \<longrightarrow> ct_enforcer c' \<noteq> None)"
proof (cases r)
  case (Inr u)
  with assms(1) load_policy_Inr [of ops R p c c'] obtain pol cp c1 where cp: "compile R pol = Inr cp"
    and a: "load_apply ops cp c = Some (Inr (), c1)"
    and c': "c' = (load_resolver pol cp c1)\<lparr>ct_policy_manager := (ct_policy_manager c1)\<lparr>pm_current := Some pol\<rparr>\<rparr>"
    by auto
  from load_apply_ok [OF a] compile_InrD(1) [OF cp] cp assms(2) show ?thesis
    by (auto simp: c' load_resolver_def controller_ok_def policy_state_ok_def)
next
  case (Inl m)
  show ?thesis
  proof (cases "p = None \<or> (\<exists>pol e. p = Some pol \<and> compile R pol = Inl e)")
    case True
    with assms Inl show ?thesis by (auto simp: load_policy_def split: option.splits sum.splits)
  next
    case False
    then obtain pol cp where p: "p = Some pol" "compile R pol = Inr cp" by (cases p; cases "compile R (the p)") auto
    note v = compile_valid [OF p(2)]
    from assms(1) Inl have "load_apply ops cp c = Some (Inl m, c')"
      by (auto simp: load_policy_def p v load_install_valid split: option.splits sum.splits)
    from load_apply_ok [OF this] assms(2) show ?thesis by (auto simp: controller_ok_def)
  qed
qed

lemma start_ok [ctl_ok]:
  assumes "start ops create_enforcer L fs R c = Some (r, c')" and "controller_ok c"
  shows "controller_ok c' \<and> cc_event_queue_capacity (ct_cfg c') = cc_event_queue_capacity (ct_cfg c)"
proof (cases "ct_started c")
  case True
  with assms show ?thesis by (simp add: start_def)
next
  case False
  let ?cfg = "(ct_cfg c)\<lparr>cc_enforcer := (cc_enforcer (ct_cfg c))\<lparr>ec_on_event := True\<rparr>\<rparr>"
  obtain ld enf where ld: "op_load ops (create_enforcer (cc_enforcer ?cfg)) = (ld, enf)" by fastforce
  let ?c1 = "c\<lparr>ct_started := True, ct_cfg := ?cfg, ct_enforcer := Some enf\<rparr>"
  have c1: "controller_ok ?c1" using assms(2) by (simp add: controller_ok_def)
  have run: "controller_ok (c2\<lparr>ct_ring_thread := True, ct_consumer_thread := True\<rparr>)"
    if "controller_ok c2" "ct_enforcer c2 \<noteq> None" for c2 :: "('a, 'b) controller"
    using that by (simp add: controller_ok_def)
  show ?thesis
  proof (cases "\<exists>p. ld = Inr () \<and> cc_policy_file (ct_cfg c) \<noteq> [] \<and> from_file L fs (cc_policy_file (ct_cfg c)) = Returns (Inr p)")
    case True
    then obtain p where p: "ld = Inr ()" "cc_policy_file (ct_cfg c) \<noteq> []"
      "from_file L fs (cc_policy_file (ct_cfg c)) = Returns (Inr p)" by blast
    with assms(1) False ld obtain lr c2 where lp: "load_policy ops R (Some p) ?c1 = Some (lr, c2)"
      and c': "c' = (if lr = Inr () then c2\<lparr>ct_ring_thread := True, ct_consumer_thread := True\<rparr> else c2)"
      by (auto simp: start_def Let_def split: option.splits sum.splits)
    from load_ok [OF lp c1] show ?thesis unfolding c' using run [of c2] by auto
  next
    case np: False
    with assms(1) False ld have "c' = ?c1 \<or> c' = ?c1\<lparr>ct_ring_thread := True, ct_consumer_thread := True\<rparr>"
      by (auto simp: start_def Let_def split: outcome.splits sum.splits if_splits)
    with run [OF c1] c1 show ?thesis by auto
  qed
qed

lemma emit_ok [ctl_ok]:
  "emit_event fmt raw c = Some c' \<Longrightarrow> controller_ok c \<Longrightarrow> controller_ok c' \<and> ct_cfg c' = ct_cfg c"
  by (auto simp: emit_event_def Let_def controller_ok_def dest: push_frame)

lemma consume_ok [ctl_ok]:
  "consume_one L K c = Some (r, c') \<Longrightarrow> controller_ok c \<Longrightarrow>
     controller_ok c' \<and> ct_cfg c' = ct_cfg c \<and> ct_enforcer c' = ct_enforcer c"
  by (auto simp: consume_one_def controller_ok_def dest: pop_frame split: option.splits outcome.splits prod.splits)

lemma loop_ok [ctl_ok]:
  "consumer_loop n L K c = Some (r, c') \<Longrightarrow> controller_ok c \<Longrightarrow>
     controller_ok c' \<and> ct_cfg c' = ct_cfg c \<and> ct_enforcer c' = ct_enforcer c"
proof (induction n arbitrary: c)
  case (Suc n)
  from Suc.prems(1) obtain o1 c1 where one: "consume_one L K c = Some (o1, c1)"
    and rest: "c' = c1 \<or> consumer_loop n L K c1 = Some (r, c')"
    by (auto split: option.splits prod.splits outcome.splits bool.splits)
  from consume_ok [OF one Suc.prems(2)] rest Suc.IH [of c1] show ?case by auto
qed simp

lemma client_ok [ctl_ok]:
  "controller_ok (add_event_stream_client k c) = controller_ok c"
  "controller_ok (remove_event_stream_client k c) = controller_ok c"
  "ct_cfg (add_event_stream_client k c) = ct_cfg c" "ct_cfg (remove_event_stream_client k c) = ct_cfg c"
  by (simp_all add: controller_ok_def add_event_stream_client_def remove_event_stream_client_def)

lemma stop_ok [ctl_ok]:
  assumes "request_stop ops L K c = Some (r, c')" and "controller_ok c"
  shows "controller_ok c' \<and> ct_cfg c' = ct_cfg c"
proof (cases "ct_started c")
  case True
  let ?c1 = "c\<lparr>ct_started := False, ct_queue := queue_request_stop (ct_queue c)\<rparr>"
  let ?joined = "if ct_consumer_thread c
    then consumer_loop (Suc (length (q_contents (ct_queue ?c1)))) L K ?c1 else Some (Returns (), ?c1)"
  have c1: "controller_ok ?c1" using assms(2) by (simp add: controller_ok_def stop_frame_inv)
  have end_ok: "controller_ok (c2\<lparr>ct_ring_thread := False, ct_consumer_thread := False, ct_enforcer := e\<rparr>)"
    if "controller_ok c2" for c2 :: "('a, 'b) controller" and e using that by (simp add: controller_ok_def)
  from assms(1) True obtain jr c2 where j: "?joined = Some (jr, c2)"
    by (auto simp: request_stop_def Let_def split: option.splits simp del: consumer_loop.simps)
  have c2: "controller_ok c2 \<and> ct_cfg c2 = ct_cfg c"
    using j loop_ok [OF _ c1, of _ L K jr c2] c1 by (auto simp del: consumer_loop.simps split: if_splits)
  have "c' = c2 \<or> c' = c2\<lparr>ct_ring_thread := False, ct_consumer_thread := False\<rparr> \<or>
      (\<exists>e. c' = c2\<lparr>ct_ring_thread := False, ct_consumer_thread := False, ct_enforcer := e\<rparr>)"
    using assms(1) True j
    by (auto simp: request_stop_def Let_def simp del: consumer_loop.simps
        split: option.splits sum.splits outcome.splits prod.splits)
  moreover have "controller_ok (c2\<lparr>ct_ring_thread := False, ct_consumer_thread := False\<rparr>)"
    using c2 by (simp add: controller_ok_def)
  ultimately show ?thesis using c2 end_ok [of c2] by auto
qed (use assms in \<open>simp add: request_stop_def\<close>)

lemma ctl_step_ok:
  "ctl_step ops create_enforcer L K fmt c c' \<Longrightarrow> controller_ok c \<Longrightarrow>
     controller_ok c' \<and> cc_event_queue_capacity (ct_cfg c') = cc_event_queue_capacity (ct_cfg c)"
proof (induction rule: ctl_step.induct)
  case (ctl_start fs R c r c')
  then show ?case by (rule start_ok)
next
  case (ctl_load R p c r c')
  with load_ok show ?case by metis
next
  case (ctl_emit raw c c')
  with emit_ok show ?case by metis
next
  case (ctl_consume c r c')
  with consume_ok show ?case by metis
next
  case (ctl_stop c r c')
  with stop_ok show ?case by metis
qed (simp_all add: client_ok)

section \<open>Properties\<close>

text \<open>C22. The controller's state is well formed at every moment of its life, whatever operations ran in
  whatever order: the ring indices are in range, the ring holds fewer events than its configured
  capacity, the two worker threads exist together and only with a backend, the current policy is
  a valid one and the reverse resolver is the one built with it.\<close>

theorem controller_well_formed:
  assumes "controller_new logs offset store cfg = Returns c0"
    and "(ctl_step ops create_enforcer L K fmt)\<^sup>*\<^sup>* c0 c"
  shows "controller_ok c \<and> length (q_contents (ct_queue c)) < cc_event_queue_capacity cfg"
proof -
  from assms(2) have "controller_ok c \<and> cc_event_queue_capacity (ct_cfg c) = cc_event_queue_capacity cfg"
  proof induction
    case base
    from new_ok [OF assms(1)] show ?case by simp
  next
    case (step c1 c2)
    with ctl_step_ok [OF step.hyps(2)] show ?case by simp
  qed
  moreover from this have "length (q_contents (ct_queue c)) < q_capacity (ct_queue c)"
    by (intro q_count_less) (simp add: controller_ok_def)
  ultimately show ?thesis by (simp add: controller_ok_def)
qed

definition tiny_config :: controller_config where
  "tiny_config = default_controller_config\<lparr>cc_event_queue_capacity := 2\<rparr>"

lemma tiny_new: "\<exists>c0 :: (null_enforcer, unit) controller. controller_new (\<lambda>_. None) 0 (\<lambda>_. ()) tiny_config = Returns c0 \<and> \<not> ct_started c0 \<and>
    cc_policy_file (ct_cfg c0) = [] \<and> ct_queue c0 = \<lparr>q_slots = [empty_event, empty_event], q_head = 0, q_tail = 0, q_stop = False\<rparr>"
  by (simp add: controller_new_def tiny_config_def spsc_new_def default_controller_config_def Let_def numeral_2_eq_2)

theorem controller_well_formed_witness:
  "\<exists>c0 c1 c2. controller_new (\<lambda>_. None) 0 (\<lambda>_. ()) tiny_config = Returns c0 \<and>
     start null_ops null_new sample_lib (\<lambda>_. None) demo_resolver c0 = Some (Returns (Inr ()), c1) \<and>
     emit_event demo_time demo_raw c1 = Some c2 \<and> length (q_contents (ct_queue c2)) = 1 \<and> controller_ok c2"
proof -
  from tiny_new obtain c0 :: "(null_enforcer, unit) controller" where c0: "controller_new (\<lambda>_. None) 0 (\<lambda>_. ()) tiny_config = Returns c0"
    "\<not> ct_started c0" "cc_policy_file (ct_cfg c0) = []"
    "ct_queue c0 = \<lparr>q_slots = [empty_event, empty_event], q_head = 0, q_tail = 0, q_stop = False\<rparr>" by blast
  then obtain c1 where c1: "start null_ops null_new sample_lib (\<lambda>_. None) demo_resolver c0 = Some (Returns (Inr ()), c1)"
    "ct_queue c1 = ct_queue c0"
    by (simp add: start_def null_ops_def null_simps)
  then obtain c2 where c2: "emit_event demo_time demo_raw c1 = Some c2"
    "length (q_contents (ct_queue c2)) = 1"
    by (simp add: emit_event_def Let_def push_def q_full_def q_next_def c0(4) q_contents_def q_count_def mod_Suc)
  have "(ctl_step null_ops null_new sample_lib no_clients demo_time)\<^sup>*\<^sup>* c0 c2"
    using ctl_start [OF c1(1)] ctl_emit [OF c2(1)] by (meson rtranclp.simps)
  from controller_well_formed [OF c0(1) this] c0(1) c1(1) c2 show ?thesis by blast
qed

text \<open>A controller cannot be used twice: its queue stays stopped, so after a stop and a second
  successful start every event is dropped without a trace.\<close>

theorem restart_drops_events:
  assumes "ct_started c" and "request_stop ops L K c = Some (Returns (Inr ()), c1)"
    and "start ops create_enforcer L' fs R c1 = Some (Returns (Inr ()), c2)"
  shows "emit_event fmt raw c2 = Some c2"
proof -
  have loop: "consumer_loop n L K d = Some (x, d') \<Longrightarrow> q_stop (ct_queue d) \<Longrightarrow> q_stop (ct_queue d')" for n d x d'
  proof (induction n arbitrary: d)
    case (Suc n)
    from Suc.prems(1) obtain o1 d1 where one: "consume_one L K d = Some (o1, d1)"
      and rest: "d' = d1 \<or> consumer_loop n L K d1 = Some (x, d')"
      by (auto split: option.splits prod.splits outcome.splits bool.splits)
    from one Suc.prems(2) have "q_stop (ct_queue d1)"
      by (auto simp: consume_one_def pop_drop split: option.splits outcome.splits prod.splits if_splits)
    with rest Suc.IH show ?case by blast
  qed simp
  have "q_stop (ct_queue c1)"
    using assms(1,2)
    by (auto simp: request_stop_def Let_def queue_request_stop_def simp del: consumer_loop.simps
        split: option.splits sum.splits outcome.splits prod.splits if_splits dest: loop)
  moreover have "ct_queue c2 = ct_queue c1"
    using assms(3) load_policy_frame
    by (fastforce simp: start_def Let_def split: option.splits outcome.splits sum.splits prod.splits if_splits)
  ultimately have "push x (ct_queue c2) = Some (ct_queue c2)" for x by (simp add: push_store)
  then show ?thesis by (simp add: emit_event_def Let_def)
qed

end
