(* ===== verification/Apply_Steps.thy ===== *)
theory Apply_Steps
  imports Ebpf_Install
begin

text \<open>
  \<open>LinuxEBPFEnforcer::apply_policy\<close> once more, one libbpf call at a time: \<open>apply_pc\<close> is where the
  call stands in the function and \<open>apply_step\<close> makes its next call. This is the grain at which a
  hook run on another CPU can see the maps. The run of these steps is the function of
  \<open>Ebpf_Manager\<close>, and what the maps hold at each place is an invariant of them.
\<close>

section \<open>The function as a program counter\<close>

datatype apply_pc =
    At_Entry
  | At_Pause
  | At_First_Protected
  | At_Delete_Protected fileguard_file_id
  | At_Next_Protected fileguard_file_id
  | At_First_Rules
  | At_Delete_Rules fileguard_rule_key
  | At_Next_Rules fileguard_rule_key
  | At_Protected "file_id list" \<comment> \<open>still to insert\<close>
  | At_Rules "compiled_rule list"
  | At_Enable
  | At_Status
  | Returned "unit result"

definition log_maps :: "('p, 'r, 'c) kernel_maps \<Rightarrow> ('p, 'r, 'c) kernel_maps" where
  "log_maps m = m\<lparr>km_log := km_log m @ [snapshot m]\<rparr>"

text \<open>What \<open>clear_map\<close> does with the value that ended its loop.\<close>

definition after_clear :: "('p, 'r, 'c) bpf_sys \<Rightarrow> string \<Rightarrow> apply_pc \<Rightarrow> int \<times> nat \<Rightarrow> apply_pc" where
  "after_clear B map_name pc re =
     (if fst re \<noteq> 0 \<and> fst re \<noteq> - int ENOENT
      then Returned (Inl (''clear_map: iteration failed for '' @ quoted map_name @ bpf_err B (snd re)))
      else pc)"

fun apply_step ::
  "('p, 'r, 'c) bpf_sys \<Rightarrow> compiled_policy \<Rightarrow> apply_pc \<times> ('p, 'r, 'c) linux_enforcer \<Rightarrow>
     apply_pc \<times> ('p, 'r, 'c) linux_enforcer" where
  "apply_step B policy (At_Entry, e) =
     (if le_skel e then At_Pause else Returned (Inl ''enforcer not loaded''), e)"
| "apply_step B policy (At_Pause, e) =
     (case set_config B (zero_config\<lparr>conf_enabled := 0\<rparr>) (le_maps e) of
        ((ret, errno), m) \<Rightarrow>
          (if ret < 0 then Returned (Inl (''cannot pause enforcement (config map)'' @ bpf_err B errno))
           else At_First_Protected, e\<lparr>le_maps := m\<rparr>))"
| "apply_step B policy (At_First_Protected, e) =
     (case mo_next (bs_protected B) (km_protected (le_maps e)) None of
        ((res, errno), key) \<Rightarrow>
          (if res = 0 then At_Delete_Protected key
           else after_clear B ''fileguard_protected'' At_First_Rules (res, errno), e))"
| "apply_step B policy (At_Delete_Protected key, e) =
     (At_Next_Protected key, e\<lparr>le_maps := log_maps ((le_maps e)\<lparr>km_protected :=
        mo_delete (bs_protected B) (km_protected (le_maps e)) key\<rparr>)\<rparr>)"
| "apply_step B policy (At_Next_Protected key, e) =
     (case mo_next (bs_protected B) (km_protected (le_maps e)) (Some key) of
        ((res, errno), next_key) \<Rightarrow>
          (if res = 0 then At_Delete_Protected next_key
           else after_clear B ''fileguard_protected'' At_First_Rules (res, errno), e))"
| "apply_step B policy (At_First_Rules, e) =
     (case mo_next (bs_rules B) (km_rules (le_maps e)) None of
        ((res, errno), key) \<Rightarrow>
          (if res = 0 then At_Delete_Rules key
           else after_clear B ''fileguard_rules'' (At_Protected (cp_protected_resources policy)) (res, errno), e))"
| "apply_step B policy (At_Delete_Rules key, e) =
     (At_Next_Rules key, e\<lparr>le_maps := log_maps ((le_maps e)\<lparr>km_rules :=
        mo_delete (bs_rules B) (km_rules (le_maps e)) key\<rparr>)\<rparr>)"
| "apply_step B policy (At_Next_Rules key, e) =
     (case mo_next (bs_rules B) (km_rules (le_maps e)) (Some key) of
        ((res, errno), next_key) \<Rightarrow>
          (if res = 0 then At_Delete_Rules next_key
           else after_clear B ''fileguard_rules'' (At_Protected (cp_protected_resources policy)) (res, errno), e))"
| "apply_step B policy (At_Protected [], e) = (At_Rules (cp_rules policy), e)"
| "apply_step B policy (At_Protected (i # ids), e) =
     (case mo_update (bs_protected B) (km_protected (le_maps e)) (to_abi i) \<lparr>prot_reserved = 0\<rparr> BPF_NOEXIST of
        ((ret, errno), p) \<Rightarrow>
          (if ret < 0 \<and> errno \<noteq> EEXIST then Returned (Inl (''cannot insert protected resource'' @ bpf_err B errno))
           else At_Protected ids, e\<lparr>le_maps := log_maps ((le_maps e)\<lparr>km_protected := p\<rparr>)\<rparr>))"
| "apply_step B policy (At_Rules [], e) = (At_Enable, e)"
| "apply_step B policy (At_Rules (r # rs), e) =
     (case mo_update (bs_rules B) (km_rules (le_maps e)) (rule_key r) (rule_val r) BPF_NOEXIST of
        ((ret, errno), q) \<Rightarrow>
          (if ret < 0 \<and> errno \<noteq> EEXIST then Returned (Inl (''cannot insert policy rule'' @ bpf_err B errno))
           else At_Rules rs, e\<lparr>le_maps := log_maps ((le_maps e)\<lparr>km_rules := q\<rparr>)\<rparr>))"
| "apply_step B policy (At_Enable, e) =
     (case set_config B (zero_config\<lparr>conf_enabled := 1, conf_policy_version := cp_version policy\<rparr>) (le_maps e) of
        ((ret, errno), m) \<Rightarrow>
          (if ret < 0 then Returned (Inl (''cannot enable policy (config map)'' @ bpf_err B errno))
           else At_Status, e\<lparr>le_maps := m\<rparr>))"
| "apply_step B policy (At_Status, e) =
     (Returned (Inr ()), e\<lparr>le_status := (le_status e)\<lparr>st_policy_version := cp_version policy,
        st_protected_count := length (cp_protected_resources policy),
        st_rule_count := length (cp_rules policy), st_enforcing := True\<rparr>\<rparr>)"
| "apply_step B policy (Returned r, e) = (Returned r, e)"

text \<open>The state after \<open>n\<close> calls; a returned function stays where it is.\<close>

definition apply_after ::
  "('p, 'r, 'c) bpf_sys \<Rightarrow> compiled_policy \<Rightarrow> nat \<Rightarrow> apply_pc \<times> ('p, 'r, 'c) linux_enforcer \<Rightarrow>
     apply_pc \<times> ('p, 'r, 'c) linux_enforcer" where
  "apply_after B policy n = apply_step B policy ^^ n"

definition apply_reaches ::
  "('p, 'r, 'c) bpf_sys \<Rightarrow> compiled_policy \<Rightarrow> apply_pc \<times> ('p, 'r, 'c) linux_enforcer \<Rightarrow>
     apply_pc \<times> ('p, 'r, 'c) linux_enforcer \<Rightarrow> bool" where
  "apply_reaches B policy s s' \<longleftrightarrow> (\<exists>n. apply_after B policy n s = s')"

lemma reaches_refl [simp, intro]: "apply_reaches B policy s s"
  unfolding apply_reaches_def apply_after_def by (rule exI [of _ 0]) simp

lemma reaches_trans [trans]:
  "apply_reaches B policy s s' \<Longrightarrow> apply_reaches B policy s' s'' \<Longrightarrow> apply_reaches B policy s s''"
  unfolding apply_reaches_def apply_after_def by (metis comp_apply funpow_add)

lemma reaches_step: "apply_reaches B policy s (apply_step B policy s)"
  unfolding apply_reaches_def apply_after_def by (rule exI [of _ 1]) simp

lemma reaches_stepI: "apply_step B policy s = s' \<Longrightarrow> apply_reaches B policy s s'"
  using reaches_step by blast

lemma reaches_Cons: "apply_reaches B policy (apply_step B policy s) s' \<Longrightarrow> apply_reaches B policy s s'"
  by (rule reaches_trans [OF reaches_step])

lemma after_Returned: "apply_after B policy n (Returned r, e) = (Returned r, e)"
  by (induction n) (simp_all add: apply_after_def)

text \<open>The steps are a function, so a run returns one result.\<close>

lemma returned_unique:
  assumes "apply_reaches B policy s (Returned r, e)" and "apply_reaches B policy s (Returned r', e')"
  shows "r' = r \<and> e' = e"
proof -
  have *: "(Returned q', f') = (Returned q, f)"
    if "n \<le> m" "apply_after B policy n s = (Returned q, f)" "apply_after B policy m s = (Returned q', f')" for n m q f q' f'
  proof -
    have "apply_after B policy m s = apply_after B policy (m - n) (apply_after B policy n s)"
      using funpow_split [OF that(1)] by (simp add: apply_after_def)
    with that show ?thesis by (simp add: after_Returned)
  qed
  from assms obtain n m where "apply_after B policy n s = (Returned r, e)" "apply_after B policy m s = (Returned r', e')"
    unfolding apply_reaches_def by blast
  then show ?thesis using * [of n m r e r' e'] * [of m n r' e' r e] by (cases "n \<le> m") auto
qed

section \<open>Its run is \<open>apply_policy\<close>\<close>

text \<open>A loop that deletes and asks for the next key, whatever map it works on.\<close>

lemma clear_loop_reaches:
  assumes "clear_loop A m l k = Some y"
    and del: "\<And>k m l. apply_step B policy (del k, st m l) = (nxt k, st (mo_delete A m k) (l @ [mo_delete A m k]))"
    and nxt: "\<And>k m l res errno k'. mo_next A m (Some k) = ((res, errno), k') \<Longrightarrow>
      apply_step B policy (nxt k, st m l) = (if res = 0 then del k' else fin (res, errno), st m l)"
  shows "apply_reaches B policy (del k, st m l) (fin (fst y), st (fst (snd y)) (snd (snd y)))"
proof -
  have "A' = A \<longrightarrow> apply_reaches B policy (del k, st m l) (fin (fst y), st (fst (snd y)) (snd (snd y)))"
    if "clear_loop A' m l k = Some y" for A' m l k y
    using that
  proof (rule clear_loop.raw_induct [rotated], intro impI)
    fix loop A' m l k y
    assume IH: "\<And>A' m l k y. loop A' m l k = Some y \<Longrightarrow>
        A' = A \<longrightarrow> apply_reaches B policy (del k, st m l) (fin (fst y), st (fst (snd y)) (snd (snd y)))"
      and hyp: "(let m' = mo_delete A' m k in case mo_next A' m' (Some k) of ((res, errno), next_key) \<Rightarrow>
        if res = 0 then loop A' m' (l @ [m']) next_key else Some ((res, errno), m', l @ [m'])) = Some y"
      and A': "A' = A"
    let ?m' = "mo_delete A m k"
    obtain res errno k' where nx: "mo_next A ?m' (Some k) = ((res, errno), k')" by (metis prod.exhaust)
    have two: "apply_reaches B policy (del k, st m l) (if res = 0 then del k' else fin (res, errno), st ?m' (l @ [?m']))"
      by (rule reaches_Cons, unfold del, rule reaches_stepI) (rule nxt [OF nx])
    show "apply_reaches B policy (del k, st m l) (fin (fst y), st (fst (snd y)) (snd (snd y)))"
    proof (cases "res = 0")
      case True
      then have "loop A ?m' (l @ [?m']) k' = Some y" using hyp nx by (simp add: Let_def A')
      from IH [OF this] two True show ?thesis by (auto intro: reaches_trans)
    next
      case False
      then have "y = ((res, errno), ?m', l @ [?m'])" using hyp nx by (simp add: Let_def A')
      with two False show ?thesis by simp
    qed
  qed
  with assms(1) show ?thesis by blast
qed

abbreviation or_returned :: "unit result \<Rightarrow> apply_pc \<Rightarrow> apply_pc" where
  "or_returned x pc \<equiv> (case x of Inl msg \<Rightarrow> Returned (Inl msg) | Inr u \<Rightarrow> pc)"

text \<open>Each of the two \<open>clear_map\<close> calls.\<close>

lemma clear_map_cases:
  assumes "clear_map B name A m = Some (x, m', l)"
  obtains res errno where "x = (if res \<noteq> 0 \<and> res \<noteq> - int ENOENT
      then Inl (''clear_map: iteration failed for '' @ quoted name @ bpf_err B errno) else Inr ())"
    and "(\<exists>key. mo_next A m None = ((res, errno), key) \<and> res \<noteq> 0 \<and> m' = m \<and> l = []) \<or>
      (\<exists>e0 key. mo_next A m None = ((0, e0), key) \<and> clear_loop A m [] key = Some ((res, errno), m', l))"
proof -
  obtain res0 errno0 key where nx: "mo_next A m None = ((res0, errno0), key)" by (metis prod.exhaust)
  show thesis
  proof (cases "res0 = 0")
    case True
    with assms nx obtain res errno where "clear_loop A m [] key = Some ((res, errno), m', l)"
      and "x = (if res \<noteq> 0 \<and> res \<noteq> - int ENOENT
        then Inl (''clear_map: iteration failed for '' @ quoted name @ bpf_err B errno) else Inr ())"
      by (auto simp: clear_map_def split: option.splits)
    with nx True that show thesis by blast
  next
    case False
    with assms nx that [of res0 errno0] show thesis by (simp add: clear_map_def)
  qed
qed

lemma after_clear_eq:
  "after_clear B name pc (res, errno) = or_returned (if res \<noteq> 0 \<and> res \<noteq> - int ENOENT
      then Inl (''clear_map: iteration failed for '' @ quoted name @ bpf_err B errno) else Inr ()) pc"
  by (simp add: after_clear_def)

lemma clear_protected_reaches:
  assumes "clear_protected B (le_maps e) = Some (x, m)"
  shows "apply_reaches B policy (At_First_Protected, e)
    (or_returned x At_First_Rules, e\<lparr>le_maps := m\<rparr>)"
proof -
  let ?A = "bs_protected B" and ?M = "le_maps e" and ?name = "''fileguard_protected''"
  let ?st = "\<lambda>p l. e\<lparr>le_maps := ?M\<lparr>km_protected := p, km_log := km_log ?M @ map (\<lambda>q. (q, km_rules ?M, km_config ?M)) l\<rparr>\<rparr>"
  from assms obtain p l where c: "clear_map B ?name ?A (km_protected ?M) = Some (x, p, l)"
    and m: "e\<lparr>le_maps := m\<rparr> = ?st p l" by (auto simp: clear_protected_def)
  from c obtain res errno where x: "x = (if res \<noteq> 0 \<and> res \<noteq> - int ENOENT
      then Inl (''clear_map: iteration failed for '' @ quoted ?name @ bpf_err B errno) else Inr ())"
    and run: "(\<exists>key. mo_next ?A (km_protected ?M) None = ((res, errno), key) \<and> res \<noteq> 0 \<and> p = km_protected ?M \<and> l = []) \<or>
      (\<exists>e0 key. mo_next ?A (km_protected ?M) None = ((0, e0), key) \<and> clear_loop ?A (km_protected ?M) [] key = Some ((res, errno), p, l))"
    by (rule clear_map_cases)
  have "apply_reaches B policy (At_First_Protected, e) (after_clear B ?name At_First_Rules (res, errno), ?st p l)"
    using run
  proof (elim disjE exE conjE)
    fix key assume "mo_next ?A (km_protected ?M) None = ((res, errno), key)" "res \<noteq> 0" "p = km_protected ?M" "l = []"
    then show ?thesis by (intro reaches_stepI) simp
  next
    fix e0 key assume nx: "mo_next ?A (km_protected ?M) None = ((0, e0), key)"
      and lp: "clear_loop ?A (km_protected ?M) [] key = Some ((res, errno), p, l)"
    have "apply_reaches B policy (At_Delete_Protected key, ?st (km_protected ?M) [])
        (after_clear B ?name At_First_Rules (fst ((res, errno), p, l)), ?st (fst (snd ((res, errno), p, l))) (snd (snd ((res, errno), p, l))))"
      by (rule clear_loop_reaches [OF lp, where nxt = At_Next_Protected]) (simp_all add: log_maps_def snapshot_def)
    with nx show ?thesis by (intro reaches_Cons [of _ _ "(At_First_Protected, e)"]) simp
  qed
  then show ?thesis unfolding m x after_clear_eq .
qed

lemma clear_rules_reaches:
  assumes "clear_rules B (le_maps e) = Some (x, m)"
  shows "apply_reaches B policy (At_First_Rules, e)
    (or_returned x (At_Protected (cp_protected_resources policy)), e\<lparr>le_maps := m\<rparr>)"
proof -
  let ?A = "bs_rules B" and ?M = "le_maps e" and ?name = "''fileguard_rules''"
    and ?next = "At_Protected (cp_protected_resources policy)"
  let ?st = "\<lambda>r l. e\<lparr>le_maps := ?M\<lparr>km_rules := r, km_log := km_log ?M @ map (\<lambda>q. (km_protected ?M, q, km_config ?M)) l\<rparr>\<rparr>"
  from assms obtain p l where c: "clear_map B ?name ?A (km_rules ?M) = Some (x, p, l)"
    and m: "e\<lparr>le_maps := m\<rparr> = ?st p l" by (auto simp: clear_rules_def)
  from c obtain res errno where x: "x = (if res \<noteq> 0 \<and> res \<noteq> - int ENOENT
      then Inl (''clear_map: iteration failed for '' @ quoted ?name @ bpf_err B errno) else Inr ())"
    and run: "(\<exists>key. mo_next ?A (km_rules ?M) None = ((res, errno), key) \<and> res \<noteq> 0 \<and> p = km_rules ?M \<and> l = []) \<or>
      (\<exists>e0 key. mo_next ?A (km_rules ?M) None = ((0, e0), key) \<and> clear_loop ?A (km_rules ?M) [] key = Some ((res, errno), p, l))"
    by (rule clear_map_cases)
  have "apply_reaches B policy (At_First_Rules, e) (after_clear B ?name ?next (res, errno), ?st p l)"
    using run
  proof (elim disjE exE conjE)
    fix key assume "mo_next ?A (km_rules ?M) None = ((res, errno), key)" "res \<noteq> 0" "p = km_rules ?M" "l = []"
    then show ?thesis by (intro reaches_stepI) simp
  next
    fix e0 key assume nx: "mo_next ?A (km_rules ?M) None = ((0, e0), key)"
      and lp: "clear_loop ?A (km_rules ?M) [] key = Some ((res, errno), p, l)"
    have "apply_reaches B policy (At_Delete_Rules key, ?st (km_rules ?M) [])
        (after_clear B ?name ?next (fst ((res, errno), p, l)), ?st (fst (snd ((res, errno), p, l))) (snd (snd ((res, errno), p, l))))"
      by (rule clear_loop_reaches [OF lp, where nxt = At_Next_Rules]) (simp_all add: log_maps_def snapshot_def)
    with nx show ?thesis by (intro reaches_Cons [of _ _ "(At_First_Rules, e)"]) simp
  qed
  then show ?thesis unfolding m x after_clear_eq .
qed

lemma insert_protected_reaches:
  "insert_protected B ids (le_maps e) = (x, m) \<Longrightarrow> apply_reaches B policy (At_Protected ids, e)
    (or_returned x (At_Rules (cp_rules policy)), e\<lparr>le_maps := m\<rparr>)"
proof (induction ids arbitrary: e)
  case Nil
  then show ?case by (auto intro: reaches_stepI)
next
  case (Cons i ids)
  let ?M = "le_maps e"
  obtain ret errno p where up: "mo_update (bs_protected B) (km_protected ?M) (to_abi i)
      \<lparr>prot_reserved = 0\<rparr> BPF_NOEXIST = ((ret, errno), p)" by (metis prod.exhaust)
  let ?M1 = "log_maps (?M\<lparr>km_protected := p\<rparr>)"
  have M1: "?M\<lparr>km_protected := p, km_log := km_log ?M @ [(p, km_rules ?M, km_config ?M)]\<rparr> = ?M1"
    by (simp add: log_maps_def snapshot_def)
  show ?case
  proof (cases "ret < 0 \<and> errno \<noteq> EEXIST")
    case True
    with Cons.prems show ?thesis by (intro reaches_stepI) (auto simp: up Let_def M1)
  next
    case False
    then have "insert_protected B ids (le_maps (e\<lparr>le_maps := ?M1\<rparr>)) = (x, m)"
      using Cons.prems by (auto simp: up Let_def M1 split: if_splits)
    from Cons.IH [OF this] False show ?thesis by (intro reaches_Cons [of _ _ "(At_Protected (i # ids), e)"]) (auto simp: up)
  qed
qed

lemma insert_rules_reaches:
  "insert_rules B rs (le_maps e) = (x, m) \<Longrightarrow> apply_reaches B policy (At_Rules rs, e)
    (or_returned x At_Enable, e\<lparr>le_maps := m\<rparr>)"
proof (induction rs arbitrary: e)
  case Nil
  then show ?case by (auto intro: reaches_stepI)
next
  case (Cons r rs)
  let ?M = "le_maps e"
  obtain ret errno q where up: "mo_update (bs_rules B) (km_rules ?M) (rule_key r) (rule_val r) BPF_NOEXIST
      = ((ret, errno), q)" by (metis prod.exhaust)
  let ?M1 = "log_maps (?M\<lparr>km_rules := q\<rparr>)"
  have M1: "?M\<lparr>km_rules := q, km_log := km_log ?M @ [(km_protected ?M, q, km_config ?M)]\<rparr> = ?M1"
    by (simp add: log_maps_def snapshot_def)
  show ?case
  proof (cases "ret < 0 \<and> errno \<noteq> EEXIST")
    case True
    with Cons.prems show ?thesis by (intro reaches_stepI) (auto simp: up Let_def M1)
  next
    case False
    then have "insert_rules B rs (le_maps (e\<lparr>le_maps := ?M1\<rparr>)) = (x, m)"
      using Cons.prems by (auto simp: up Let_def M1 split: if_splits)
    from Cons.IH [OF this] False show ?thesis by (intro reaches_Cons [of _ _ "(At_Rules (r # rs), e)"]) (auto simp: up)
  qed
qed

text \<open>The phases in sequence: first the part after the two \<open>clear_map\<close> calls.\<close>

lemma fill_reaches:
  assumes "insert_protected B (cp_protected_resources policy) (le_maps e) = (x4, m4)"
    and "insert_rules B (cp_rules policy) m4 = (x5, m5)"
    and "set_config B (zero_config\<lparr>conf_enabled := 1, conf_policy_version := cp_version policy\<rparr>) m5 = ((ret, errno), m6)"
  shows "apply_reaches B policy (At_Protected (cp_protected_resources policy), e)
    (case x4 of Inl msg \<Rightarrow> (Returned (Inl msg), e\<lparr>le_maps := m4\<rparr>)
     | Inr u \<Rightarrow> (case x5 of Inl msg \<Rightarrow> (Returned (Inl msg), e\<lparr>le_maps := m5\<rparr>)
       | Inr u \<Rightarrow> (if ret < 0 then Returned (Inl (''cannot enable policy (config map)'' @ bpf_err B errno))
           else At_Status, e\<lparr>le_maps := m6\<rparr>)))"
proof (cases x4)
  case (Inl msg)
  with insert_protected_reaches [OF assms(1)] show ?thesis by simp
next
  case x4: (Inr u4)
  note r4 = insert_protected_reaches [OF assms(1), of policy, unfolded x4, simplified]
  have "apply_reaches B policy (At_Rules (cp_rules policy), e\<lparr>le_maps := m4\<rparr>) (or_returned x5 At_Enable, e\<lparr>le_maps := m5\<rparr>)"
    using insert_rules_reaches [of B _ "e\<lparr>le_maps := m4\<rparr>"] assms(2) by simp
  with r4 have r5: "apply_reaches B policy (At_Protected (cp_protected_resources policy), e)
      (or_returned x5 At_Enable, e\<lparr>le_maps := m5\<rparr>)" by (rule reaches_trans)
  show ?thesis
  proof (cases x5)
    case (Inl msg)
    with r5 x4 show ?thesis by simp
  next
    case x5: (Inr u5)
    with r5 have "apply_reaches B policy (At_Protected (cp_protected_resources policy), e) (At_Enable, e\<lparr>le_maps := m5\<rparr>)" by simp
    from reaches_trans [OF this reaches_step] show ?thesis by (simp add: x4 x5 assms(3))
  qed
qed

lemma install_reaches:
  assumes im: "install_maps B policy (le_maps e) = Some (x, m)"
  shows "apply_reaches B policy (At_Pause, e) (or_returned x At_Status, e\<lparr>le_maps := m\<rparr>)"
proof -
  obtain ret1 errno1 m1 where s1: "set_config B (zero_config\<lparr>conf_enabled := 0\<rparr>) (le_maps e) = ((ret1, errno1), m1)"
    by (metis prod.exhaust)
  show ?thesis
  proof (cases "ret1 < 0")
    case True
    with im s1 show ?thesis by (intro reaches_stepI) (auto simp: install_maps_def)
  next
    case False
    have r1: "apply_reaches B policy (At_Pause, e) (At_First_Protected, e\<lparr>le_maps := m1\<rparr>)"
      using s1 False by (intro reaches_stepI) simp
    from im s1 False obtain x2 m2 where c2: "clear_protected B m1 = Some (x2, m2)"
      by (auto simp: install_maps_def split: option.splits)
    with clear_protected_reaches [of B "e\<lparr>le_maps := m1\<rparr>" x2 m2 policy]
    have r2: "apply_reaches B policy (At_Pause, e) (or_returned x2 At_First_Rules, e\<lparr>le_maps := m2\<rparr>)"
      by (auto intro: reaches_trans [OF r1])
    show ?thesis
    proof (cases "\<exists>u x3 m3. x2 = Inr u \<and> clear_rules B m2 = Some (x3, m3)")
      case other: False
      with im s1 False c2 r2 show ?thesis by (cases x2) (auto simp: install_maps_def split: option.splits)
    next
      case True
      then obtain x3 m3 where c3: "x2 = Inr ()" "clear_rules B m2 = Some (x3, m3)" by auto
      with clear_rules_reaches [of B "e\<lparr>le_maps := m2\<rparr>" x3 m3 policy] r2 have r3: "apply_reaches B policy (At_Pause, e)
          (or_returned x3 (At_Protected (cp_protected_resources policy)), e\<lparr>le_maps := m3\<rparr>)"
        by (auto intro: reaches_trans)
      obtain x4 m4 where c4: "insert_protected B (cp_protected_resources policy) m3 = (x4, m4)" by (metis prod.exhaust)
      obtain x5 m5 where c5: "insert_rules B (cp_rules policy) m4 = (x5, m5)" by (metis prod.exhaust)
      obtain ret errno m6 where c6: "set_config B (zero_config\<lparr>conf_enabled := 1,
          conf_policy_version := cp_version policy\<rparr>) m5 = ((ret, errno), m6)" by (metis prod.exhaust)
      note fill = fill_reaches [of B policy "e\<lparr>le_maps := m3\<rparr>", simplified, OF c4 c5 c6]
      from im s1 False c2 c3 c4 c5 c6 r3 reaches_trans [OF _ fill] show ?thesis
        by (cases x3; cases x4; cases x5) (auto simp: install_maps_def split: if_splits)
    qed
  qed
qed

lemma linux_apply_reaches:
  assumes "linux_apply_policy B e policy = Some (r, e')"
  shows "apply_reaches B policy (At_Entry, e) (Returned r, e')"
proof (cases "le_skel e")
  case False
  with assms show ?thesis by (intro reaches_stepI) (auto simp: linux_apply_policy_def)
next
  case True
  then obtain x m where im: "install_maps B policy (le_maps e) = Some (x, m)"
    using assms by (auto simp: linux_apply_policy_def split: option.splits)
  have "apply_reaches B policy (At_Entry, e)
      (or_returned x At_Status, e\<lparr>le_maps := m\<rparr>)"
    using install_reaches [OF im] True by (intro reaches_Cons [of _ _ "(At_Entry, e)"]) simp
  with True assms im show ?thesis
    by (cases x) (auto simp: linux_apply_policy_def intro: reaches_trans [OF _ reaches_stepI])
qed

lemma apply_reaches_returned:
  assumes "bpf_laws B" and "apply_reaches B policy (At_Entry, e) (Returned r, e')"
  shows "linux_apply_policy B e policy = Some (r, e')"
proof -
  obtain r0 e0 where "linux_apply_policy B e policy = Some (r0, e0)"
    using linux_apply_returns [OF assms(1)] by blast
  with returned_unique [OF assms(2) linux_apply_reaches [OF this]] show ?thesis by simp
qed

text \<open>C9. One call at a time or as a whole: run alone on maps that behave as documented, the steps of
  \<open>apply_policy\<close> always come to an end, whatever the maps hold at the start; they then stay where they
  are, and their result and final state are those of \<open>apply_policy\<close> as one function, which therefore
  returns too.\<close>

theorem apply_steps_equiv:
  assumes "bpf_laws B"
  shows "\<exists>n r e'. (\<forall>m \<ge> n. apply_after B policy m (At_Entry, e) = (Returned r, e')) \<and>
    (\<forall>m < n. \<forall>q. fst (apply_after B policy m (At_Entry, e)) \<noteq> Returned q) \<and>
    linux_apply_policy B e policy = Some (r, e')"
proof -
  obtain r e' where ap: "linux_apply_policy B e policy = Some (r, e')" using linux_apply_returns [OF assms] by blast
  let ?P = "\<lambda>n. \<exists>q. fst (apply_after B policy n (At_Entry, e)) = Returned q"
  define n where "n = (LEAST n. ?P n)"
  from linux_apply_reaches [OF ap] have "\<exists>n. ?P n" unfolding apply_reaches_def by (metis fst_conv)
  then have P: "?P n" unfolding n_def by (rule LeastI_ex)
  then obtain q e1 where n: "apply_after B policy n (At_Entry, e) = (Returned q, e1)" by (metis prod.collapse)
  then have "apply_reaches B policy (At_Entry, e) (Returned q, e1)" by (auto simp: apply_reaches_def)
  from apply_reaches_returned [OF assms this] ap have "q = r" "e1 = e'" by simp_all
  moreover have "apply_after B policy m (At_Entry, e) = (Returned q, e1)" if "n \<le> m" for m
    using funpow_split [OF that, of "apply_step B policy" "(At_Entry, e)"] n after_Returned [of B policy "m - n" q e1]
    by (simp add: apply_after_def)
  moreover have "\<not> ?P m" if "m < n" for m using that unfolding n_def by (rule not_less_Least)
  ultimately show ?thesis using ap by blast
qed

theorem apply_steps_equiv_witness:
  "\<exists>n. apply_after demo_sys (demo_compiled 300) n (At_Entry, demo_enforcer) = (Returned (Inr ()), demo_enforcer' 300)"
  using apply_steps_equiv [OF demo_sys_laws, of "demo_compiled 300" demo_enforcer] demo_apply [of 300] by auto

section \<open>What the maps hold at each place\<close>

abbreviation maps_view :: "('p, 'r, 'c) bpf_sys \<Rightarrow> ('p, 'r, 'c) linux_enforcer \<Rightarrow> kview" where
  "maps_view B e \<equiv> view_of B (snapshot (le_maps e))"

definition paused :: "kview \<Rightarrow> bool" where
  "paused v \<longleftrightarrow> kv_config v = Some zero_config"

definition protected_view :: "file_id list \<Rightarrow> fileguard_file_id \<Rightarrow> fileguard_protected_val option" where
  "protected_view ids k = (if k \<in> to_abi ` set ids then Some \<lparr>prot_reserved = 0\<rparr> else None)"

definition rules_view :: "compiled_rule list \<Rightarrow> fileguard_rule_key \<Rightarrow> fileguard_rule_val option" where
  "rules_view rs k = map_option rule_val (find (\<lambda>r. rule_key r = k) rs)"

lemma installed_view_parts:
  "kv_protected (installed_view cp) = protected_view (cp_protected_resources cp)"
  "kv_rules (installed_view cp) = rules_view (cp_rules cp)"
  "kv_config (installed_view cp) =
     Some \<lparr>conf_policy_version = cp_version cp, conf_enabled = 1, conf_reserved = (0, 0)\<rparr>"
  by (simp_all add: installed_view_def protected_view_def rules_view_def fun_eq_iff)

lemma find_append: "find P (xs @ ys) = (case find P xs of None \<Rightarrow> find P ys | Some x \<Rightarrow> Some x)"
  by (induction xs) auto

lemma protected_view_prefix: "protected_view a \<subseteq>\<^sub>m protected_view (a @ b)"
  by (auto simp: map_le_def protected_view_def)

lemma rules_view_prefix: "rules_view a \<subseteq>\<^sub>m rules_view (a @ b)"
  by (auto simp: map_le_def rules_view_def find_append split: option.splits)

text \<open>\<open>v0\<close> is what the maps held when the call entered.\<close>

fun at_view :: "compiled_policy \<Rightarrow> kview \<Rightarrow> apply_pc \<Rightarrow> kview \<Rightarrow> bool" where
  "at_view cp v0 At_Entry v = (v = v0)"
| "at_view cp v0 At_Pause v = (v = v0)"
| "at_view cp v0 At_First_Protected v =
     (paused v \<and> kv_protected v \<subseteq>\<^sub>m kv_protected v0 \<and> kv_rules v \<subseteq>\<^sub>m kv_rules v0)"
| "at_view cp v0 (At_Delete_Protected k) v =
     (paused v \<and> kv_protected v \<subseteq>\<^sub>m kv_protected v0 \<and> kv_rules v \<subseteq>\<^sub>m kv_rules v0)"
| "at_view cp v0 (At_Next_Protected k) v =
     (paused v \<and> kv_protected v \<subseteq>\<^sub>m kv_protected v0 \<and> kv_rules v \<subseteq>\<^sub>m kv_rules v0 \<and> kv_protected v k = None)"
| "at_view cp v0 At_First_Rules v =
     (paused v \<and> kv_protected v = Map.empty \<and> kv_rules v \<subseteq>\<^sub>m kv_rules v0)"
| "at_view cp v0 (At_Delete_Rules k) v =
     (paused v \<and> kv_protected v = Map.empty \<and> kv_rules v \<subseteq>\<^sub>m kv_rules v0)"
| "at_view cp v0 (At_Next_Rules k) v =
     (paused v \<and> kv_protected v = Map.empty \<and> kv_rules v \<subseteq>\<^sub>m kv_rules v0 \<and> kv_rules v k = None)"
| "at_view cp v0 (At_Protected ids) v =
     (paused v \<and> kv_rules v = Map.empty \<and>
       (\<exists>ins. cp_protected_resources cp = ins @ ids \<and> kv_protected v = protected_view ins))"
| "at_view cp v0 (At_Rules rs) v =
     (paused v \<and> kv_protected v = kv_protected (installed_view cp) \<and>
       (\<exists>ins. cp_rules cp = ins @ rs \<and> kv_rules v = rules_view ins))"
| "at_view cp v0 At_Enable v = (v = (installed_view cp)\<lparr>kv_config := Some zero_config\<rparr>)"
| "at_view cp v0 At_Status v = (v = installed_view cp)"
| "at_view cp v0 (Returned (Inr u)) v = (v = installed_view cp)"
| "at_view cp v0 (Returned (Inl m)) v = (v = v0 \<or> paused v \<and>
     (kv_protected v \<subseteq>\<^sub>m kv_protected v0 \<or> kv_protected v \<subseteq>\<^sub>m kv_protected (installed_view cp)) \<and>
     (kv_rules v \<subseteq>\<^sub>m kv_rules v0 \<or> kv_rules v \<subseteq>\<^sub>m kv_rules (installed_view cp)))"

text \<open>The common part: nothing but the old view and the new policy's view ever enforces, and
  what the two maps hold comes from one or the other.\<close>

definition between :: "compiled_policy \<Rightarrow> kview \<Rightarrow> kview \<Rightarrow> bool" where
  "between cp v0 v \<longleftrightarrow> (v = v0 \<or> v = installed_view cp \<or> paused v) \<and>
     (kv_protected v \<subseteq>\<^sub>m kv_protected v0 \<or> kv_protected v \<subseteq>\<^sub>m kv_protected (installed_view cp)) \<and>
     (kv_rules v \<subseteq>\<^sub>m kv_rules v0 \<or> kv_rules v \<subseteq>\<^sub>m kv_rules (installed_view cp))"

lemma at_view_between: "at_view cp v0 pc v \<Longrightarrow> between cp v0 v"
  by (cases "(cp, v0, pc, v)" rule: at_view.cases)
     (auto simp: between_def paused_def installed_view_parts protected_view_prefix rules_view_prefix)

lemma view_simps:
  "kv_config (view_of B (snapshot m)) = mo_lookup (bs_config B) (km_config m) 0"
  "kv_protected (view_of B (snapshot m)) = mo_lookup (bs_protected B) (km_protected m)"
  "kv_rules (view_of B (snapshot m)) = mo_lookup (bs_rules B) (km_rules m)"
  by (simp_all add: view_of_def snapshot_def)

lemma log_maps_simps [simp]:
  "km_protected (log_maps m) = km_protected m" "km_rules (log_maps m) = km_rules m"
  "km_config (log_maps m) = km_config m"
  by (simp_all add: log_maps_def)

lemma kview_eqI: "kv_config v = kv_config w \<Longrightarrow> kv_protected v = kv_protected w \<Longrightarrow> kv_rules v = kv_rules w \<Longrightarrow> (v::kview) = w"
  by simp

text \<open>One call after the other.\<close>

lemma next_key_end:
  assumes "hash_map_laws A" and "mo_next A m ko = ((res, errno), key)"
    and "case ko of None \<Rightarrow> True | Some k \<Rightarrow> mo_lookup A m k = None" and "res \<noteq> 0"
  shows "mo_lookup A m = Map.empty \<and> after_clear B name pc (res, errno) = pc"
  using hash_next_empty [OF assms(1-3)] hash_next_some [OF assms(1-3)] assms(4)
  by (auto simp: after_clear_def)

lemma map_le_delete: "f \<subseteq>\<^sub>m g \<Longrightarrow> f(k := None) \<subseteq>\<^sub>m g"
  by (auto simp: map_le_def)

lemma set_config_view:
  assumes "config_map_laws (bs_config B)" and "set_config B cfg m = ((ret, errno), m')"
  shows "view_of B (snapshot m') = (if ret < 0 then view_of B (snapshot m)
    else (view_of B (snapshot m))\<lparr>kv_config := Some cfg\<rparr>)"
  using set_config_config [OF assms] set_config_frame [OF assms(2)]
  by (auto simp: view_of_def snapshot_def)

lemma protected_view_snoc:
  "protected_view (ins @ [i]) =
     (\<lambda>k. if k = to_abi i \<and> protected_view ins (to_abi i) = None then Some \<lparr>prot_reserved = 0\<rparr> else protected_view ins k)"
  by (auto simp: protected_view_def fun_eq_iff)

lemma rules_view_snoc:
  "rules_view (ins @ [r]) =
     (\<lambda>k. if k = rule_key r \<and> rules_view ins (rule_key r) = None then Some (rule_val r) else rules_view ins k)"
  by (auto simp: rules_view_def fun_eq_iff find_append split: option.splits)

lemma zero_config_disabled: "zero_config\<lparr>conf_enabled := 0\<rparr> = zero_config"
  by (simp add: zero_config_def)

lemma at_view_pause:
  assumes "config_map_laws (bs_config B)" and "apply_step B cp (At_Pause, e) = (pc', e')"
  shows "at_view cp (maps_view B e) pc' (maps_view B e')"
proof -
  obtain ret errno m where s: "set_config B zero_config (le_maps e) = ((ret, errno), m)" by (metis prod.exhaust)
  from set_config_view [OF assms(1) s] assms(2) show ?thesis
    by (auto simp: zero_config_disabled s paused_def split: if_splits)
qed

lemma at_view_insert_protected:
  assumes "hash_map_laws (bs_protected B)" and "at_view cp v0 (At_Protected (i # ids)) (maps_view B e)"
    and "apply_step B cp (At_Protected (i # ids), e) = (pc', e')"
  shows "at_view cp v0 pc' (maps_view B e')"
proof -
  obtain ret errno p where up: "mo_update (bs_protected B) (km_protected (le_maps e)) (to_abi i)
      \<lparr>prot_reserved = 0\<rparr> BPF_NOEXIST = ((ret, errno), p)" by (metis prod.exhaust)
  from assms(2) obtain ins where ins: "cp_protected_resources cp = (ins @ [i]) @ ids"
    and v: "mo_lookup (bs_protected B) (km_protected (le_maps e)) = protected_view ins"
    by (auto simp: view_simps)
  show ?thesis
  proof (cases "ret < 0 \<and> errno \<noteq> EEXIST")
    case True
    with hash_update [OF assms(1) up] have "mo_lookup (bs_protected B) p = protected_view ins" by (simp add: v)
    with assms(2,3) True show ?thesis
      using protected_view_prefix [of ins "i # ids"] by (auto simp: view_simps up paused_def installed_view_parts ins)
  next
    case False
    have "mo_lookup (bs_protected B) p = protected_view (ins @ [i])"
      unfolding protected_view_snoc v [symmetric] by (rule noexist_step [OF assms(1) up False])
    with assms(2,3) False ins show ?thesis by (auto simp: view_simps up paused_def intro: exI [of _ "ins @ [i]"])
  qed
qed

lemma at_view_insert_rule:
  assumes "hash_map_laws (bs_rules B)" and "at_view cp v0 (At_Rules (r # rs)) (maps_view B e)"
    and "apply_step B cp (At_Rules (r # rs), e) = (pc', e')"
  shows "at_view cp v0 pc' (maps_view B e')"
proof -
  obtain ret errno q where up: "mo_update (bs_rules B) (km_rules (le_maps e)) (rule_key r) (rule_val r) BPF_NOEXIST
      = ((ret, errno), q)" by (metis prod.exhaust)
  from assms(2) obtain ins where ins: "cp_rules cp = (ins @ [r]) @ rs"
    and v: "mo_lookup (bs_rules B) (km_rules (le_maps e)) = rules_view ins"
    by (auto simp: view_simps)
  show ?thesis
  proof (cases "ret < 0 \<and> errno \<noteq> EEXIST")
    case True
    with hash_update [OF assms(1) up] have "mo_lookup (bs_rules B) q = rules_view ins" by (simp add: v)
    with assms(2,3) True show ?thesis
      using rules_view_prefix [of ins "r # rs"] by (auto simp: view_simps up paused_def installed_view_parts ins)
  next
    case False
    have "mo_lookup (bs_rules B) q = rules_view (ins @ [r])"
      unfolding rules_view_snoc v [symmetric] by (rule noexist_step [OF assms(1) up False])
    with assms(2,3) False ins show ?thesis by (auto simp: view_simps up paused_def intro: exI [of _ "ins @ [r]"])
  qed
qed

lemma at_view_enable:
  assumes "config_map_laws (bs_config B)" and "at_view cp v0 At_Enable (maps_view B e)"
    and "apply_step B cp (At_Enable, e) = (pc', e')"
  shows "at_view cp v0 pc' (maps_view B e')"
proof -
  obtain ret errno m where s: "set_config B (zero_config\<lparr>conf_enabled := 1, conf_policy_version := cp_version cp\<rparr>)
      (le_maps e) = ((ret, errno), m)" by (metis prod.exhaust)
  from assms(3) s have pc': "pc' = (if ret < 0 then Returned (Inl (''cannot enable policy (config map)'' @ bpf_err B errno))
      else At_Status)" and e': "e' = e\<lparr>le_maps := m\<rparr>" by simp_all
  show ?thesis
  proof (cases "ret < 0")
    case True
    with set_config_view [OF assms(1) s] assms(2) show ?thesis by (simp add: pc' e' paused_def)
  next
    case False
    have "(installed_view cp)\<lparr>kv_config := Some (zero_config\<lparr>conf_enabled := 1, conf_policy_version := cp_version cp\<rparr>)\<rparr>
        = installed_view cp" by (simp add: installed_view_def zero_config_def)
    with False set_config_view [OF assms(1) s] assms(2) show ?thesis by (simp add: pc' e')
  qed
qed

lemma at_view_next_protected:
  assumes "hash_map_laws (bs_protected B)" and "at_view cp v0 pc (maps_view B e)"
    and "pc = At_First_Protected \<and> ko = None \<or> (\<exists>k. pc = At_Next_Protected k \<and> ko = Some k)"
    and "apply_step B cp (pc, e) = (pc', e')"
  shows "at_view cp v0 pc' (maps_view B e')"
proof -
  obtain res errno key where nx: "mo_next (bs_protected B) (km_protected (le_maps e)) ko = ((res, errno), key)"
    by (metis prod.exhaust)
  from assms(2,3) have "case ko of None \<Rightarrow> True | Some k \<Rightarrow> mo_lookup (bs_protected B) (km_protected (le_maps e)) k = None"
    by (auto simp: view_simps)
  note ended = next_key_end [where B = B, OF assms(1) nx this, THEN conjunct1]
    next_key_end [where B = B, OF assms(1) nx this, THEN conjunct2]
  from ended assms(2-4) nx show ?thesis
    by (cases "res = 0") (auto simp: view_simps)
qed

lemma at_view_next_rules:
  assumes "hash_map_laws (bs_rules B)" and "at_view cp v0 pc (maps_view B e)"
    and "pc = At_First_Rules \<and> ko = None \<or> (\<exists>k. pc = At_Next_Rules k \<and> ko = Some k)"
    and "apply_step B cp (pc, e) = (pc', e')"
  shows "at_view cp v0 pc' (maps_view B e')"
proof -
  obtain res errno key where nx: "mo_next (bs_rules B) (km_rules (le_maps e)) ko = ((res, errno), key)"
    by (metis prod.exhaust)
  from assms(2,3) have "case ko of None \<Rightarrow> True | Some k \<Rightarrow> mo_lookup (bs_rules B) (km_rules (le_maps e)) k = None"
    by (auto simp: view_simps)
  note ended = next_key_end [where B = B, OF assms(1) nx this, THEN conjunct1]
    next_key_end [where B = B, OF assms(1) nx this, THEN conjunct2]
  from ended assms(2-4) nx show ?thesis
    by (cases "res = 0") (auto simp: view_simps protected_view_def fun_eq_iff)
qed

lemma at_view_step:
  assumes laws: "bpf_laws B" and v: "at_view cp v0 pc (maps_view B e)" and st: "apply_step B cp (pc, e) = (pc', e')"
  shows "at_view cp v0 pc' (maps_view B e')"
proof -
  have L: "hash_map_laws (bs_protected B)" "hash_map_laws (bs_rules B)" "config_map_laws (bs_config B)"
    using laws by (simp_all add: bpf_laws_def)
  show ?thesis
  proof (cases pc)
    case At_Pause
    with at_view_pause [OF L(3), of cp e] v st show ?thesis by simp
  next
    case (At_Protected ids)
    with at_view_insert_protected [OF L(1)] v st show ?thesis
      by (cases ids) (auto simp: view_simps installed_view_parts rules_view_def fun_eq_iff)
  next
    case (At_Rules rs)
    with at_view_insert_rule [OF L(2)] v st show ?thesis
      by (cases rs) (auto simp: view_simps installed_view_parts paused_def intro!: kview_eqI)
  next
    case At_Enable
    with at_view_enable [OF L(3)] v st show ?thesis by simp
  next
    case (Returned r)
    with v st show ?thesis by simp
  qed (use v st L at_view_next_protected [OF L(1) v _ st] at_view_next_rules [OF L(2) v _ st] in
    \<open>auto simp: view_simps paused_def map_le_delete split: if_splits\<close>)
qed

lemma at_view_reaches:
  assumes "bpf_laws B" and "apply_reaches B cp (At_Entry, e0) (pc, e)"
  shows "at_view cp (maps_view B e0) pc (maps_view B e)"
proof -
  from assms(2) obtain n where "(apply_step B cp ^^ n) (At_Entry, e0) = (pc, e)"
    by (auto simp: apply_reaches_def apply_after_def)
  then show ?thesis
  proof (induction n arbitrary: pc e)
    case (Suc n)
    obtain pc1 e1 where "(apply_step B cp ^^ n) (At_Entry, e0) = (pc1, e1)" by fastforce
    with Suc at_view_step [OF assms(1) Suc.IH, of pc1 e1] show ?case by simp
  qed auto
qed

text \<open>What a call leaves alone until it returns.\<close>

lemma apply_step_frame:
  assumes "apply_step B cp (pc, e) = (pc', e')"
  shows "le_skel e' = le_skel e \<and> le_ring e' = le_ring e \<and> le_cfg e' = le_cfg e \<and>
    (pc \<noteq> At_Status \<longrightarrow> le_status e' = le_status e)"
  using assms by (cases "(B, cp, pc, e)" rule: apply_step.cases) (auto split: prod.splits if_splits)

lemma apply_reaches_cfg: "apply_reaches B cp (pc, e) (pc', e') \<Longrightarrow> le_cfg e' = le_cfg e \<and> le_skel e' = le_skel e"
proof -
  assume "apply_reaches B cp (pc, e) (pc', e')"
  then obtain n where "(apply_step B cp ^^ n) (pc, e) = (pc', e')"
    by (auto simp: apply_reaches_def apply_after_def)
  then show ?thesis
  proof (induction n arbitrary: pc' e')
    case (Suc n)
    obtain pc1 e1 where "(apply_step B cp ^^ n) (pc, e) = (pc1, e1)" by fastforce
    with Suc apply_step_frame [of B cp pc1 e1 pc' e'] show ?case by auto
  qed simp
qed

end
