(* ===== verification/System.thy ===== *)
theory System
  imports Agreement Controller_Properties
begin

text \<open>
  The running system on the Linux backend, composed: processes open files and the LSM hook
  answers on the installed maps, submitted events wait in the kernel's ring buffer, the poller
  hands them to \<open>ring_callback\<close> and \<open>emit_event\<close>, the consumer takes them from the queue to the
  sinks, and policies are loaded in between. The abstract specification is a reference monitor,
  whose whole state is the policy in force. An open and a load are single steps here; the
  interleavings inside a load, and of several loads, are those of \<open>Load_Concurrency\<close> and the theories
  on it, which refine the same monitor.
\<close>

section \<open>The system\<close>

record ('p, 'r, 'c, 'k) fg_system =
  sy_controller :: "(('p, 'r, 'c) linux_enforcer, 'k) controller"
  sy_ring :: "fileguard_event list" \<comment> \<open>submitted, not polled yet\<close>

datatype sys_label =
    Opened string string i32 "fileguard_event option" \<comment> \<open>path, executable, answer, event\<close>
  | Loaded policy "unit result"
  | Polled
  | Consumed security_event

text \<open>Without an attached program the kernel lets every open pass.\<close>

definition kernel_answer ::
  "('p, 'r, 'c) bpf_sys \<Rightarrow> ('p, 'r, 'c) linux_enforcer \<Rightarrow> open_ctx \<Rightarrow> kfile \<Rightarrow> i32 \<times> fileguard_event option" where
  "kernel_answer B e ctx file =
     (if le_skel e then fg_file_open (view_of B (snapshot (le_maps e))) ctx file else (0, None))"

text \<open>One record of the ring buffer: the poller blocks in \<open>push\<close> while the queue is full.\<close>

definition poll_record ::
  "(int \<Rightarrow> string) \<Rightarrow> fileguard_event \<Rightarrow> (('p, 'r, 'c) linux_enforcer, 'k) controller \<Rightarrow>
     (('p, 'r, 'c) linux_enforcer, 'k) controller option" where
  "poll_record fmt ev c =
     (case ct_enforcer c of
        None \<Rightarrow> Some c
      | Some e \<Rightarrow>
          (case ring_callback e (Some ev) sizeof_event of
             (None, e') \<Rightarrow> Some (c\<lparr>ct_enforcer := Some e'\<rparr>)
           | (Some raw, e') \<Rightarrow> emit_event fmt raw (c\<lparr>ct_enforcer := Some e'\<rparr>)))"

inductive sys_step ::
  "('p, 'r, 'c) bpf_sys \<Rightarrow> ('p, 'r, 'c) load_env \<Rightarrow> 'j json_lib \<Rightarrow> 'k client_ops \<Rightarrow> file_resolver \<Rightarrow>
     (int \<Rightarrow> string) \<Rightarrow> sys_label \<Rightarrow> ('p, 'r, 'c, 'k) fg_system \<Rightarrow> ('p, 'r, 'c, 'k) fg_system \<Rightarrow> bool"
  for B env L K R fmt where
  step_open: "ct_enforcer (sy_controller s) = Some e \<Longrightarrow> resolves R path \<Longrightarrow> resolves R exe \<Longrightarrow>
    opened_id f = to_abi (resolved_id R path) \<Longrightarrow> exe_id ctx = to_abi (resolved_id R exe) \<Longrightarrow>
    kernel_answer B e ctx f = (ret, sub) \<Longrightarrow>
    sys_step B env L K R fmt (Opened path exe ret sub) s
      (s\<lparr>sy_ring := sy_ring s @ (case sub of None \<Rightarrow> [] | Some ev \<Rightarrow> [ev])\<rparr>)"
| step_load: "from_json L t = Returns (Inr p) \<Longrightarrow>
    load_policy (linux_ops B env) R (Some p) (sy_controller s) = Some (r, c) \<Longrightarrow>
    sys_step B env L K R fmt (Loaded p r) s (s\<lparr>sy_controller := c\<rparr>)"
| step_poll: "sy_ring s = ev # rest \<Longrightarrow> poll_record fmt ev (sy_controller s) = Some c \<Longrightarrow>
    sys_step B env L K R fmt Polled s (s\<lparr>sy_controller := c, sy_ring := rest\<rparr>)"
| step_consume: "pop (ct_queue (sy_controller s)) = Some (Some ev, q) \<Longrightarrow>
    consume_one L K (sy_controller s) = Some (Returns True, c) \<Longrightarrow>
    sys_step B env L K R fmt (Consumed ev) s (s\<lparr>sy_controller := c\<rparr>)"


abbreviation sys_run ::
  "('p, 'r, 'c) bpf_sys \<Rightarrow> ('p, 'r, 'c) load_env \<Rightarrow> 'j json_lib \<Rightarrow> 'k client_ops \<Rightarrow> file_resolver \<Rightarrow>
     (int \<Rightarrow> string) \<Rightarrow> sys_label list \<Rightarrow> ('p, 'r, 'c, 'k) fg_system \<Rightarrow> ('p, 'r, 'c, 'k) fg_system \<Rightarrow> bool" where
  "sys_run B env L K R fmt \<equiv> runs (sys_step B env L K R fmt)"

section \<open>The reference monitor\<close>

text \<open>The policy in force, or none, with which everything passes. The monitor reads a policy as a
  closed allow-list of files and executables (\<open>file_allows\<close>), whatever its default action says.\<close>

definition monitor_allows :: "file_resolver \<Rightarrow> policy option \<Rightarrow> string \<Rightarrow> string \<Rightarrow> bool" where
  "monitor_allows R m path exe = (case m of None \<Rightarrow> True | Some p \<Rightarrow> file_allows R p path exe)"

text \<open>Where no two of the paths name one file, this is the engine's decision under the default DENY.\<close>

definition closed_world :: "policy \<Rightarrow> policy" where
  "closed_world p = p\<lparr>pol_default_action := Deny\<rparr>"

lemma monitor_allows_engine:
  assumes "policy_wf p" and "separates R p path exe"
  shows "monitor_allows R (Some p) path exe \<longleftrightarrow> dec_action (evaluate (closed_world p) \<lparr>req_resource_path = path,
    req_process = \<lparr>pid_type = ExePath, pid_value = exe\<rparr>, req_operation = Open\<rparr>) = Allow"
proof -
  have w: "policy_wf (closed_world p)" "separates R (closed_world p) path exe"
    using assms by (simp_all add: closed_world_def policy_wf_def separates_def policy_paths_def protected_paths_def)
  have "file_allows R (closed_world p) path exe = file_allows R p path exe"
    by (simp add: closed_world_def file_allows_def file_protected_def protected_paths_def file_rule_def)
  with file_decision_path(1) [OF w] show ?thesis by (simp add: monitor_allows_def closed_world_def)
qed

text \<open>What an event says of the open it belongs to.\<close>

definition event_tells :: "file_resolver \<Rightarrow> policy option \<Rightarrow> string \<Rightarrow> i32 \<Rightarrow> fileguard_event \<Rightarrow> bool" where
  "event_tells R m path ret ev \<longleftrightarrow> (\<exists>p. m = Some p \<and> file_protected R p path) \<and>
     ev_magic ev = FG_MAGIC \<and> action_of_code (ev_action ev) = (if ret = 0 then Allow else Deny)"

inductive monitor_step :: "file_resolver \<Rightarrow> sys_label \<Rightarrow> policy option \<Rightarrow> policy option \<Rightarrow> bool" for R where
  monitor_open: "ret = (if monitor_allows R m path exe then 0 else - EACCES) \<Longrightarrow>
    pred_option (event_tells R m path ret) sub \<Longrightarrow> monitor_step R (Opened path exe ret sub) m m"
| monitor_load: "monitor_step R (Loaded p (Inr ())) m (Some p)"
| monitor_reject: "monitor_step R (Loaded p (Inl e)) m m"
| monitor_disable: "monitor_step R (Loaded p (Inl e)) m None"
| monitor_poll: "monitor_step R Polled m m"
| monitor_consume: "monitor_step R (Consumed ev) m m"

abbreviation monitor_run :: "file_resolver \<Rightarrow> sys_label list \<Rightarrow> policy option \<Rightarrow> policy option \<Rightarrow> bool" where
  "monitor_run R \<equiv> runs (monitor_step R)"

text \<open>The controller enforces the monitor's policy.\<close>

definition enforces ::
  "('p, 'r, 'c) bpf_sys \<Rightarrow> file_resolver \<Rightarrow> policy option \<Rightarrow> (('p, 'r, 'c) linux_enforcer, 'k) controller \<Rightarrow> bool" where
  "enforces B R m c \<longleftrightarrow> (\<exists>e. ct_enforcer c = Some e \<and>
     (case m of
        None \<Rightarrow> \<not> le_skel e \<or> \<not> fg_enabled (view_of B (snapshot (le_maps e)))
      | Some p \<Rightarrow> le_skel e \<and> expressible p \<and>
          (\<exists>cp. compile R p = Inr cp \<and> view_of B (snapshot (le_maps e)) = installed_view cp)))"

section \<open>The system implements the monitor\<close>

text \<open>What a load does to the backend.\<close>

lemma load_policy_shape:
  assumes "load_policy ops R p c = Some (r, c')"
  shows "\<exists>e v pm. c' = c\<lparr>ct_enforcer := e, ct_resolver := v, ct_policy_manager := pm\<rparr>"
proof (cases r)
  case (Inl m)
  from load_policy_Inl [OF assms [unfolded Inl]] obtain e where "c' = c\<lparr>ct_enforcer := e\<rparr>" ..
  then show ?thesis
    by (intro exI [of _ e] exI [of _ "ct_resolver c"] exI [of _ "ct_policy_manager c"]) simp
next
  case (Inr u)
  with assms load_policy_Inr [of ops R p c c'] obtain pol cp c1 where
    "load_apply ops cp c = Some (Inr (), c1)"
    and c': "c' = (load_resolver pol cp c1)\<lparr>ct_policy_manager := (ct_policy_manager c1)\<lparr>pm_current := Some pol\<rparr>\<rparr>"
    by auto
  from load_apply_frame [OF this(1)] have "c1 = c\<lparr>ct_enforcer := ct_enforcer c1\<rparr>" .
  then obtain e where "c1 = c\<lparr>ct_enforcer := e\<rparr>" ..
  then show ?thesis unfolding c' load_resolver_def
    by (intro exI [of _ e] exI [of _ "Some (rebuild_resolver pol cp)"]
        exI [of _ "(ct_policy_manager c)\<lparr>pm_current := Some pol\<rparr>"]) simp
qed

lemma load_policy_backend:
  assumes "load_policy (linux_ops B env) R (Some p) c = Some (r, c')" and "ct_enforcer c = Some e"
  shows "r \<noteq> Inr () \<and> ct_enforcer c' = Some e \<or>
    (\<exists>cp e'. compile R p = Inr cp \<and> ct_enforcer c' = Some e' \<and> linux_apply_policy B e cp = Some (r, e')) \<or>
    (\<exists>cp e' m. compile R p = Inr cp \<and> ct_enforcer c' = Some e' \<and> r \<noteq> Inr () \<and> linux_apply_policy B e cp = Some (Inl m, e'))"
proof (cases "compile R p")
  case (Inl x)
  with assms show ?thesis by (auto simp: load_policy_def split: sum.splits)
next
  case (Inr cp)
  note v = compile_valid [OF this]
  from assms show ?thesis
    by (auto simp: load_policy_def Inr v load_apply_def linux_ops_def backend_ops_def load_install_valid load_resolver_def
        split: option.splits sum.splits)
qed

lemma enforces_load:
  assumes "bpf_laws B" and "expressible p" and "enforces B R m c"
    and "load_policy (linux_ops B env) R (Some p) c = Some (r, c')"
  shows "if r = Inr () then enforces B R (Some p) c' else enforces B R m c' \<or> enforces B R None c'"
proof -
  from assms(3) obtain e where e: "ct_enforcer c = Some e" by (auto simp: enforces_def)
  from load_policy_backend [OF assms(4) e] consider
      (kept) "r \<noteq> Inr ()" "ct_enforcer c' = Some e"
    | (ok) cp e' where "r = Inr ()" "compile R p = Inr cp" "ct_enforcer c' = Some e'"
        "linux_apply_policy B e cp = Some (Inr (), e')"
    | (failed) cp e' x where "r \<noteq> Inr ()" "ct_enforcer c' = Some e'" "linux_apply_policy B e cp = Some (Inl x, e')"
    by (cases r) auto
  then show ?thesis
  proof cases
    case kept
    with assms(3) e show ?thesis by (auto simp: enforces_def)
  next
    case ok
    with linux_apply_Inr [OF assms(1) ok(4)] assms(2) show ?thesis by (auto simp: enforces_def)
  next
    case failed
    show ?thesis
    proof (cases "le_skel e")
      case False
      with failed(3) have "e' = e" by (simp add: linux_apply_policy_def)
      with failed e assms(3) show ?thesis by (auto simp: enforces_def)
    next
      case True
      then have sk: "le_skel e'" using failed(3) by (auto simp: linux_apply_policy_def split: option.splits sum.splits)
      from linux_apply_outcome [OF assms(1) failed(3) True] consider
          (same) "view_of B (snapshot (le_maps e')) = view_of B (snapshot (le_maps e))"
        | (paused) "paused_run B (le_maps e) (le_maps e')"
        by (auto simp: install_outcome_def split: if_splits)
      then show ?thesis
      proof cases
        case same
        with failed e assms(3) sk True show ?thesis by (auto simp: enforces_def split: option.splits)
      next
        case paused
        then have "\<not> fg_enabled (view_of B (snapshot (le_maps e')))"
          by (simp add: paused_run_def fg_enabled_def view_of_def snapshot_def zero_config_def)
        with failed show ?thesis by (auto simp: enforces_def)
      qed
    qed
  qed
qed

text \<open>An open.\<close>

lemma fg_file_open_magic:
  assumes "snd (fg_file_open v ctx f) = Some ev"
  shows "ev_magic ev = FG_MAGIC"
  using assms fg_file_open_mediated [OF fg_file_open_event_mediated [OF assms], of ctx]
  by (auto simp: fg_decision_def split: option.splits if_splits)

lemma enforces_open:
  assumes "enforces B R m c" and "ct_enforcer c = Some e"
    and "resolves R path" and "resolves R exe"
    and "opened_id f = to_abi (resolved_id R path)" and "exe_id ctx = to_abi (resolved_id R exe)"
    and "kernel_answer B e ctx f = (ret, sub)"
  shows "ret = (if monitor_allows R m path exe then 0 else - EACCES) \<and> pred_option (event_tells R m path ret) sub"
proof (cases m)
  case None
  with assms(1,2,7) have "ret = 0 \<and> sub = None"
    by (auto simp: enforces_def kernel_answer_def fg_file_open_def split: if_splits)
  with None show ?thesis by (simp add: monitor_allows_def)
next
  case (Some p)
  with assms(1,2) obtain cp where cp: "compile R p = Inr cp" "le_skel e" "expressible p"
    "view_of B (snapshot (le_maps e)) = installed_view cp" by (auto simp: enforces_def)
  with assms(7) have run: "fg_file_open (installed_view cp) ctx f = (ret, sub)" by (simp add: kernel_answer_def)
  have "ret = (if monitor_allows R m path exe then 0 else - EACCES)"
    using installed_decision [OF cp(1,3) assms(3-6)] run by (simp add: monitor_allows_def Some)
  moreover have "event_tells R m path ret ev" if "sub = Some ev" for ev
  proof -
    from run that have ev: "snd (fg_file_open (installed_view cp) ctx f) = Some ev" by simp
    from submitted_event [OF cp(1,3) assms(3-6) ev] fg_file_open_magic [OF ev] run show ?thesis
      by (simp add: event_tells_def Some)
  qed
  ultimately show ?thesis by (cases sub) simp_all
qed

text \<open>The poller and the consumer leave the maps alone.\<close>

lemma ring_callback_frame:
  "le_maps (snd (ring_callback e ev sz)) = le_maps e \<and> le_skel (snd (ring_callback e ev sz)) = le_skel e \<and>
   le_cfg (snd (ring_callback e ev sz)) = le_cfg e"
  by (simp add: ring_callback_def split: option.splits)

lemma emit_event_shape: "emit_event fmt raw c = Some c' \<Longrightarrow> \<exists>q. c' = c\<lparr>ct_queue := q\<rparr>"
  by (auto simp: emit_event_def Let_def)

lemma poll_record_shape:
  assumes "poll_record fmt ev c = Some c'" and "ct_enforcer c = Some e"
  shows "\<exists>e' q. c' = c\<lparr>ct_enforcer := Some e', ct_queue := q\<rparr> \<and>
    le_maps e' = le_maps e \<and> le_skel e' = le_skel e \<and> le_cfg e' = le_cfg e"
proof -
  obtain r e' where cb: "ring_callback e (Some ev) sizeof_event = (r, e')" by (metis prod.exhaust)
  with ring_callback_frame [of e "Some ev" sizeof_event] have
    fr: "le_maps e' = le_maps e" "le_skel e' = le_skel e" "le_cfg e' = le_cfg e" by simp_all
  show ?thesis
  proof (cases r)
    case None
    with assms cb fr show ?thesis
      by (intro exI [of _ e'] exI [of _ "ct_queue c"]) (auto simp: poll_record_def)
  next
    case (Some raw)
    with assms cb have "emit_event fmt raw (c\<lparr>ct_enforcer := Some e'\<rparr>) = Some c'" by (simp add: poll_record_def)
    from emit_event_shape [OF this] fr show ?thesis by auto
  qed
qed

lemma consume_one_True:
  "consume_one L K c = Some (Returns True, c') \<Longrightarrow>
     \<exists>ev q ss ps st. pop (ct_queue c) = Some (Some ev, q) \<and> sinks_write L ev (ct_sinks c) = (ss, Returns ()) \<and>
       c' = c\<lparr>ct_queue := q, ct_sinks := ss, ct_clients := ps, ct_client_store := st\<rparr>"
  by (auto simp: consume_one_def split: option.splits outcome.splits prod.splits)

lemma monitor_simulation:
  assumes "bpf_laws B" and "sys_step B env L K R fmt l s s'"
    and "enforces B R m (sy_controller s)"
  shows "\<exists>m'. monitor_step R l m m' \<and> enforces B R m' (sy_controller s')"
  using assms(2)
proof cases
  case (step_open e path exe f ctx ret sub)
  from enforces_open [OF assms(3) step_open(3-8)]
  have "monitor_step R (Opened path exe ret sub) m m" by (blast intro: monitor_open)
  with assms(3) show ?thesis by (intro exI [of _ m]) (simp add: step_open(1,2))
next
  case (step_load t p r c)
  from enforces_load [OF assms(1) from_json_expressible [OF step_load(3)] assms(3) step_load(4)] show ?thesis
    by (cases r) (auto simp: step_load(1,2) intro: monitor_load monitor_reject monitor_disable)
next
  case (step_poll ev rest c)
  from assms(3) obtain e where "ct_enforcer (sy_controller s) = Some e" by (auto simp: enforces_def)
  from poll_record_shape [OF step_poll(4) this] this assms(3) show ?thesis
    by (intro exI [of _ m]) (auto simp: step_poll(1,2) enforces_def intro: monitor_poll split: option.splits)
next
  case (step_consume ev q c)
  from consume_one_True [OF step_consume(4)] assms(3) show ?thesis
    by (intro exI [of _ m]) (auto simp: step_consume(1,2) enforces_def intro: monitor_consume)
qed

interpretation system_monitor:
  simulation "sys_step B env L K R fmt" "monitor_step R" "\<lambda>l ms. ms = [l]"
    "\<lambda>m s. bpf_laws B \<and> enforces B R m (sy_controller s)" for B env L K R fmt
proof
  fix l s s' m
  assume "sys_step B env L K R fmt l s s'"
    and rel: "bpf_laws B \<and> enforces B R m (sy_controller s)"
  with monitor_simulation [of B env L K R fmt l s s' m] obtain m' where
    "monitor_step R l m m'" "enforces B R m' (sy_controller s')" by blast
  with rel show "\<exists>ms m'. ms = [l] \<and> monitor_run R ms m m' \<and> bpf_laws B \<and> enforces B R m' (sy_controller s')"
    by (intro exI [of _ "[l]"] exI [of _ m']) (simp add: runs_one)
qed

section \<open>No event is lost\<close>

text \<open>The part of an audit record that does not depend on the resolver in use when it is polled.\<close>

definition audit_core :: "security_event \<Rightarrow> security_event" where
  "audit_core e = e\<lparr>se_process_path := [], se_resource_path := []\<rparr>"

definition audit_of :: "(int \<Rightarrow> string) \<Rightarrow> i64 \<Rightarrow> fileguard_event \<Rightarrow> security_event" where
  "audit_of fmt offset ev = audit_core (enrich fmt offset None (decode_event ev))"

lemma audit_core_enrich: "audit_core (enrich fmt offset r (decode_event ev)) = audit_of fmt offset ev"
  by (simp add: audit_of_def audit_core_def enrich_def)

fun submitted :: "sys_label list \<Rightarrow> fileguard_event list" where
  "submitted [] = []"
| "submitted (Opened path exe ret (Some ev) # ls) = ev # submitted ls"
| "submitted (l # ls) = submitted ls"

fun written :: "sys_label list \<Rightarrow> security_event list" where
  "written [] = []"
| "written (Consumed ev # ls) = ev # written ls"
| "written (l # ls) = written ls"

lemma submitted_append: "submitted (ls @ ls') = submitted ls @ submitted ls'"
  by (induction ls rule: submitted.induct) simp_all

lemma written_append: "written (ls @ ls') = written ls @ written ls'"
  by (induction ls rule: written.induct) simp_all

text \<open>The pipeline runs: its records are well formed and nobody has asked it to stop.\<close>

definition pipeline_ok :: "('p, 'r, 'c, 'k) fg_system \<Rightarrow> bool" where
  "pipeline_ok s \<longleftrightarrow> q_inv (ct_queue (sy_controller s)) \<and> \<not> q_stop (ct_queue (sy_controller s)) \<and>
     (\<exists>e. ct_enforcer (sy_controller s) = Some e \<and> ec_on_event (le_cfg e)) \<and>
     (\<forall>ev \<in> set (sy_ring s). ev_magic ev = FG_MAGIC)"

text \<open>Everything that is on its way to the sinks, oldest first.\<close>

definition in_flight :: "(int \<Rightarrow> string) \<Rightarrow> ('p, 'r, 'c, 'k) fg_system \<Rightarrow> security_event list" where
  "in_flight fmt s = map audit_core (q_contents (ct_queue (sy_controller s))) @
     map (audit_of fmt (ct_boot_offset_ns (sy_controller s))) (sy_ring s)"

lemma linux_apply_cfg: "linux_apply_policy B e cp = Some (r, e') \<Longrightarrow> le_cfg e' = le_cfg e"
  by (auto simp: linux_apply_policy_def split: if_splits option.splits sum.splits prod.splits)

lemma poll_record_queues:
  assumes "poll_record fmt ev c = Some c'" and "ct_enforcer c = Some e" and "ec_on_event (le_cfg e)"
    and "ev_magic ev = FG_MAGIC" and "q_inv (ct_queue c)" and "\<not> q_stop (ct_queue c)"
  shows "\<exists>q. c' = c\<lparr>ct_queue := q\<rparr> \<and> q_inv q \<and> \<not> q_stop q \<and>
    map audit_core (q_contents q) = map audit_core (q_contents (ct_queue c)) @ [audit_of fmt (ct_boot_offset_ns c) ev]"
proof -
  have "ring_callback e (Some ev) sizeof_event = (Some (decode_event ev), e)"
    using assms(3,4) by (simp add: ring_callback_def)
  then have "emit_event fmt (decode_event ev) (c\<lparr>ct_enforcer := Some e\<rparr>) = Some c'"
    using assms(1,2) by (simp add: poll_record_def)
  moreover have same: "c\<lparr>ct_enforcer := Some e\<rparr> = c" using assms(2) by simp
  ultimately have "emit_event fmt (decode_event ev) c = Some c'" unfolding same by blast
  from emit_event_contents [OF this assms(5,6)] show ?thesis by (auto simp: audit_core_enrich)
qed

lemma pipeline_step:
  assumes "sys_step B env L K R fmt l s s'" and "pipeline_ok s"
  shows "pipeline_ok s' \<and>
    in_flight fmt s @ map (audit_of fmt (ct_boot_offset_ns (sy_controller s))) (submitted [l]) =
      map audit_core (written [l]) @ in_flight fmt s' \<and>
    sinks_write_all L (written [l]) (ct_sinks (sy_controller s)) = (ct_sinks (sy_controller s'), Returns ()) \<and>
    ct_boot_offset_ns (sy_controller s') = ct_boot_offset_ns (sy_controller s)"
  using assms(1)
proof cases
  case (step_open e path exe f ctx ret sub)
  have "ev_magic ev = FG_MAGIC" if "sub = Some ev" for ev
  proof -
    from that step_open(8) have "snd (fg_file_open (view_of B (snapshot (le_maps e))) ctx f) = Some ev"
      by (simp add: kernel_answer_def split: if_splits)
    then show ?thesis by (rule fg_file_open_magic)
  qed
  with assms(2) show ?thesis by (cases sub) (auto simp: step_open(1,2) pipeline_ok_def in_flight_def)
next
  case (step_load t p r c)
  from assms(2) obtain e where e: "ct_enforcer (sy_controller s) = Some e" "ec_on_event (le_cfg e)"
    by (auto simp: pipeline_ok_def)
  from load_policy_backend [OF step_load(4) e(1)] obtain e' where e': "ct_enforcer c = Some e'" "le_cfg e' = le_cfg e"
    using linux_apply_cfg by blast
  from load_policy_shape [OF step_load(4)] have
    "ct_queue c = ct_queue (sy_controller s)" "ct_sinks c = ct_sinks (sy_controller s)"
    "ct_boot_offset_ns c = ct_boot_offset_ns (sy_controller s)" by auto
  with assms(2) e e' show ?thesis by (simp add: step_load(1,2) pipeline_ok_def in_flight_def)
next
  case (step_poll ev rest c)
  from assms(2) obtain e where e: "ct_enforcer (sy_controller s) = Some e" "ec_on_event (le_cfg e)"
    by (auto simp: pipeline_ok_def)
  from poll_record_queues [OF step_poll(4) e] assms(2) step_poll(3) show ?thesis
    by (fastforce simp: step_poll(1,2) pipeline_ok_def in_flight_def)
next
  case (step_consume ev q c)
  from consume_one_True [OF step_consume(4)] step_consume(3) obtain ss ps st where
    w: "sinks_write L ev (ct_sinks (sy_controller s)) = (ss, Returns ())"
    and c: "c = (sy_controller s)\<lparr>ct_queue := q, ct_sinks := ss, ct_clients := ps, ct_client_store := st\<rparr>" by auto
  let ?q = "ct_queue (sy_controller s)"
  have inv: "q_inv ?q" "\<not> q_stop ?q" using assms(2) by (simp_all add: pipeline_ok_def)
  have ne: "\<not> q_empty ?q" and q: "q = q_drop ?q" and ev: "ev = q_slots ?q ! q_tail ?q"
    using step_consume(3) by (auto simp: pop_drop split: if_splits)
  from q_drop_contents [OF inv(1) ne] have "q_contents ?q = ev # q_contents q" by (simp add: q ev)
  moreover have "q_inv q" "\<not> q_stop q" using inv by (simp_all add: q q_drop_inv)
  ultimately show ?thesis using assms(2) w by (simp add: step_consume(1,2) c pipeline_ok_def in_flight_def)
qed

lemma sinks_write_all_append:
  "sinks_write_all L es ss = (ss', Returns ()) \<Longrightarrow> sinks_write_all L (es @ es') ss = sinks_write_all L es' ss'"
  by (induction es arbitrary: ss) (auto split: prod.splits outcome.splits)

lemma pipeline_run:
  assumes "sys_run B env L K R fmt ls s s'" and "pipeline_ok s"
  shows "pipeline_ok s' \<and>
    in_flight fmt s @ map (audit_of fmt (ct_boot_offset_ns (sy_controller s))) (submitted ls) =
      map audit_core (written ls) @ in_flight fmt s' \<and>
    sinks_write_all L (written ls) (ct_sinks (sy_controller s)) = (ct_sinks (sy_controller s'), Returns ()) \<and>
    ct_boot_offset_ns (sy_controller s') = ct_boot_offset_ns (sy_controller s)"
  using assms
proof induction
  case (runs_snoc ls s s' l s'')
  note ih = runs_snoc.IH [OF runs_snoc.prems]
  then have ok: "pipeline_ok s'" by blast
  let ?audit = "audit_of fmt (ct_boot_offset_ns (sy_controller s))"
  note st = pipeline_step [OF runs_snoc.hyps(2) ok]
  have "in_flight fmt s @ map ?audit (submitted (ls @ [l])) =
      (map audit_core (written ls) @ in_flight fmt s') @ map ?audit (submitted [l])"
    using ih by (simp add: submitted_append flip: append_assoc)
  also have "\<dots> = map audit_core (written (ls @ [l])) @ in_flight fmt s''"
    using ih st by (simp only: append_assoc written_append map_append)
  finally show ?case using ih st by (simp add: written_append sinks_write_all_append)
qed simp

section \<open>From the start\<close>

text \<open>The documentation of array maps: they start out zeroed.\<close>

definition zeroed_maps :: "('p, 'r, 'c) bpf_sys \<Rightarrow> ('p, 'r, 'c) load_env \<Rightarrow> bool" where
  "zeroed_maps B env \<longleftrightarrow> (\<forall>sizes. mo_lookup (bs_config B) (snd (snd (env_maps env sizes))) 0 = Some zero_config)"

lemma linux_load_new:
  assumes "linux_load B env (linux_new maps cfg) = (Inr (), e)" and "zeroed_maps B env"
  shows "le_skel e \<and> le_cfg e = cfg \<and> \<not> fg_enabled (view_of B (snapshot (le_maps e)))"
proof -
  obtain p r c where m: "env_maps env (load_sizes cfg) = (p, r, c)" by (metis prod.exhaust)
  with assms(2) have "mo_lookup (bs_config B) c 0 = Some zero_config"
    unfolding zeroed_maps_def by (metis snd_conv)
  with assms(1) m show ?thesis
    by (auto simp: linux_load_def linux_new_def Let_def fg_enabled_def view_of_def snapshot_def zero_config_def
        split: option.splits if_splits)
qed

lemma start_cases:
  assumes "start ops create L fs R c0 = Some (Returns (Inr ()), c)"
  shows "\<exists>e c1 c2. op_load ops (create ((cc_enforcer (ct_cfg c0))\<lparr>ec_on_event := True\<rparr>)) = (Inr (), e) \<and>
    ct_enforcer c1 = Some e \<and> ct_queue c1 = ct_queue c0 \<and>
    c = c2\<lparr>ct_ring_thread := True, ct_consumer_thread := True\<rparr> \<and>
    (if cc_policy_file (ct_cfg c0) = [] then c2 = c1
     else \<exists>p. from_file L fs (cc_policy_file (ct_cfg c0)) = Returns (Inr p) \<and>
       load_policy ops R (Some p) c1 = Some (Inr (), c2))"
proof -
  let ?cfg = "(ct_cfg c0)\<lparr>cc_enforcer := (cc_enforcer (ct_cfg c0))\<lparr>ec_on_event := True\<rparr>\<rparr>"
  obtain r e where ld: "op_load ops (create (cc_enforcer ?cfg)) = (r, e)" by fastforce
  let ?c1 = "c0\<lparr>ct_started := True, ct_cfg := ?cfg, ct_enforcer := Some e\<rparr>"
  have run: "r = Inr () \<and> (if cc_policy_file (ct_cfg c0) = []
      then c = ?c1\<lparr>ct_ring_thread := True, ct_consumer_thread := True\<rparr>
      else \<exists>p c2. from_file L fs (cc_policy_file (ct_cfg c0)) = Returns (Inr p) \<and>
        load_policy ops R (Some p) ?c1 = Some (Inr (), c2) \<and>
        c = c2\<lparr>ct_ring_thread := True, ct_consumer_thread := True\<rparr>)"
    using assms ld
    by (cases r) (auto simp: start_def Let_def split: outcome.splits sum.splits option.splits if_splits)
  show ?thesis
  proof (cases "cc_policy_file (ct_cfg c0) = []")
    case True
    with ld run show ?thesis by (intro exI [of _ e] exI [of _ ?c1]) simp
  next
    case False
    with run obtain p c2 where "from_file L fs (cc_policy_file (ct_cfg c0)) = Returns (Inr p)"
      "load_policy ops R (Some p) ?c1 = Some (Inr (), c2)"
      "c = c2\<lparr>ct_ring_thread := True, ct_consumer_thread := True\<rparr>" by auto
    with ld run False show ?thesis by (intro exI [of _ e] exI [of _ ?c1] exI [of _ c2]) simp
  qed
qed

section \<open>Properties\<close>

text \<open>The daemon starts into the monitored state: when \<open>start\<close> succeeds on a fresh controller with
  the Linux backend, the policy file's policy is in force (none when no file is configured, and
  then everything passes), the event pipeline is open and empty, and the monitor and the audit
  properties below apply to everything that follows.\<close>

lemma system_starts:
  assumes "bpf_laws B" and "zeroed_maps B env" and "controller_new logs offset store cfg = Returns c0"
    and "start (linux_ops B env) (linux_new maps) L fs R c0 = Some (Returns (Inr ()), c)"
  shows "\<exists>m. enforces B R m c \<and>
    (case m of None \<Rightarrow> cc_policy_file cfg = []
     | Some p \<Rightarrow> cc_policy_file cfg \<noteq> [] \<and> from_file L fs (cc_policy_file cfg) = Returns (Inr p)) \<and>
    pipeline_ok \<lparr>sy_controller = c, sy_ring = []\<rparr> \<and> in_flight fmt \<lparr>sy_controller = c, sy_ring = []\<rparr> = []"
proof -
  have cfg: "ct_cfg c0 = cfg"
    using assms(3) by (auto simp: controller_new_def obind_eq_Returns Let_def)
  obtain q where q: "spsc_new empty_event (cc_event_queue_capacity cfg) = Returns q" "ct_queue c0 = q"
    using assms(3) by (auto simp: controller_new_def obind_eq_Returns Let_def)
  from start_cases [OF assms(4)] cfg obtain e c1 c2 where
    ld: "linux_load B env (linux_new maps ((cc_enforcer cfg)\<lparr>ec_on_event := True\<rparr>)) = (Inr (), e)"
    and c1: "ct_enforcer c1 = Some e" "ct_queue c1 = q"
    and c: "c = c2\<lparr>ct_ring_thread := True, ct_consumer_thread := True\<rparr>"
    and c2: "if cc_policy_file cfg = [] then c2 = c1
       else \<exists>p. from_file L fs (cc_policy_file cfg) = Returns (Inr p) \<and> load_policy (linux_ops B env) R (Some p) c1 = Some (Inr (), c2)"
    by (auto simp: linux_ops_def backend_ops_def q(2))
  note e = linux_load_new [OF ld assms(2)]
  then have off: "enforces B R None c1" using c1(1) by (simp add: enforces_def)
  have on: "pipeline_ok \<lparr>sy_controller = d, sy_ring = []\<rparr> \<and> in_flight fmt \<lparr>sy_controller = d, sy_ring = []\<rparr> = []"
    if "ct_queue d = q" "ct_enforcer d = Some e'" "le_cfg e' = le_cfg e" for d and e' :: "('a, 'b, 'c) linux_enforcer"
    using that e spsc_new_inv [OF q(1)] by (auto simp: pipeline_ok_def in_flight_def)
  have same: "enforces B R m c = enforces B R m c2" for m by (simp add: c enforces_def)
  show ?thesis
  proof (cases "cc_policy_file cfg = []")
    case True
    with c2 have "c2 = c1" by simp
    with off True on [of c e] c1 show ?thesis by (intro exI [of _ None]) (simp add: same, simp add: c)
  next
    case False
    with c2 obtain p where p: "from_file L fs (cc_policy_file cfg) = Returns (Inr p)"
      "load_policy (linux_ops B env) R (Some p) c1 = Some (Inr (), c2)" by auto
    from p(1) obtain t where "from_json L t = Returns (Inr p)" by (auto simp: from_file_def split: option.splits if_splits)
    from enforces_load [OF assms(1) from_json_expressible [OF this] off p(2)] have "enforces B R (Some p) c2" by simp
    moreover obtain e' where "ct_enforcer c2 = Some e'" "le_cfg e' = le_cfg e"
      using load_policy_backend [OF p(2) c1(1)] linux_apply_cfg by blast
    moreover have "ct_queue c2 = q" using load_policy_frame [OF p(2)] c1(2) by simp
    ultimately show ?thesis using p(1) False on [of c e'] by (intro exI [of _ "Some p"]) (simp add: same, simp add: c)
  qed
qed

definition boot_config :: controller_config where
  "boot_config = default_controller_config\<lparr>cc_event_queue_capacity := 4, cc_policy_file := ''p''\<rparr>"


text \<open>C12. The running system is a reference monitor, for any path resolution: along every run of opens,
  loads, polls and consumer steps, each open is answered by the policy in force read for files (0
  when the opened file is not protected, when the first rule that names the file and the executable
  says ALLOW, or when no policy is in force, and \<open>-EACCES\<close> otherwise), each submitted event is about a
  protected file and tells the answer given; a successful load puts exactly its policy in force, and
  a failed one keeps the policy or leaves none. By \<open>monitor_allows_engine\<close> this is the engine's
  decision on the paths wherever no two of the paths name one file.\<close>

theorem monitor_refines:
  assumes "bpf_laws B" and "sys_run B env L K R fmt ls s s'"
    and "enforces B R m (sy_controller s)"
  shows "\<exists>m'. monitor_run R ls m m' \<and> enforces B R m' (sy_controller s')"
proof -
  from system_monitor.runs_followed [OF assms(2), of m] assms(1,3) obtain mss m' where
    t: "list_all2 (\<lambda>l ms. ms = [l]) ls mss" and m': "monitor_run R (concat mss) m m'" "enforces B R m' (sy_controller s')"
    by blast
  from t have "concat mss = ls" by (induction rule: list_all2_induct) simp_all
  with m' show ?thesis by blast
qed

text \<open>Opens while a load is under way: a run of the hook that reads the maps at one moment, at any
  moment of a load, denies only what the policy in force before the load or the loaded policy
  denies. (A run that reads them at several moments may deny more.)\<close>

theorem load_window_answers:
  assumes "bpf_laws B" and "enforces B R m c" and "expressible p"
    and "load_policy (linux_ops B env) R (Some p) c = Some (r, c')"
    and "ct_enforcer c = Some e" and "ct_enforcer c' = Some e'"
    and "km_log (le_maps e') = km_log (le_maps e) @ w" and "x \<in> set w"
    and "resolves R path" and "resolves R exe"
    and "opened_id f = to_abi (resolved_id R path)" and "exe_id ctx = to_abi (resolved_id R exe)"
  shows "fst (fg_file_open (view_of B x) ctx f) = 0 \<or>
    fst (fg_file_open (view_of B x) ctx f) = - EACCES \<and>
      (\<not> monitor_allows R m path exe \<or> \<not> monitor_allows R (Some p) path exe)"
proof -
  have log: "km_log (le_maps e') \<noteq> km_log (le_maps e)" using assms(7,8) by auto
  from load_policy_backend [OF assms(4,5)] assms(6) log obtain cp ar where
    cp: "compile R p = Inr cp" and ap: "linux_apply_policy B e cp = Some (ar, e')" by auto
  with log have sk: "le_skel e" by (auto simp: linux_apply_policy_def split: if_splits)
  note open_ids = assms(9-12)
  have answered: "fst (fg_file_open (view_of B x) ctx f) = (if monitor_allows R m1 path exe then 0 else - EACCES)"
    if "enforces B R m1 c1" "ct_enforcer c1 = Some e1" "le_skel e1" "view_of B x = view_of B (snapshot (le_maps e1))"
    for m1 e1 and c1 :: "(('a, 'b, 'c) linux_enforcer, 'd) controller"
    using enforces_open [OF that(1,2) open_ids, of "fst (fg_file_open (view_of B x) ctx f)"
      "snd (fg_file_open (view_of B x) ctx f)"] that(3,4) by (simp add: kernel_answer_def)
  have passes: "fst (fg_file_open (view_of B x) ctx f) = 0"
    if "mo_lookup (bs_config B) (snd (snd x)) 0 = Some zero_config"
    using that disabled_passes [of B x ctx f] by simp
  from linux_apply_outcome [OF assms(1) ap sk] show ?thesis
  proof (cases "pause_fails B (le_maps e)")
    case True
    with linux_apply_outcome [OF assms(1) ap sk] assms(7,8) have
      "view_of B x = view_of B (snapshot (le_maps e))" by (auto simp: install_outcome_def)
    from answered [OF assms(2,5) sk this] show ?thesis by simp
  next
    case False
    note out = linux_apply_outcome [OF assms(1) ap sk]
    show ?thesis
    proof (cases "ar = Inr ()")
      case True
      with out False assms(7,8) have "view_of B (snapshot (le_maps e')) = installed_view cp"
        and x: "x = snapshot (le_maps e') \<or> mo_lookup (bs_config B) (snd (snd x)) 0 = Some zero_config"
        by (auto simp: install_outcome_def)
      with linux_apply_Inr [OF assms(1)] ap True cp assms(3,6) have
        "enforces B R (Some p) c'" "le_skel e'" by (auto simp: enforces_def)
      from answered [OF this(1) assms(6) this(2)] x passes show ?thesis by auto
    next
      case ar: False
      with out False assms(7,8) have "mo_lookup (bs_config B) (snd (snd x)) 0 = Some zero_config"
        by (auto simp: install_outcome_def paused_run_def)
      with passes show ?thesis by blast
    qed
  qed
qed

definition small_lib :: "demo_json json_lib" where
  "small_lib = demo_json_lib [(''{}'', policy_json (demo_json_lib []) small_policy)]"

lemma small_lib_parses: "from_json small_lib ''{}'' = Returns (Inr small_policy)"
proof (rule from_json_policy_json)
  show "json_laws small_lib"
    using demo_json_laws [of "[(''{}'', policy_json (demo_json_lib []) small_policy)]"]
    by (simp add: small_lib_def demo_table_ok_def)
  show "expressible small_policy"
    using sample_expressible
    by (simp add: small_policy_def expressible_def policy_wf_def protected_paths_def)
  show "jl_parse small_lib ''{}'' = Inr (policy_json small_lib small_policy)"
    by (simp add: small_lib_def demo_json_lib_def policy_json_def resource_json_def rule_json_def
        operation_json_def small_policy_def sample_policy_def)
qed

text \<open>The backend right after it is loaded: the maps are empty, the config is zero.\<close>

definition fresh_enforcer :: "((fileguard_file_id \<times> fileguard_protected_val) list,
    (fileguard_rule_key \<times> fileguard_rule_val) list, fileguard_config) linux_enforcer" where
  "fresh_enforcer = demo_enforcer\<lparr>le_maps :=
     \<lparr>km_protected = [], km_rules = [], km_config = demo_conf 0 0, km_log = []\<rparr>\<rparr>"

definition fresh_system :: "((fileguard_file_id \<times> fileguard_protected_val) list,
    (fileguard_rule_key \<times> fileguard_rule_val) list, fileguard_config, unit) fg_system" where
  "fresh_system = \<lparr>sy_controller = controller_with fresh_enforcer, sy_ring = []\<rparr>"

lemma fresh_enforces: "enforces demo_sys R None (sy_controller fresh_system)"
  by (simp add: enforces_def fresh_system_def fresh_enforcer_def controller_with_def fg_enabled_def view_of_def
      snapshot_def demo_sys_def demo_conf_def)

lemma fresh_apply: "\<exists>e. linux_apply_policy demo_sys fresh_enforcer (demo_compiled 300) = Some (Inr (), e)"
  by (simp add: linux_apply_policy_def fresh_enforcer_def install_maps_def demo_defs demo_sys_def set_config_def
    clear_protected_def clear_rules_def clear_map_def clear_loop.simps alist_ops_def alist_next_def
    alist_update_def Let_def to_abi_def demo_fid_def ENOENT_def zero_config_def rule_key_def rule_val_def)

lemma fresh_load:
  "\<exists>c e. load_policy (linux_ops demo_sys demo_env) demo_resolver (Some small_policy) (sy_controller fresh_system) =
     Some (Inr (), c) \<and> ct_enforcer c = Some e"
  using fresh_apply
  by (auto simp: fresh_system_def load_policy_def small_policy_compiles small_policy_valid load_apply_def
      controller_with_def linux_ops_def backend_ops_def load_install_valid load_resolver_def)

theorem monitor_refines_witness:
  "\<exists>ret sub s'. let ls = [Loaded small_policy (Inr ()),
        Opened ''/protected/secret.txt'' ''/usr/local/bin/backup-agent'' ret sub]
   in sys_run demo_sys demo_env small_lib no_clients demo_resolver demo_time ls fresh_system s' \<and>
     (\<exists>m'. monitor_run demo_resolver ls None m' \<and> enforces demo_sys demo_resolver m' (sy_controller s'))"
proof -
  let ?step = "sys_step demo_sys demo_env small_lib no_clients demo_resolver demo_time"
  let ?run = "sys_run demo_sys demo_env small_lib no_clients demo_resolver demo_time"
  from fresh_load obtain c e where
    c: "load_policy (linux_ops demo_sys demo_env) demo_resolver (Some small_policy) (sy_controller fresh_system) =
      Some (Inr (), c)" "ct_enforcer c = Some e" by blast
  let ?s1 = "fresh_system\<lparr>sy_controller := c\<rparr>"
  have "?step (Loaded small_policy (Inr ())) fresh_system ?s1" by (rule step_load [OF small_lib_parses c(1)])
  from runs_one [of ?step, OF this] have r1: "?run [Loaded small_policy (Inr ())] fresh_system ?s1" by simp
  obtain ret sub where a: "kernel_answer demo_sys e (demo_ctx 300 0) (demo_file 100) = (ret, sub)" by fastforce
  have "resolves demo_resolver ''/protected/secret.txt''" "resolves demo_resolver ''/usr/local/bin/backup-agent''"
    "opened_id (demo_file 100) = to_abi (resolved_id demo_resolver ''/protected/secret.txt'')"
    "exe_id (demo_ctx 300 0) = to_abi (resolved_id demo_resolver ''/usr/local/bin/backup-agent'')"
    by (simp_all add: resolves_def file_id_valid_def demo_file_id demo_exe_id resolved_id_def demo_resolver_def
        to_abi_def demo_fid_def)
  from runs_snoc [where step = ?step, OF r1 step_open [OF _ this a]] c(2) obtain s2 where
    "?run [Loaded small_policy (Inr ()), Opened ''/protected/secret.txt'' ''/usr/local/bin/backup-agent'' ret sub] fresh_system s2"
    by auto
  with monitor_refines [OF demo_sys_laws this fresh_enforces] show ?thesis
    unfolding Let_def by blast
qed

text \<open>C13. Complete mediation log: along every run, the events written to the sinks, followed by those
  in the queue and those in the ring buffer, are exactly the submitted events in order, each
  enriched (up to the two paths, which depend on the resolver at polling time); and the sinks hold
  exactly what writing these events gives. No load and no interleaving loses, repeats or reorders
  an audit record.\<close>

theorem audit_complete:
  assumes "sys_run B env L K R fmt ls s s'" and "pipeline_ok s" and "in_flight fmt s = []"
  shows "map audit_core (written ls) @ in_flight fmt s' =
      map (audit_of fmt (ct_boot_offset_ns (sy_controller s))) (submitted ls) \<and>
    sinks_write_all L (written ls) (ct_sinks (sy_controller s)) = (ct_sinks (sy_controller s'), Returns ())"
  using pipeline_run [OF assms(1,2)] assms(3) by simp

theorem audit_complete_witness:
  "\<exists>ev ret sub s'. let ls = [Opened ''/protected/secret.txt'' ''/usr/local/bin/backup-agent'' ret (Some sub), Polled, Consumed ev];
       s = \<lparr>sy_controller = controller_with demo_enforcer, sy_ring = []\<rparr>
   in sys_run demo_sys demo_env log_lib no_clients demo_resolver demo_time ls s s' \<and>
     audit_core ev = audit_of demo_time 0 sub \<and>
     sinks_write_all log_lib [ev] [Console_sink console_new] = (ct_sinks (sy_controller s'), Returns ())"
proof -
  let ?step = "sys_step demo_sys demo_env log_lib no_clients demo_resolver demo_time"
  let ?run = "sys_run demo_sys demo_env log_lib no_clients demo_resolver demo_time"
  let ?s = "\<lparr>sy_controller = controller_with demo_enforcer, sy_ring = []\<rparr>"
  obtain ret sub0 where a: "kernel_answer demo_sys demo_enforcer (demo_ctx 300 0) (demo_file 100) = (ret, sub0)"
    by fastforce
  have "mediated (view_of demo_sys (snapshot (le_maps demo_enforcer))) (demo_file 100)"
    by (simp add: mediated_def fg_enabled_def demo_file_id)
       (simp add: view_of_def snapshot_def demo_sys_def demo_defs alist_ops_def demo_fid_def)
  from fg_file_open_mediated [OF this, of "demo_ctx 300 0"] a obtain sub where sub0: "sub0 = Some sub"
    by (auto simp: kernel_answer_def demo_enforcer_def fg_decision_def demo_ctx_def split: if_splits option.splits)
  from a have "snd (fg_file_open (view_of demo_sys (snapshot (le_maps demo_enforcer))) (demo_ctx 300 0) (demo_file 100)) = Some sub"
    by (simp add: kernel_answer_def sub0 demo_enforcer_def)
  note magic = fg_file_open_magic [OF this]
  have "resolves demo_resolver ''/protected/secret.txt''" "resolves demo_resolver ''/usr/local/bin/backup-agent''"
    "opened_id (demo_file 100) = to_abi (resolved_id demo_resolver ''/protected/secret.txt'')"
    "exe_id (demo_ctx 300 0) = to_abi (resolved_id demo_resolver ''/usr/local/bin/backup-agent'')"
    by (simp_all add: resolves_def file_id_valid_def demo_file_id demo_exe_id resolved_id_def demo_resolver_def
        to_abi_def demo_fid_def)
  from step_open [OF _ this a, of ?s demo_env log_lib no_clients demo_time]
  have "?step (Opened ''/protected/secret.txt'' ''/usr/local/bin/backup-agent'' ret (Some sub)) ?s (?s\<lparr>sy_ring := [sub]\<rparr>)"
    by (simp add: sub0 controller_with_def)
  from runs_one [of ?step, OF this]
  have r1: "?run [Opened ''/protected/secret.txt'' ''/usr/local/bin/backup-agent'' ret (Some sub)] ?s (?s\<lparr>sy_ring := [sub]\<rparr>)"
    by simp
  let ?ev = "enrich demo_time 0 None (decode_event sub)"
  let ?c1 = "(controller_with demo_enforcer)\<lparr>ct_queue := \<lparr>q_slots = [?ev, empty_event, empty_event], q_head = 1, q_tail = 0, q_stop = False\<rparr>\<rparr>"
  have "poll_record demo_time sub (controller_with demo_enforcer) = Some ?c1"
    using magic by (simp add: poll_record_def controller_with_def ring_callback_def demo_enforcer_def emit_event_def
        Let_def push_def q_full_def q_next_def)
  then have "?step Polled (?s\<lparr>sy_ring := [sub]\<rparr>) (?s\<lparr>sy_ring := [sub], sy_controller := ?c1, sy_ring := []\<rparr>)"
    by (intro step_poll) simp_all
  from runs_snoc [where step = ?step, OF r1 this] have r2: "?run [Opened ''/protected/secret.txt'' ''/usr/local/bin/backup-agent'' ret (Some sub), Polled]
      ?s (?s\<lparr>sy_controller := ?c1\<rparr>)" by simp
  obtain c2 where c2: "consume_one log_lib no_clients ?c1 = Some (Returns True, c2)"
    by (simp add: consume_one_def controller_with_def pop_def q_empty_def)
  have "pop (ct_queue ?c1) = Some (Some ?ev, (ct_queue ?c1)\<lparr>q_tail := 1\<rparr>)"
    by (simp add: pop_def q_empty_def q_next_def)
  with c2 have "?step (Consumed ?ev) (?s\<lparr>sy_controller := ?c1\<rparr>) (?s\<lparr>sy_controller := ?c1, sy_controller := c2\<rparr>)"
    by (intro step_consume) simp_all
  from runs_snoc [where step = ?step, OF r2 this] have r3: "?run [Opened ''/protected/secret.txt'' ''/usr/local/bin/backup-agent'' ret (Some sub), Polled, Consumed ?ev]
      ?s (?s\<lparr>sy_controller := c2\<rparr>)" by simp
  have "pipeline_ok ?s" "in_flight demo_time ?s = []"
    by (simp_all add: pipeline_ok_def in_flight_def controller_with_def demo_enforcer_def q_inv_def q_contents_def q_count_def)
  from audit_complete [OF r3 this] r3 show ?thesis
    unfolding Let_def
    by (intro exI [of _ ?ev] exI [of _ ret] exI [of _ sub] exI [of _ "?s\<lparr>sy_controller := c2\<rparr>"])
       (simp add: audit_core_enrich controller_with_def)
qed

end
