(* ===== verification/Load_Concurrency.thy ===== *)
theory Load_Concurrency
  imports Apply_Steps System
begin

text \<open>
  Any number of threads in \<open>Controller::load_policy\<close> at once, as the daemon's connection threads
  can be: a thread is a program counter, the backend's mutex \<open>state_mu_\<close> an owner, and each libbpf
  call of the owner is a step of its own (\<open>Apply_Steps\<close>). Opens, the poller, the consumer, status
  requests and the shutdown's \<open>detach\<close> come in between. The specification has \<open>apply_policy\<close> as one
  step and no mutex.
\<close>

section \<open>Threads\<close>

datatype load_pc =
    Idle
  | Entered policy
  | Waiting policy compiled_policy \<comment> \<open>for \<open>state_mu_\<close>\<close>
  | Applying policy compiled_policy apply_pc \<comment> \<open>holds \<open>state_mu_\<close>\<close>
  | Applied policy compiled_policy \<comment> \<open>the kernel has it; the resolver is next\<close>
  | Swapped policy \<comment> \<open>\<open>policy_manager_.install\<close> is next\<close>
  | Failed string

record ('p, 'r, 'c, 'k) conc =
  cs_system :: "('p, 'r, 'c, 'k) fg_system"
  cs_holder :: "nat option" \<comment> \<open>the thread that owns \<open>state_mu_\<close>\<close>
  cs_threads :: "nat \<Rightarrow> load_pc"

abbreviation cs_controller :: "('p, 'r, 'c, 'k) conc \<Rightarrow> (('p, 'r, 'c) linux_enforcer, 'k) controller" where
  "cs_controller s \<equiv> sy_controller (cs_system s)"

abbreviation cs_enforcer :: "('p, 'r, 'c, 'k) conc \<Rightarrow> ('p, 'r, 'c) linux_enforcer option" where
  "cs_enforcer s \<equiv> ct_enforcer (cs_controller s)"

datatype conc_label =
    Called nat policy
  | Prepared nat policy compiled_policy
  | Rejected nat string
  | Locked nat
  | Map_Call nat policy apply_pc
  | Unlocked nat policy "unit result"
  | Resolver_Swapped nat policy
  | Load_Returned nat "unit result"
  | System_Step sys_label
  | Status_Read enforcer_status
  | Detached

definition set_thread :: "nat \<Rightarrow> load_pc \<Rightarrow> ('p, 'r, 'c, 'k) conc \<Rightarrow> ('p, 'r, 'c, 'k) conc" where
  "set_thread t pc s = s\<lparr>cs_threads := (cs_threads s)(t := pc)\<rparr>"

definition set_controller ::
  "(('p, 'r, 'c) linux_enforcer, 'k) controller \<Rightarrow> ('p, 'r, 'c, 'k) conc \<Rightarrow> ('p, 'r, 'c, 'k) conc" where
  "set_controller c s = s\<lparr>cs_system := (cs_system s)\<lparr>sy_controller := c\<rparr>\<rparr>"

definition set_enforcer ::
  "('p, 'r, 'c) linux_enforcer \<Rightarrow> ('p, 'r, 'c, 'k) conc \<Rightarrow> ('p, 'r, 'c, 'k) conc" where
  "set_enforcer e s = set_controller ((cs_controller s)\<lparr>ct_enforcer := Some e\<rparr>) s"

definition set_holder :: "nat option \<Rightarrow> ('p, 'r, 'c, 'k) conc \<Rightarrow> ('p, 'r, 'c, 'k) conc" where
  "set_holder h s = s\<lparr>cs_holder := h\<rparr>"

lemmas conc_sets = set_thread_def set_controller_def set_enforcer_def set_holder_def

lemma conc_set_simps [simp]:
  "cs_threads (set_thread t pc s) = (cs_threads s)(t := pc)" "cs_system (set_thread t pc s) = cs_system s"
  "cs_holder (set_thread t pc s) = cs_holder s"
  "cs_threads (set_controller c s) = cs_threads s" "cs_holder (set_controller c s) = cs_holder s"
  "sy_controller (cs_system (set_controller c s)) = c" "sy_ring (cs_system (set_controller c s)) = sy_ring (cs_system s)"
  "cs_threads (set_enforcer e s) = cs_threads s" "cs_holder (set_enforcer e s) = cs_holder s"
  "sy_controller (cs_system (set_enforcer e s)) = (cs_controller s)\<lparr>ct_enforcer := Some e\<rparr>"
  "sy_ring (cs_system (set_enforcer e s)) = sy_ring (cs_system s)"
  "cs_threads (set_holder h s) = cs_threads s" "cs_system (set_holder h s) = cs_system s" "cs_holder (set_holder h s) = h"
  by (simp_all add: conc_sets)

text \<open>Where a thread goes when \<open>apply_policy\<close> returns.\<close>

fun after_apply :: "policy \<Rightarrow> compiled_policy \<Rightarrow> unit result \<Rightarrow> load_pc" where
  "after_apply p cp (Inr u) = Applied p cp"
| "after_apply p cp (Inl e) = Failed (''kernel policy install failed: '' @ e)"

section \<open>The steps outside \<open>apply_policy\<close>\<close>

text \<open>
  \<open>load_policy\<close> up to the kernel install and after it, the poller, the consumer, status requests
  and \<open>detach\<close>. A record with a bad magic, \<open>status\<close> and \<open>detach\<close> need the mutex for one step.
\<close>

inductive free_step ::
  "('p, 'r, 'c) bpf_sys \<Rightarrow> ('p, 'r, 'c) load_env \<Rightarrow> 'j json_lib \<Rightarrow> 'k client_ops \<Rightarrow> file_resolver \<Rightarrow>
     (int \<Rightarrow> string) \<Rightarrow> conc_label \<Rightarrow> ('p, 'r, 'c, 'k) conc \<Rightarrow> ('p, 'r, 'c, 'k) conc \<Rightarrow> bool"
  for B env L K R fmt where
  free_call: "cs_threads s t = Idle \<Longrightarrow> from_json L d = Returns (Inr p) \<Longrightarrow>
    free_step B env L K R fmt (Called t p) s (set_thread t (Entered p) s)"
| free_invalid: "cs_threads s t = Entered p \<Longrightarrow> validate p = Inl e \<Longrightarrow>
    free_step B env L K R fmt (Rejected t e) s (set_thread t (Failed e) s)"
| free_uncompilable: "cs_threads s t = Entered p \<Longrightarrow> validate p = Inr () \<Longrightarrow> compile R p = Inl e \<Longrightarrow>
    free_step B env L K R fmt (Rejected t e) s (set_thread t (Failed e) s)"
| free_prepare: "cs_threads s t = Entered p \<Longrightarrow> validate p = Inr () \<Longrightarrow> compile R p = Inr cp \<Longrightarrow>
    free_step B env L K R fmt (Prepared t p cp) s (set_thread t (Waiting p cp) s)"
| free_no_backend: "cs_threads s t = Waiting p cp \<Longrightarrow> cs_enforcer s = None \<Longrightarrow>
    free_step B env L K R fmt (Unlocked t p (Inr ())) s (set_thread t (Applied p cp) s)"
| free_resolver: "cs_threads s t = Applied p cp \<Longrightarrow>
    free_step B env L K R fmt (Resolver_Swapped t p) s
      (set_thread t (Swapped p) (set_controller (load_resolver p cp (cs_controller s)) s))"
| free_install: "cs_threads s t = Swapped p \<Longrightarrow> load_install p (cs_controller s) = (r, c) \<Longrightarrow>
    free_step B env L K R fmt (Load_Returned t r) s (set_thread t Idle (set_controller c s))"
| free_error: "cs_threads s t = Failed e \<Longrightarrow>
    free_step B env L K R fmt (Load_Returned t (Inl e)) s (set_thread t Idle s)"
| free_poll: "sy_ring (cs_system s) = ev # rest \<Longrightarrow> ev_magic ev = FG_MAGIC \<or> cs_holder s = None \<Longrightarrow>
    sys_step B env L K R fmt Polled (cs_system s) y \<Longrightarrow>
    free_step B env L K R fmt (System_Step Polled) s (s\<lparr>cs_system := y\<rparr>)"
| free_consume: "sys_step B env L K R fmt (Consumed se) (cs_system s) y \<Longrightarrow>
    free_step B env L K R fmt (System_Step (Consumed se)) s (s\<lparr>cs_system := y\<rparr>)"
| free_status: "cs_holder s = None \<Longrightarrow>
    free_step B env L K R fmt (Status_Read (controller_status (linux_ops B env) (cs_controller s))) s s"
| free_detach: "cs_holder s = None \<Longrightarrow> cs_enforcer s = Some e \<Longrightarrow> linux_detach e = (r, e') \<Longrightarrow>
    free_step B env L K R fmt Detached s (set_enforcer e' s)"

section \<open>The implementation: one libbpf call at a time under the mutex\<close>

inductive conc_step ::
  "('p, 'r, 'c) bpf_sys \<Rightarrow> ('p, 'r, 'c) load_env \<Rightarrow> 'j json_lib \<Rightarrow> 'k client_ops \<Rightarrow> file_resolver \<Rightarrow>
     (int \<Rightarrow> string) \<Rightarrow> conc_label \<Rightarrow> ('p, 'r, 'c, 'k) conc \<Rightarrow> ('p, 'r, 'c, 'k) conc \<Rightarrow> bool"
  for B env L K R fmt where
  conc_free: "free_step B env L K R fmt l s s' \<Longrightarrow> conc_step B env L K R fmt l s s'"
| conc_open: "sys_step B env L K R fmt (Opened path exe ret sub) (cs_system s) y \<Longrightarrow>
    conc_step B env L K R fmt (System_Step (Opened path exe ret sub)) s (s\<lparr>cs_system := y\<rparr>)"
| conc_lock: "cs_threads s t = Waiting p cp \<Longrightarrow> cs_enforcer s = Some e \<Longrightarrow> cs_holder s = None \<Longrightarrow>
    conc_step B env L K R fmt (Locked t) s (set_holder (Some t) (set_thread t (Applying p cp At_Entry) s))"
| conc_map: "cs_threads s t = Applying p cp pc \<Longrightarrow> \<forall>r. pc \<noteq> Returned r \<Longrightarrow> cs_enforcer s = Some e \<Longrightarrow>
    apply_step B cp (pc, e) = (pc', e') \<Longrightarrow>
    conc_step B env L K R fmt (Map_Call t p pc) s (set_thread t (Applying p cp pc') (set_enforcer e' s))"
| conc_unlock: "cs_threads s t = Applying p cp (Returned r) \<Longrightarrow>
    conc_step B env L K R fmt (Unlocked t p r) s (set_holder None (set_thread t (after_apply p cp r) s))"

section \<open>The specification: the install is one step\<close>

text \<open>An open that falls into a load may be answered by the maps before it, by paused maps, or
  by those of the policy being loaded.\<close>

definition answer_on ::
  "kview \<Rightarrow> ('p, 'r, 'c) linux_enforcer \<Rightarrow> open_ctx \<Rightarrow> kfile \<Rightarrow> i32 \<times> fileguard_event option" where
  "answer_on v e ctx f = (if le_skel e then fg_file_open v ctx f else (0, None))"

inductive atomic_step ::
  "('p, 'r, 'c) bpf_sys \<Rightarrow> ('p, 'r, 'c) load_env \<Rightarrow> 'j json_lib \<Rightarrow> 'k client_ops \<Rightarrow> file_resolver \<Rightarrow>
     (int \<Rightarrow> string) \<Rightarrow> conc_label \<Rightarrow> ('p, 'r, 'c, 'k) conc \<Rightarrow> ('p, 'r, 'c, 'k) conc \<Rightarrow> bool"
  for B env L K R fmt where
  atomic_free: "free_step B env L K R fmt l s s' \<Longrightarrow> atomic_step B env L K R fmt l s s'"
| atomic_open: "cs_enforcer s = Some e \<Longrightarrow> resolves R path \<Longrightarrow> resolves R exe \<Longrightarrow>
    opened_id f = to_abi (resolved_id R path) \<Longrightarrow> exe_id ctx = to_abi (resolved_id R exe) \<Longrightarrow>
    v = maps_view B e \<or> (\<exists>t p cp. cs_threads s t = Waiting p cp \<and> (paused v \<or> v = installed_view cp)) \<Longrightarrow>
    answer_on v e ctx f = (ret, sub) \<Longrightarrow>
    atomic_step B env L K R fmt (System_Step (Opened path exe ret sub)) s
      (s\<lparr>cs_system := (cs_system s)\<lparr>sy_ring := sy_ring (cs_system s) @ (case sub of None \<Rightarrow> [] | Some ev \<Rightarrow> [ev])\<rparr>\<rparr>)"
| atomic_apply: "cs_threads s t = Waiting p cp \<Longrightarrow> cs_enforcer s = Some e \<Longrightarrow>
    linux_apply_policy B e cp = Some (r, e') \<Longrightarrow>
    atomic_step B env L K R fmt (Unlocked t p r) s (set_thread t (after_apply p cp r) (set_enforcer e' s))"

section \<open>The implementation refines the specification\<close>

text \<open>The poller and the consumer do not depend on how far an install has come.\<close>

lemma emit_event_enforcer:
  "emit_event fmt raw (c\<lparr>ct_enforcer := x\<rparr>) = map_option (\<lambda>c'. c'\<lparr>ct_enforcer := x\<rparr>) (emit_event fmt raw c)"
  by (cases "push (enrich fmt (ct_boot_offset_ns c) (ct_resolver c) raw) (ct_queue c)") (simp_all add: emit_event_def Let_def)

lemma poll_record_enforcer:
  assumes "poll_record fmt ev c = Some c'" and "ct_enforcer c = Some e" and "ev_magic ev = FG_MAGIC"
    and "le_cfg e0 = le_cfg e"
  shows "ct_enforcer c' = Some e \<and> poll_record fmt ev (c\<lparr>ct_enforcer := Some e0\<rparr>) = Some (c'\<lparr>ct_enforcer := Some e0\<rparr>)"
proof (cases "ec_on_event (le_cfg e)")
  case True
  from assms True have em: "emit_event fmt (decode_event ev) (c\<lparr>ct_enforcer := Some e\<rparr>) = Some c'"
    by (simp add: poll_record_def ring_callback_def)
  then obtain c1 where c1: "emit_event fmt (decode_event ev) c = Some c1" "c' = c1\<lparr>ct_enforcer := Some e\<rparr>"
    by (auto simp: emit_event_enforcer)
  then show ?thesis using assms True by (simp add: poll_record_def ring_callback_def emit_event_enforcer)
next
  case False
  with assms have "c' = c\<lparr>ct_enforcer := Some e\<rparr>" by (simp add: poll_record_def ring_callback_def)
  with False assms show ?thesis by (simp add: poll_record_def ring_callback_def)
qed

lemma consume_one_enforcer:
  "consume_one L K (c\<lparr>ct_enforcer := x\<rparr>) = map_option (\<lambda>(r, c'). (r, c'\<lparr>ct_enforcer := x\<rparr>)) (consume_one L K c)"
  by (auto simp: consume_one_def split: option.splits prod.splits outcome.splits)

inductive_cases sys_polledE: "sys_step B env L K R fmt Polled s s'"
inductive_cases sys_consumedE: "sys_step B env L K R fmt (Consumed se) s s'"
inductive_cases sys_openedE: "sys_step B env L K R fmt (Opened path exe ret sub) s s'"

definition with_enforcer ::
  "('p, 'r, 'c) linux_enforcer \<Rightarrow> ('p, 'r, 'c, 'k) fg_system \<Rightarrow> ('p, 'r, 'c, 'k) fg_system" where
  "with_enforcer e s = s\<lparr>sy_controller := (sy_controller s)\<lparr>ct_enforcer := Some e\<rparr>\<rparr>"

lemma polled_with_enforcer:
  assumes "sys_step B env L K R fmt Polled s s'" and "sy_ring s = ev # rest" and "ev_magic ev = FG_MAGIC"
    and "ct_enforcer (sy_controller s) = Some e" and "le_cfg e0 = le_cfg e"
  shows "ct_enforcer (sy_controller s') = Some e \<and> sys_step B env L K R fmt Polled (with_enforcer e0 s) (with_enforcer e0 s')"
proof -
  from assms(1) obtain ev' rest' c where 1: "s' = s\<lparr>sy_controller := c, sy_ring := rest'\<rparr>" "sy_ring s = ev' # rest'"
    "poll_record fmt ev' (sy_controller s) = Some c" by (rule sys_polledE)
  with assms(2) have "poll_record fmt ev (sy_controller s) = Some c" by simp
  from poll_record_enforcer [OF this assms(4,3,5)] have c: "ct_enforcer c = Some e"
    and run: "poll_record fmt ev (sy_controller (with_enforcer e0 s)) = Some (c\<lparr>ct_enforcer := Some e0\<rparr>)"
    by (simp_all add: with_enforcer_def)
  have "sy_ring (with_enforcer e0 s) = ev # rest" using assms(2) by (simp add: with_enforcer_def)
  have w: "with_enforcer e0 s' = (with_enforcer e0 s)\<lparr>sy_controller := c\<lparr>ct_enforcer := Some e0\<rparr>, sy_ring := rest\<rparr>"
    by (rule fg_system.equality) (use 1 assms(2) in \<open>simp_all add: with_enforcer_def\<close>)
  from step_poll [OF \<open>sy_ring (with_enforcer e0 s) = ev # rest\<close> run, of B env L K R] show ?thesis
    unfolding w using 1 c by simp
qed

lemma consumed_with_enforcer:
  assumes "sys_step B env L K R fmt (Consumed se) s s'"
  shows "ct_enforcer (sy_controller s') = ct_enforcer (sy_controller s) \<and>
    sys_step B env L K R fmt (Consumed se) (with_enforcer e0 s) (with_enforcer e0 s')"
proof -
  from assms obtain q c where 1: "s' = s\<lparr>sy_controller := c\<rparr>" "pop (ct_queue (sy_controller s)) = Some (Some se, q)"
    "consume_one L K (sy_controller s) = Some (Returns True, c)" by (rule sys_consumedE)
  from consume_one_True [OF 1(3)] have "ct_enforcer c = ct_enforcer (sy_controller s)" by auto
  with 1 show ?thesis
    using step_consume [of "with_enforcer e0 s" se q L K "c\<lparr>ct_enforcer := Some e0\<rparr>"]
    by (simp add: with_enforcer_def consume_one_enforcer)
qed

fun is_applying :: "load_pc \<Rightarrow> bool" where
  "is_applying (Applying p cp pc) = True"
| "is_applying pc = False"

text \<open>The state before the running install, with its thread still waiting.\<close>

definition rewind ::
  "nat \<Rightarrow> policy \<Rightarrow> compiled_policy \<Rightarrow> ('p, 'r, 'c) linux_enforcer \<Rightarrow> ('p, 'r, 'c, 'k) conc \<Rightarrow> ('p, 'r, 'c, 'k) conc" where
  "rewind t p cp e0 s = set_holder None (set_thread t (Waiting p cp) (set_enforcer e0 s))"

lemma rewind_simps [simp]:
  "cs_holder (rewind t p cp e0 s) = None"
  "cs_threads (rewind t p cp e0 s) = (cs_threads s)(t := Waiting p cp)"
  "cs_system (rewind t p cp e0 s) = with_enforcer e0 (cs_system s)"
  by (simp_all add: rewind_def conc_sets with_enforcer_def)

lemma rewind_set_thread: "t' \<noteq> t \<Longrightarrow> rewind t p cp e0 (set_thread t' pc s) = set_thread t' pc (rewind t p cp e0 s)"
  by (simp add: rewind_def conc_sets fun_upd_twist)

lemma rewind_system: "rewind t p cp e0 (s\<lparr>cs_system := y\<rparr>) = (rewind t p cp e0 s)\<lparr>cs_system := with_enforcer e0 y\<rparr>"
  by (simp add: rewind_def conc_sets with_enforcer_def)

lemma rewind_controller:
  "rewind t p cp e0 (set_controller c s) = set_controller (c\<lparr>ct_enforcer := Some e0\<rparr>) (rewind t p cp e0 s)"
  by (simp add: rewind_def conc_sets)

text \<open>A step outside the install, made while thread \<open>t\<close> holds the mutex, could as well have been
  made before \<open>t\<close> took it.\<close>

lemma free_step_rewind:
  assumes "free_step B env L K R fmt l s s'" and "cs_holder s = Some t" and t: "cs_threads s t = Applying p cp pc"
    and e: "cs_enforcer s = Some e" and cfg: "le_cfg e0 = le_cfg e"
  shows "free_step B env L K R fmt l (rewind t p cp e0 s) (rewind t p cp e0 s') \<and> cs_holder s' = Some t \<and>
    cs_threads s' t = Applying p cp pc \<and> cs_enforcer s' = Some e \<and>
    (\<forall>u. is_applying (cs_threads s' u) \<longrightarrow> is_applying (cs_threads s u))"
  using assms(1)
proof cases
  case (free_poll ev rest y)
  with assms(2) polled_with_enforcer [OF free_poll(5,3) _ e cfg] show ?thesis
    using t by (auto simp: rewind_system with_enforcer_def intro!: free_step.free_poll)
next
  case (free_consume se y)
  with assms(2) consumed_with_enforcer [OF free_consume(3), of e0] t e show ?thesis
    by (auto simp: rewind_system intro!: free_step.free_consume)
next
  case (free_resolver u q cq)
  with t have "u \<noteq> t" by auto
  have comm: "(load_resolver q cq (cs_controller s))\<lparr>ct_enforcer := Some e0\<rparr> =
      load_resolver q cq (cs_controller (rewind t p cp e0 s))"
    by (simp add: load_resolver_def with_enforcer_def)
  from \<open>u \<noteq> t\<close> free_resolver t e assms(2) free_step.free_resolver [of "rewind t p cp e0 s" u q cq B env L K R fmt] show ?thesis
    unfolding free_resolver(2) rewind_set_thread [OF \<open>u \<noteq> t\<close>] rewind_controller comm
    by (auto simp: load_resolver_def)
next
  case (free_install u q r c)
  with t have "u \<noteq> t" by auto
  from free_install(4) obtain pm where c: "c = (cs_controller s)\<lparr>ct_policy_manager := pm\<rparr>"
    and li: "load_install q (cs_controller (rewind t p cp e0 s)) = (r, c\<lparr>ct_enforcer := Some e0\<rparr>)"
    by (auto simp: load_install_def with_enforcer_def split: prod.splits)
  from \<open>u \<noteq> t\<close> free_install t e assms(2) free_step.free_install [OF _ li, of u B env L K R fmt] show ?thesis
    unfolding free_install(2) rewind_set_thread [OF \<open>u \<noteq> t\<close>] rewind_controller
    by (auto simp: c)
qed (use assms in \<open>auto simp: rewind_set_thread with_enforcer_def intro: free_step.intros\<close>)

text \<open>The specification's state: that of the implementation, with a running install undone.\<close>

definition serial_rel ::
  "('p, 'r, 'c) bpf_sys \<Rightarrow> ('p, 'r, 'c, 'k) conc \<Rightarrow> ('p, 'r, 'c, 'k) conc \<Rightarrow> bool" where
  "serial_rel B a s \<longleftrightarrow>
     (case cs_holder s of
        None \<Rightarrow> a = s \<and> (\<forall>u. \<not> is_applying (cs_threads s u))
      | Some t \<Rightarrow> (\<forall>u. is_applying (cs_threads s u) \<longrightarrow> u = t) \<and>
          (\<exists>p cp pc e0 e. cs_threads s t = Applying p cp pc \<and> cs_enforcer s = Some e \<and>
             apply_reaches B cp (At_Entry, e0) (pc, e) \<and> a = rewind t p cp e0 s))"

lemma serial_rel_applying:
  assumes "serial_rel B a s" and "cs_threads s t = Applying p cp pc"
  obtains e0 e where "cs_holder s = Some t" "cs_enforcer s = Some e" "apply_reaches B cp (At_Entry, e0) (pc, e)"
    "a = rewind t p cp e0 s" "\<forall>u. is_applying (cs_threads s u) \<longrightarrow> u = t"
proof -
  have app: "is_applying (cs_threads s t)" using assms(2) by simp
  show thesis
  proof (cases "cs_holder s")
    case None
    with assms(1) app show thesis by (simp add: serial_rel_def)
  next
    case (Some h)
    from assms(1) [unfolded serial_rel_def] Some have only: "\<forall>u. is_applying (cs_threads s u) \<longrightarrow> u = h"
      and ex: "\<exists>p cp pc e0 e. cs_threads s h = Applying p cp pc \<and> cs_enforcer s = Some e \<and>
        apply_reaches B cp (At_Entry, e0) (pc, e) \<and> a = rewind h p cp e0 s" by simp_all
    from only app have h: "t = h" by blast
    from ex obtain p' cp' pc' e0 e where hold: "cs_threads s h = Applying p' cp' pc'" "cs_enforcer s = Some e"
      "apply_reaches B cp' (At_Entry, e0) (pc', e)" "a = rewind h p' cp' e0 s" by (elim exE conjE)
    show thesis by (rule that [of e e0]) (use Some only hold assms(2) h in simp_all)
  qed
qed

fun visible :: "conc_label \<Rightarrow> bool" where
  "visible (Locked t) = False"
| "visible (Map_Call t p pc) = False"
| "visible l = True"

lemma free_step_frame:
  "free_step B env L K R fmt l s s' \<Longrightarrow> visible l \<and> cs_holder s' = cs_holder s \<and>
     (\<forall>u. is_applying (cs_threads s' u) \<longrightarrow> is_applying (cs_threads s u))"
  by (induction rule: free_step.cases) auto

lemma rewind_locked:
  assumes "cs_threads s t = Waiting p cp" "cs_enforcer s = Some e" "cs_holder s = None"
  shows "rewind t p cp e (set_holder (Some t) (set_thread t (Applying p cp pc) s)) = s"
  by (rule conc.equality) (use assms in \<open>auto simp: with_enforcer_def intro!: fg_system.equality controller.equality\<close>)

lemma rewind_map: "rewind t p cp e0 (set_thread t pc (set_enforcer e s)) = rewind t p cp e0 s"
  by (rule conc.equality) (auto simp: with_enforcer_def set_enforcer_def set_controller_def)

lemma rewind_applied:
  assumes "cs_enforcer s = Some e"
  shows "set_thread t pc (set_enforcer e (rewind t p cp e0 s)) = set_holder None (set_thread t pc s)"
  by (rule conc.equality) (use assms in \<open>auto simp: set_enforcer_def set_controller_def with_enforcer_def
    intro!: fg_system.equality controller.equality\<close>)

lemma open_during_install:
  assumes laws: "bpf_laws B" and e: "cs_enforcer s = Some e"
    and reach: "apply_reaches B cp (At_Entry, e0) (pc, e)" 
    and op: "sys_step B env L K R fmt (Opened path exe ret sub) (cs_system s) y"
  shows "atomic_step B env L K R fmt (System_Step (Opened path exe ret sub)) (rewind t p cp e0 s)
    (rewind t p cp e0 (s\<lparr>cs_system := y\<rparr>))"
proof -
  from op obtain e1 f ctx where y: "y = (cs_system s)\<lparr>sy_ring := sy_ring (cs_system s) @ (case sub of None \<Rightarrow> [] | Some ev \<Rightarrow> [ev])\<rparr>"
    and "cs_enforcer s = Some e1" and R: "resolves R path" "resolves R exe"
    and ids: "opened_id f = to_abi (resolved_id R path)" "exe_id ctx = to_abi (resolved_id R exe)"
    and ans: "kernel_answer B e1 ctx f = (ret, sub)" by (rule sys_openedE)
  with e have "e1 = e" by simp
  from at_view_between [OF at_view_reaches [OF laws reach]]
  have v: "maps_view B e = maps_view B e0 \<or>
      (\<exists>u q cq. cs_threads (rewind t p cp e0 s) u = Waiting q cq \<and> (paused (maps_view B e) \<or> maps_view B e = installed_view cq))"
    by (auto simp: between_def)
  have a: "answer_on (maps_view B e) e0 ctx f = (ret, sub)"
    using ans apply_reaches_cfg [OF reach] by (simp add: answer_on_def kernel_answer_def \<open>e1 = e\<close>)
  have "cs_enforcer (rewind t p cp e0 s) = Some e0" by (simp add: with_enforcer_def)
  note op' = atomic_open [OF this R ids v a]
  have w: "with_enforcer e0 y = (with_enforcer e0 (cs_system s))\<lparr>sy_ring := sy_ring (cs_system s) @
      (case sub of None \<Rightarrow> [] | Some ev \<Rightarrow> [ev])\<rparr>"
    by (rule fg_system.equality) (simp_all add: y with_enforcer_def)
  from op' [of env L K fmt] show ?thesis by (simp add: rewind_system w) (simp add: with_enforcer_def)
qed

lemma serial_rel_owned:
  assumes "serial_rel B a s" and "cs_holder s = Some t"
  obtains p cp pc e0 e where "cs_threads s t = Applying p cp pc" "cs_enforcer s = Some e"
    "apply_reaches B cp (At_Entry, e0) (pc, e)" "a = rewind t p cp e0 s" "\<forall>u. is_applying (cs_threads s u) \<longrightarrow> u = t"
  using assms by (auto simp: serial_rel_def)

lemma serial_free:
  assumes "free_step B env L K R fmt l s s'" and rel: "serial_rel B a s"
  shows "\<exists>a'. runs (atomic_step B env L K R fmt) [l] a a' \<and> serial_rel B a' s'"
proof (cases "cs_holder s")
  case None
  with rel have "a = s" "\<forall>u. \<not> is_applying (cs_threads s u)" by (simp_all add: serial_rel_def)
  with free_step_frame [OF assms(1)] None assms(1) show ?thesis
    by (intro exI [of _ s']) (auto simp: serial_rel_def intro: runs_one atomic_free)
next
  case (Some t)
  from serial_rel_owned [OF rel this] obtain p cp pc e0 e where h: "cs_threads s t = Applying p cp pc" "cs_enforcer s = Some e"
    "apply_reaches B cp (At_Entry, e0) (pc, e)" "a = rewind t p cp e0 s" "\<forall>u. is_applying (cs_threads s u) \<longrightarrow> u = t" .
  from apply_reaches_cfg [OF h(3)] have "le_cfg e0 = le_cfg e" by simp
  from free_step_rewind [OF assms(1) Some h(1,2) this] free_step_frame [OF assms(1)] h Some show ?thesis
    by (intro exI [of _ "rewind t p cp e0 s'"]) (auto simp: serial_rel_def intro: runs_one atomic_free)
qed

lemma serial_open:
  assumes laws: "bpf_laws B" and st: "sys_step B env L K R fmt (Opened path exe ret sub) (cs_system s) y" and rel: "serial_rel B a s"
  shows "\<exists>a'. runs (atomic_step B env L K R fmt) [System_Step (Opened path exe ret sub)] a a' \<and> serial_rel B a' (s\<lparr>cs_system := y\<rparr>)"
proof (cases "cs_holder s")
  case None
  with rel have a: "a = s" by (simp add: serial_rel_def)
  from st obtain e f ctx where y: "y = (cs_system s)\<lparr>sy_ring := sy_ring (cs_system s) @ (case sub of None \<Rightarrow> [] | Some ev \<Rightarrow> [ev])\<rparr>"
    and o: "cs_enforcer s = Some e" "resolves R path" "resolves R exe" "opened_id f = to_abi (resolved_id R path)"
      "exe_id ctx = to_abi (resolved_id R exe)" and "kernel_answer B e ctx f = (ret, sub)" by (rule sys_openedE)
  with atomic_open [OF o, of "maps_view B e" B ret sub env L K fmt]
  have "atomic_step B env L K R fmt (System_Step (Opened path exe ret sub)) s (s\<lparr>cs_system := y\<rparr>)"
    by (simp add: answer_on_def kernel_answer_def)
  with rel a None y show ?thesis by (intro exI [of _ "s\<lparr>cs_system := y\<rparr>"]) (auto simp: serial_rel_def intro: runs_one)
next
  case (Some t)
  from serial_rel_owned [OF rel this] obtain p cp pc e0 e where h: "cs_threads s t = Applying p cp pc" "cs_enforcer s = Some e"
    "apply_reaches B cp (At_Entry, e0) (pc, e)" "a = rewind t p cp e0 s" "\<forall>u. is_applying (cs_threads s u) \<longrightarrow> u = t" .
  from st h(2) have "ct_enforcer (sy_controller y) = Some e" by (auto elim: sys_openedE)
  with open_during_install [OF laws h(2,3) st, of t p] h Some show ?thesis
    by (intro exI [of _ "rewind t p cp e0 (s\<lparr>cs_system := y\<rparr>)"]) (auto simp: serial_rel_def intro: runs_one)
qed

lemma serial_simulation:
  assumes laws: "bpf_laws B" and st: "conc_step B env L K R fmt l s s'" and rel: "serial_rel B a s"
  shows "\<exists>a'. runs (atomic_step B env L K R fmt) (if visible l then [l] else []) a a' \<and> serial_rel B a' s'"
  using st
proof cases
  case conc_free
  from serial_free [OF this rel] free_step_frame [OF this] show ?thesis by simp
next
  case (conc_open path exe ret sub y)
  from serial_open [OF laws conc_open(3) rel] show ?thesis by (simp add: conc_open(1,2))
next
  case (conc_lock t p cp e)
  with rel have "a = s" "\<forall>u. \<not> is_applying (cs_threads s u)" by (simp_all add: serial_rel_def)
  with conc_lock rewind_locked [OF conc_lock(3-5), of At_Entry] show ?thesis
    by (intro exI [of _ s]) (auto simp: serial_rel_def intro: runs_nil)
next
  case (conc_map t p cp pc e pc' e')
  from serial_rel_applying [OF rel conc_map(3)] obtain e0 e1 where h: "cs_holder s = Some t" "cs_enforcer s = Some e1"
    "apply_reaches B cp (At_Entry, e0) (pc, e1)" "a = rewind t p cp e0 s" "\<forall>u. is_applying (cs_threads s u) \<longrightarrow> u = t" .
  with conc_map reaches_trans [OF h(3) reaches_step] have "apply_reaches B cp (At_Entry, e0) (pc', e')" by simp
  with h conc_map show ?thesis
    by (intro exI [of _ a]) (auto simp: serial_rel_def rewind_map intro: runs_nil)
next
  case (conc_unlock t p cp r)
  from serial_rel_applying [OF rel conc_unlock(3)] obtain e0 e where h: "cs_holder s = Some t" "cs_enforcer s = Some e"
    "apply_reaches B cp (At_Entry, e0) (Returned r, e)" "a = rewind t p cp e0 s" "\<forall>u. is_applying (cs_threads s u) \<longrightarrow> u = t" .
  have w: "cs_threads a t = Waiting p cp" "cs_enforcer a = Some e0" by (simp_all add: h(4) with_enforcer_def)
  from atomic_apply [OF w apply_reaches_returned [OF laws h(3)], of env L K R fmt]
  have "atomic_step B env L K R fmt l a s'"
    by (simp add: conc_unlock(1,2) h(4) rewind_applied [OF h(2)])
  moreover have "\<not> is_applying (after_apply p cp r)" by (cases r) simp_all
  ultimately show ?thesis using h(5) conc_unlock
    by (intro exI [of _ s']) (auto simp: serial_rel_def intro: runs_one)
qed

interpretation serial_loads:
  simulation "conc_step B env L K R fmt" "atomic_step B env L K R fmt" "\<lambda>l ms. ms = (if visible l then [l] else [])"
    "\<lambda>a s. bpf_laws B \<and> serial_rel B a s" for B env L K R fmt
proof
  fix l s s' a
  assume "conc_step B env L K R fmt l s s'" and rel: "bpf_laws B \<and> serial_rel B a s"
  with serial_simulation [of B env L K R fmt l s s' a] obtain a' where
    "runs (atomic_step B env L K R fmt) (if visible l then [l] else []) a a'" "serial_rel B a' s'" by blast
  with rel show "\<exists>ms a'. ms = (if visible l then [l] else []) \<and> runs (atomic_step B env L K R fmt) ms a a' \<and>
      bpf_laws B \<and> serial_rel B a' s'" by blast
qed

lemma concat_visible:
  "list_all2 (\<lambda>l ms. ms = (if visible l then [l] else [])) ls mss \<Longrightarrow> concat mss = filter visible ls"
  by (induction rule: list_all2_induct) auto

text \<open>Nobody is inside \<open>apply_policy\<close>.\<close>

definition lock_free :: "('p, 'r, 'c, 'k) conc \<Rightarrow> bool" where
  "lock_free s \<longleftrightarrow> cs_holder s = None \<and> (\<forall>u. \<not> is_applying (cs_threads s u))"

lemma loads_serial:
  assumes "bpf_laws B" and "runs (conc_step B env L K R fmt) ls s s'" and "lock_free s"
  shows "\<exists>a. runs (atomic_step B env L K R fmt) (filter visible ls) s a \<and> serial_rel B a s'"
proof -
  have "bpf_laws B \<and> serial_rel B s s" using assms(1,3) by (simp add: serial_rel_def lock_free_def)
  from serial_loads.runs_followed [OF assms(2) this] obtain mss a where
    tr: "list_all2 (\<lambda>l ms. ms = (if visible l then [l] else [])) ls mss"
    and "runs (atomic_step B env L K R fmt) (concat mss) s a" "serial_rel B a s'" by (elim exE conjE)
  with concat_visible [OF tr] show ?thesis by auto
qed

end
