(* ===== verification/Load_Window.thy ===== *)
theory Load_Window
  imports Load_Concurrency
begin

text \<open>
  What the rest of the system can observe while policies are loaded by any number of threads:
  runs of the hook, whose three map lookups may fall to three different moments; status requests;
  and that the mutex is always given back. The invariants are proved on the specification of
  \<open>Load_Concurrency\<close>, where an install is one step, and carried to the implementation.
\<close>

section \<open>The hook, one map lookup at a time\<close>

datatype hook_pc =
    Hook_Entry
  | Hook_Identified fileguard_file_id
  | Hook_Reserved fileguard_file_id "fileguard_event option"
  | Hook_Returned i32 "fileguard_event option"

text \<open>Each step reads one of the three maps of the moment: config, protected files, rules.\<close>

fun hook_step :: "open_ctx \<Rightarrow> kfile \<Rightarrow> kview \<Rightarrow> hook_pc \<Rightarrow> hook_pc" where
  "hook_step ctx file v Hook_Entry =
     (if \<not> fg_enabled v then Hook_Returned 0 None
      else let res = fg_file_id file zero_file_id in
        if abi_ino res = 0 then Hook_Returned 0 None else Hook_Identified res)"
| "hook_step ctx file v (Hook_Identified res) =
     (if kv_protected v res = None then Hook_Returned 0 None
      else Hook_Reserved res (map_option (\<lambda>e. e\<lparr>ev_magic := FG_MAGIC,
                ev_timestamp_ns := ctx_ktime ctx,
                ev_pid := ucast (ctx_pid_tgid ctx),
                ev_tgid := ucast (drop_bit 32 (ctx_pid_tgid ctx)),
                ev_uid := ucast (ctx_uid_gid ctx),
                ev_gid := ucast (drop_bit 32 (ctx_uid_gid ctx)),
                ev_res := res,
                ev_operation := ucast FG_OP_OPEN,
                ev_comm := ctx_comm ctx\<rparr>) (ctx_slot ctx)))"
| "hook_step ctx file v (Hook_Reserved res ev) =
     (case fg_decision v res (fg_process_exe_id (ctx_task ctx) zero_file_id) ev of (ret, sub) \<Rightarrow> Hook_Returned ret sub)"
| "hook_step ctx file v (Hook_Returned ret sub) = Hook_Returned ret sub"

definition hook_run :: "open_ctx \<Rightarrow> kfile \<Rightarrow> kview \<Rightarrow> kview \<Rightarrow> kview \<Rightarrow> hook_pc" where
  "hook_run ctx file v1 v2 v3 = hook_step ctx file v3 (hook_step ctx file v2 (hook_step ctx file v1 Hook_Entry))"

text \<open>A run that straddles changes answers as an atomic run on what it happened to read.\<close>

definition straddled :: "kview \<Rightarrow> kview \<Rightarrow> kview \<Rightarrow> kview" where
  "straddled v1 v2 v3 = \<lparr>kv_config = kv_config v1, kv_protected = kv_protected v2, kv_rules = kv_rules v3\<rparr>"

lemma fg_enabled_straddled [simp]: "fg_enabled (straddled v1 v2 v3) = fg_enabled v1"
  by (simp add: fg_enabled_def straddled_def)

lemma hook_run_eq:
  "hook_run ctx file v1 v2 v3 = (case fg_file_open (straddled v1 v2 v3) ctx file of (ret, sub) \<Rightarrow> Hook_Returned ret sub)"
  by (simp add: hook_run_def fg_file_open_def Let_def fg_decision_def straddled_def [of v1 v2 v3] fg_enabled_def
      split: option.splits)

lemma straddled_same [simp]: "straddled v v v = v"
  by (simp add: straddled_def)

lemma hook_run_atomic: "hook_run ctx file v v v = (case fg_file_open v ctx file of (ret, sub) \<Rightarrow> Hook_Returned ret sub)"
  by (simp add: hook_run_eq)

section \<open>Where the contents of the maps come from\<close>

definition from_policy :: "file_resolver \<Rightarrow> policy set \<Rightarrow> (kview \<Rightarrow> 'k \<Rightarrow> 'v option) \<Rightarrow> kview \<Rightarrow> bool" where
  "from_policy R P part v \<longleftrightarrow> part v = Map.empty \<or>
     (\<exists>p \<in> P. \<exists>cp. compile R p = Inr cp \<and> part v \<subseteq>\<^sub>m part (installed_view cp))"

text \<open>Both hash maps hold parts of policies of \<open>P\<close>; where enforcement is on, the maps are those of
  one policy of \<open>P\<close> and the counts in the status are its counts. The stored status says
  enforcing only with an attached program and a written config.\<close>

definition kernel_from ::
  "('p, 'r, 'c) bpf_sys \<Rightarrow> file_resolver \<Rightarrow> policy set \<Rightarrow> ('p, 'r, 'c) linux_enforcer \<Rightarrow> bool" where
  "kernel_from B R P e \<longleftrightarrow> from_policy R P kv_protected (maps_view B e) \<and> from_policy R P kv_rules (maps_view B e) \<and>
     (fg_enabled (maps_view B e) \<longrightarrow> (\<exists>p \<in> P. \<exists>cp. compile R p = Inr cp \<and> maps_view B e = installed_view cp \<and>
        st_protected_count (le_status e) = length (cp_protected_resources cp) \<and>
        st_rule_count (le_status e) = length (cp_rules cp))) \<and>
     (\<not> le_skel e \<or> kv_config (maps_view B e) = None \<longrightarrow> \<not> st_enforcing (le_status e))"

lemma from_policyI:
  "p \<in> P \<Longrightarrow> compile R p = Inr cp \<Longrightarrow> part v \<subseteq>\<^sub>m part (installed_view cp) \<Longrightarrow> from_policy R P part v"
  by (auto simp: from_policy_def)

lemma from_policy_mono: "from_policy R P part v \<Longrightarrow> P \<subseteq> Q \<Longrightarrow> from_policy R Q part v"
  by (auto simp: from_policy_def)

lemma kernel_from_mono: "kernel_from B R P e \<Longrightarrow> P \<subseteq> Q \<Longrightarrow> kernel_from B R Q e"
  unfolding kernel_from_def by (meson from_policy_mono subsetD)

lemma from_policy_le: "from_policy R P part v0 \<Longrightarrow> part v \<subseteq>\<^sub>m part v0 \<Longrightarrow> from_policy R P part v"
  unfolding from_policy_def by (metis map_le_antisym map_le_empty map_le_trans)

lemma between_from:
  assumes "between cp v0 v" and "compile R p = Inr cp" and "p \<in> P"
  shows "from_policy R P kv_protected v0 \<Longrightarrow> from_policy R P kv_protected v"
    and "from_policy R P kv_rules v0 \<Longrightarrow> from_policy R P kv_rules v"
proof -
  have whole: "part v \<subseteq>\<^sub>m part v0 \<or> part v \<subseteq>\<^sub>m part (installed_view cp) \<Longrightarrow> from_policy R P part v0 \<Longrightarrow> from_policy R P part v"
    for part :: "kview \<Rightarrow> 'x \<Rightarrow> 'y option"
    using assms(2,3) from_policy_le [of R P part v0 v] by (auto simp: from_policy_def)
  from whole [of kv_protected] whole [of kv_rules] assms(1)
  show "from_policy R P kv_protected v0 \<Longrightarrow> from_policy R P kv_protected v"
    and "from_policy R P kv_rules v0 \<Longrightarrow> from_policy R P kv_rules v"
    by (auto simp: between_def)
qed

lemma paused_disabled: "paused v \<Longrightarrow> \<not> fg_enabled v"
  by (simp add: paused_def fg_enabled_def zero_config_def)

text \<open>A whole install keeps it.\<close>

lemma kernel_from_apply:
  assumes laws: "bpf_laws B" and ap: "linux_apply_policy B e cp = Some (r, e')"
    and "compile R p = Inr cp" and "p \<in> P" and kf: "kernel_from B R P e"
  shows "kernel_from B R P e'"
proof (cases r)
  case (Inr u)
  with linux_apply_Inr [OF laws] ap have "maps_view B e' = installed_view cp" "le_skel e'"
    "le_status e' = (le_status e)\<lparr>st_policy_version := cp_version cp,
      st_protected_count := length (cp_protected_resources cp), st_rule_count := length (cp_rules cp), st_enforcing := True\<rparr>"
    by auto
  with assms(3,4) show ?thesis unfolding kernel_from_def by (auto simp: installed_view_parts intro!: from_policyI [OF assms(4,3)])
next
  case (Inl m)
  have st: "le_status e' = le_status e"
    using ap Inl by (auto simp: linux_apply_policy_def split: if_splits option.splits sum.splits)
  have re: "apply_reaches B cp (At_Entry, e) (Returned (Inl m), e')" using linux_apply_reaches [OF ap] Inl by simp
  from apply_reaches_cfg [OF re] have sk: "le_skel e' = le_skel e" by simp
  from at_view_reaches [OF laws re] have "maps_view B e' = maps_view B e \<or> paused (maps_view B e')" by auto
  then show ?thesis
  proof
    assume "maps_view B e' = maps_view B e"
    with kf st sk show ?thesis by (simp add: kernel_from_def)
  next
    assume "paused (maps_view B e')"
    moreover from at_view_between [OF at_view_reaches [OF laws re]]
    have "between cp (maps_view B e) (maps_view B e')" .
    ultimately show ?thesis using between_from [OF _ assms(3,4)] kf st sk paused_disabled
      unfolding kernel_from_def paused_def by (metis option.distinct(1))
  qed
qed

section \<open>The invariant of the specification\<close>

text \<open>The policies some thread has begun to install, or had installed, in a run.\<close>

definition installs :: "conc_label list \<Rightarrow> policy set" where
  "installs ls = {p. (\<exists>t pc. Map_Call t p pc \<in> set ls) \<or> (\<exists>t r. Unlocked t p r \<in> set ls)}"

lemma installs_append [simp]: "installs (ls @ ls') = installs ls \<union> installs ls'"
  by (auto simp: installs_def)

lemma installs_visible: "installs (filter visible ls) \<subseteq> installs ls"
  by (auto simp: installs_def)

fun waiting_ok :: "file_resolver \<Rightarrow> policy set \<Rightarrow> load_pc \<Rightarrow> bool" where
  "waiting_ok R P (Entered p) = expressible p"
| "waiting_ok R P (Waiting p cp) = (expressible p \<and> compile R p = Inr cp)"
| "waiting_ok R P pc = True"

definition conc_ok ::
  "('p, 'r, 'c) bpf_sys \<Rightarrow> file_resolver \<Rightarrow> policy set \<Rightarrow> ('p, 'r, 'c, 'k) conc \<Rightarrow> bool" where
  "conc_ok B R P s \<longleftrightarrow> (\<forall>p \<in> P. expressible p) \<and> (\<forall>t. waiting_ok R P (cs_threads s t)) \<and> (\<exists>e. cs_enforcer s = Some e \<and> kernel_from B R P e)"

lemma waiting_ok_after [simp]: "waiting_ok R P (after_apply p cp r)"
  by (cases r) simp_all

lemma waiting_ok_mono: "waiting_ok R P pc \<Longrightarrow> P \<subseteq> Q \<Longrightarrow> waiting_ok R Q pc"
  by (cases pc) auto

lemma conc_ok_mono: "conc_ok B R P s \<Longrightarrow> P \<subseteq> Q \<Longrightarrow> \<forall>p \<in> Q. expressible p \<Longrightarrow> conc_ok B R Q s"
  unfolding conc_ok_def by (meson kernel_from_mono waiting_ok_mono)

lemma conc_ok_set_thread:
  "conc_ok B R P s \<Longrightarrow> waiting_ok R P pc \<Longrightarrow> conc_ok B R P (set_thread t pc s)"
  by (auto simp: conc_ok_def)

lemma kernel_from_detail:
  "kernel_from B R P (e\<lparr>le_status := (le_status e)\<lparr>st_detail := d\<rparr>\<rparr>) = kernel_from B R P e"
  by (simp add: kernel_from_def)

lemma kernel_from_detach: "linux_detach e = (r, e') \<Longrightarrow> kernel_from B R P e \<Longrightarrow> kernel_from B R P e'"
proof -
  have "kernel_from B R P e \<Longrightarrow> kernel_from B R P (snd (linux_detach e))" by (simp add: linux_detach_def kernel_from_def)
  then show "linux_detach e = (r, e') \<Longrightarrow> kernel_from B R P e \<Longrightarrow> ?thesis" by simp
qed

lemma ring_callback_kernel_from:
  "kernel_from B R P e \<Longrightarrow> kernel_from B R P (snd (ring_callback e d sz))"
  by (simp add: ring_callback_def kernel_from_detail split: option.splits)

lemma poll_record_kernel_from:
  assumes "poll_record fmt ev c = Some c'" and "ct_enforcer c = Some e" and "kernel_from B R P e"
  shows "\<exists>e'. ct_enforcer c' = Some e' \<and> kernel_from B R P e'"
proof -
  obtain r e' where cb: "ring_callback e (Some ev) sizeof_event = (r, e')" by (metis prod.exhaust)
  with ring_callback_kernel_from [OF assms(3)] have k: "kernel_from B R P e'" by (metis snd_conv)
  show ?thesis
  proof (cases r)
    case None
    with assms cb k show ?thesis by (auto simp: poll_record_def)
  next
    case (Some raw)
    with assms cb have "emit_event fmt raw (c\<lparr>ct_enforcer := Some e'\<rparr>) = Some c'" by (simp add: poll_record_def)
    from emit_event_shape [OF this] k show ?thesis by auto
  qed
qed

lemma free_step_ok:
  assumes "free_step B env L K R fmt l s s'" and ok: "conc_ok B R P s"
  shows "conc_ok B R P s'"
  using assms(1)
proof cases
  case (free_prepare t p cp)
  with ok have "waiting_ok R P (Entered p)" unfolding conc_ok_def by metis
  with ok free_prepare show ?thesis by (auto intro!: conc_ok_set_thread)
next
  case (free_call t d p)
  with ok from_json_expressible [OF free_call(4)] show ?thesis by (auto intro!: conc_ok_set_thread)
next
  case (free_poll ev rest y)
  from ok obtain e where e: "cs_enforcer s = Some e" "kernel_from B R P e" by (auto simp: conc_ok_def)
  from free_poll(5) obtain ev' rest' c where "y = (cs_system s)\<lparr>sy_controller := c, sy_ring := rest'\<rparr>"
    "poll_record fmt ev' (cs_controller s) = Some c" by (rule sys_polledE)
  with poll_record_kernel_from [OF this(2) e] ok free_poll(1,2) show ?thesis
    by (auto simp: conc_ok_def)
next
  case (free_consume se y)
  from consumed_with_enforcer [OF free_consume(3)] have "ct_enforcer (sy_controller y) = cs_enforcer s" by simp
  with ok free_consume(1,2) show ?thesis by (auto simp: conc_ok_def)
next
  case (free_install t p r c)
  then have "ct_enforcer c = cs_enforcer s" by (auto simp: load_install_def split: prod.splits)
  with ok free_install(1,2) show ?thesis by (auto simp: conc_ok_def)
next
  case (free_detach e r e')
  with ok show ?thesis by (auto simp: conc_ok_def intro: kernel_from_detach [OF free_detach(5)])
qed (use ok in \<open>auto simp: conc_ok_def load_resolver_def\<close>)

lemma atomic_step_ok:
  assumes laws: "bpf_laws B" and "atomic_step B env L K R fmt l s s'" and ok: "conc_ok B R P s"
  shows "\<exists>Q. Q \<subseteq> P \<union> installs [l] \<and> conc_ok B R Q s'"
  using assms(2)
proof cases
  case atomic_free
  with free_step_ok [OF this ok] show ?thesis by (intro exI [of _ P]) simp
next
  case (atomic_open e path exe f ctx v ret sub)
  with ok show ?thesis by (intro exI [of _ P]) (auto simp: conc_ok_def)
next
  case (atomic_apply t p cp e r e')
  with ok have "waiting_ok R P (Waiting p cp)" "kernel_from B R P e" unfolding conc_ok_def by (metis, auto)
  then have p: "expressible p" "compile R p = Inr cp" and k: "kernel_from B R P e" by simp_all
  have "conc_ok B R (insert p P) s" using ok by (rule conc_ok_mono) (use ok p(1) in \<open>auto simp: conc_ok_def\<close>)
  with kernel_from_apply [OF laws atomic_apply(5) p(2) insertI1 kernel_from_mono [OF k subset_insertI]] atomic_apply(1,2)
  show ?thesis by (intro exI [of _ "insert p P"]) (auto simp: conc_ok_def installs_def)
qed

lemma atomic_runs_ok:
  assumes "runs (atomic_step B env L K R fmt) ls s s'" and "bpf_laws B" and "conc_ok B R P s"
  shows "\<exists>Q. Q \<subseteq> P \<union> installs ls \<and> conc_ok B R Q s'"
  using assms
proof (induction rule: runs.induct)
  case (runs_snoc ls s s' l s'')
  from runs_snoc.IH [OF runs_snoc.prems] obtain Q where Q: "Q \<subseteq> P \<union> installs ls" "conc_ok B R Q s'" by blast
  from atomic_step_ok [OF runs_snoc.prems(1) runs_snoc.hyps(2) Q(2)] obtain Q' where
    "Q' \<subseteq> Q \<union> installs [l]" "conc_ok B R Q' s''" by blast
  moreover from this(1) Q(1) have "Q' \<subseteq> P \<union> installs (ls @ [l])" by auto
  ultimately show ?case by blast
qed blast

section \<open>The invariant of the implementation\<close>

lemma conc_runs_ok:
  assumes "bpf_laws B" and "runs (conc_step B env L K R fmt) ls s s'" and "lock_free s" and "conc_ok B R P s"
  shows "\<exists>a Q. serial_rel B a s' \<and> Q \<subseteq> P \<union> installs ls \<and> conc_ok B R Q a"
proof -
  from loads_serial [OF assms(1-3)] obtain a where
    "runs (atomic_step B env L K R fmt) (filter visible ls) s a" "serial_rel B a s'" by blast
  moreover from atomic_runs_ok [OF this(1) assms(1,4)] obtain Q where
    "Q \<subseteq> P \<union> installs (filter visible ls)" "conc_ok B R Q a" by blast
  moreover from this(1) installs_visible [of ls] have "Q \<subseteq> P \<union> installs ls" by blast
  ultimately show ?thesis by blast
qed

text \<open>At every moment, in the middle of an install too.\<close>

definition maps_from :: "file_resolver \<Rightarrow> policy set \<Rightarrow> kview \<Rightarrow> bool" where
  "maps_from R P v \<longleftrightarrow> from_policy R P kv_protected v \<and> from_policy R P kv_rules v \<and>
     (fg_enabled v \<longrightarrow> (\<exists>p \<in> P. \<exists>cp. compile R p = Inr cp \<and> v = installed_view cp))"

lemma serial_rel_cases:
  assumes "serial_rel B a s"
  obtains (free) "cs_holder s = None" "a = s" "\<forall>u. \<not> is_applying (cs_threads s u)"
    | (held) t p cp pc e0 e where "cs_holder s = Some t" "cs_threads s t = Applying p cp pc" "cs_enforcer s = Some e"
        "apply_reaches B cp (At_Entry, e0) (pc, e)" "a = rewind t p cp e0 s" "\<forall>u. is_applying (cs_threads s u) \<longrightarrow> u = t"
proof (cases "cs_holder s")
  case None
  with assms free show thesis by (simp add: serial_rel_def)
next
  case (Some t)
  with assms obtain p cp pc e0 e where "cs_threads s t = Applying p cp pc" "cs_enforcer s = Some e"
    "apply_reaches B cp (At_Entry, e0) (pc, e)" "a = rewind t p cp e0 s" "\<forall>u. is_applying (cs_threads s u) \<longrightarrow> u = t"
    unfolding serial_rel_def by (simp, elim exE conjE) blast
  with Some held show thesis by blast
qed

lemma conc_ok_rewind:
  assumes "conc_ok B R P (rewind t p cp e0 s)"
  shows "expressible p \<and> compile R p = Inr cp \<and> kernel_from B R P e0"
proof -
  from assms have "waiting_ok R P (cs_threads (rewind t p cp e0 s) t)" unfolding conc_ok_def by blast
  with assms show ?thesis by (auto simp: conc_ok_def with_enforcer_def)
qed

text \<open>The policies of installs that are under way and past their first check.\<close>

definition installing :: "('p, 'r, 'c, 'k) conc \<Rightarrow> policy set" where
  "installing s = {p. \<exists>t cp pc. cs_threads s t = Applying p cp pc \<and> pc \<noteq> At_Entry}"

lemma conc_maps_from:
  assumes laws: "bpf_laws B" and rel: "serial_rel B a s" and ok: "conc_ok B R P a"
  shows "\<exists>e Q. cs_enforcer s = Some e \<and> maps_from R Q (maps_view B e) \<and> Q \<subseteq> P \<union> installing s \<and> (\<forall>p \<in> Q. expressible p)"
  using rel
proof (cases rule: serial_rel_cases)
  case free
  with ok obtain e where "cs_enforcer s = Some e" "kernel_from B R P e" "\<forall>p \<in> P. expressible p" by (auto simp: conc_ok_def)
  then show ?thesis unfolding kernel_from_def maps_from_def by (intro exI [of _ e] exI [of _ P]) blast
next
  case (held t p cp pc e0 e)
  from conc_ok_rewind [OF ok [unfolded held(5)]] have p: "expressible p" "compile R p = Inr cp" and k: "kernel_from B R P e0"
    by simp_all
  have exP: "\<forall>p \<in> P. expressible p" using ok by (simp add: conc_ok_def)
  note at = at_view_reaches [OF laws held(4)]
  show ?thesis
  proof (cases "pc = At_Entry")
    case True
    with at have "maps_view B e = maps_view B e0" by simp
    with k held(3) exP show ?thesis unfolding kernel_from_def maps_from_def by (intro exI [of _ e] exI [of _ P]) auto
  next
    case False
    let ?Q = "insert p P"
    note b = at_view_between [OF at]
    from kernel_from_mono [OF k subset_insertI] have k': "kernel_from B R ?Q e0" .
    then have v0: "from_policy R ?Q kv_protected (maps_view B e0)" "from_policy R ?Q kv_rules (maps_view B e0)"
      by (simp_all add: kernel_from_def)
    have "\<exists>p \<in> ?Q. \<exists>cp. compile R p = Inr cp \<and> maps_view B e = installed_view cp" if "fg_enabled (maps_view B e)"
    proof -
      from b that paused_disabled have "maps_view B e = maps_view B e0 \<or> maps_view B e = installed_view cp"
        unfolding between_def by metis
      with that k' p show ?thesis unfolding kernel_from_def by (metis insertI1)
    qed
    moreover have "p \<in> installing s" using held(2) False by (auto simp: installing_def)
    ultimately show ?thesis using between_from [OF b p(2) insertI1] v0 held(3) exP p(1)
      by (intro exI [of _ e] exI [of _ ?Q]) (auto simp: maps_from_def)
  qed
qed

lemma free_step_installing: "free_step B env L K R fmt l s s' \<Longrightarrow> installing s' \<subseteq> installing s"
  by (induction rule: free_step.cases) (auto simp: installing_def split: if_splits)

lemma conc_step_installing:
  assumes "conc_step B env L K R fmt l s s'"
  shows "installing s' \<subseteq> installing s \<union> installs [l]"
  using assms
proof cases
  case conc_free
  from free_step_installing [OF this] show ?thesis by blast
next
  case (conc_unlock t p cp r)
  then show ?thesis by (cases r) (auto simp: installing_def split: if_splits)
qed (auto simp: installing_def installs_def split: if_splits)

lemma conc_runs_installing:
  "runs (conc_step B env L K R fmt) ls s s' \<Longrightarrow> lock_free s \<Longrightarrow> installing s' \<subseteq> installs ls"
proof (induction rule: runs.induct)
  case (runs_nil s)
  then have "cs_threads s t \<noteq> Applying p cp pc" for t p cp pc
    unfolding lock_free_def by (metis is_applying.simps(1))
  then show ?case by (simp add: installing_def)
next
  case (runs_snoc ls s s' l s'')
  with conc_step_installing [OF runs_snoc.hyps(2)] show ?case by auto
qed

lemma run_maps_from:
  assumes "bpf_laws B" and "runs (conc_step B env L K R fmt) ls s s'" and "lock_free s" and "conc_ok B R P s"
    and "cs_enforcer s' = Some e"
  shows "\<exists>Q \<subseteq> P \<union> installs ls. maps_from R Q (maps_view B e) \<and> (\<forall>p \<in> Q. expressible p)"
proof -
  from conc_runs_ok [OF assms(1-4)] obtain a Q where "serial_rel B a s'" "Q \<subseteq> P \<union> installs ls" "conc_ok B R Q a" by blast
  with conc_maps_from [OF assms(1) this(1,3)] conc_runs_installing [OF assms(2,3)] assms(5) show ?thesis by fastforce
qed

text \<open>What an entry of the maps says of the policies.\<close>

lemma maps_from_protected:
  assumes "maps_from R P v" and "kv_protected v (to_abi (resolved_id R path)) \<noteq> None"
  shows "\<exists>p \<in> P. file_protected R p path"
proof -
  from assms obtain p cp where p: "p \<in> P" "compile R p = Inr cp"
    and le: "kv_protected v \<subseteq>\<^sub>m kv_protected (installed_view cp)"
    by (auto simp: maps_from_def from_policy_def)
  from le assms(2) have "kv_protected (installed_view cp) (to_abi (resolved_id R path)) \<noteq> None"
    unfolding map_le_def by (metis domI not_None_eq)
  with installed_protected [OF p(2)] p(1) show ?thesis by blast
qed

lemma maps_from_rule:
  assumes "maps_from R P v" and "\<forall>p \<in> P. expressible p"
    and rule: "kv_rules v \<lparr>key_res = to_abi (resolved_id R path), key_proc = to_abi (resolved_id R exe)\<rparr> = Some rule"
      "val_action rule = FG_ACTION_ALLOW"
  shows "\<exists>p \<in> P. \<exists>r. file_rule R p path exe = Some r \<and> rule_action r = Allow"
proof -
  let ?key = "\<lparr>key_res = to_abi (resolved_id R path), key_proc = to_abi (resolved_id R exe)\<rparr>"
  from assms(1) rule(1) obtain p cp where p: "p \<in> P" "compile R p = Inr cp"
    and le: "kv_rules v \<subseteq>\<^sub>m kv_rules (installed_view cp)"
    by (auto simp: maps_from_def from_policy_def)
  from le rule(1) have "kv_rules (installed_view cp) ?key = Some rule" by (auto simp: map_le_def dom_def)
  with installed_rule [OF p(2), of path exe] obtain r k where
    r: "file_rule R p path exe = Some r" "r \<in> set (pol_rules p)" "rule = rule_val (compiled_rule_of R k r)"
    by (auto split: option.splits)
  have "named_action (rule_action r)" using p(1) assms(2) r(2) by (simp add: expressible_def)
  with rule(2) r have "rule_action r = Allow" by (simp add: rule_val_def compiled_rule_of_def named_action_code)
  with p(1) r(1) show ?thesis by blast
qed

section \<open>The mutex is always given back\<close>

lemma reaches_continue:
  assumes "bpf_laws B" and "apply_reaches B cp (At_Entry, e0) (pc, e)"
  shows "\<exists>n r e'. (apply_step B cp ^^ n) (pc, e) = (Returned r, e')"
proof -
  obtain r e' where "linux_apply_policy B e0 cp = Some (r, e')" using linux_apply_returns [OF assms(1)] by blast
  from linux_apply_reaches [OF this] assms(2) obtain N k where
    N: "(apply_step B cp ^^ N) (At_Entry, e0) = (Returned r, e')" and k: "(apply_step B cp ^^ k) (At_Entry, e0) = (pc, e)"
    by (auto simp: apply_reaches_def apply_after_def)
  show ?thesis
  proof (cases "k \<le> N")
    case True
    note funpow_split [OF True, of "apply_step B cp" "(At_Entry, e0)"]
    with N k show ?thesis by (intro exI [of _ "N - k"] exI [of _ r] exI [of _ e']) simp
  next
    case False
    then have "N \<le> k" by simp
    note funpow_split [OF this, of "apply_step B cp" "(At_Entry, e0)"]
    with N k after_Returned [of B cp "k - N" r e'] have "(pc, e) = (Returned r, e')" by (simp add: apply_after_def)
    then show ?thesis by (intro exI [of _ 0] exI [of _ r] exI [of _ e']) simp
  qed
qed

lemma owner_runs:
  assumes "(apply_step B cp ^^ n) (pc, e) = (Returned r, e')" and "cs_threads s t = Applying p cp pc"
    and "cs_enforcer s = Some e"
  shows "\<exists>ls s'. runs (conc_step B env L K R fmt) ls s s' \<and> (\<forall>l \<in> set ls. \<exists>pc. l = Map_Call t p pc) \<and>
    cs_threads s' t = Applying p cp (Returned r) \<and> cs_holder s' = cs_holder s \<and> cs_enforcer s' = Some e' \<and>
    (\<forall>u. u \<noteq> t \<longrightarrow> cs_threads s' u = cs_threads s u)"
  using assms
proof (induction n arbitrary: pc e s)
  case 0
  then show ?case by (intro exI [of _ "[]"] exI [of _ s]) (auto intro: runs_nil)
next
  case (Suc n)
  show ?case
  proof (cases "\<exists>q. pc = Returned q")
    case True
    then obtain q where "pc = Returned q" by blast
    with Suc.prems(1) after_Returned [of B cp "Suc n" q e] have "q = r" "e' = e" by (simp_all add: apply_after_def del: funpow.simps)
    with Suc.prems \<open>pc = Returned q\<close> show ?thesis by (intro exI [of _ "[]"] exI [of _ s]) (auto intro: runs_nil)
  next
    case False
    obtain pc1 e1 where st: "apply_step B cp (pc, e) = (pc1, e1)" by fastforce
    let ?s1 = "set_thread t (Applying p cp pc1) (set_enforcer e1 s)"
    have one: "conc_step B env L K R fmt (Map_Call t p pc) s ?s1"
      using False Suc.prems(2,3) st by (auto intro: conc_map)
    have "(apply_step B cp ^^ n) (pc1, e1) = (Returned r, e')" using Suc.prems(1) st by (simp add: funpow_swap1)
    from Suc.IH [OF this, of ?s1] obtain ls s' where "runs (conc_step B env L K R fmt) ls ?s1 s'"
      "\<forall>l \<in> set ls. \<exists>pc. l = Map_Call t p pc" "cs_threads s' t = Applying p cp (Returned r)" "cs_holder s' = cs_holder s"
      "cs_enforcer s' = Some e'" "\<forall>u. u \<noteq> t \<longrightarrow> cs_threads s' u = cs_threads s u" by (auto split: if_splits)
    with runs_append [OF this(1) runs_one [of "conc_step B env L K R fmt", OF one]] show ?thesis
      by (intro exI [of _ "Map_Call t p pc # ls"] exI [of _ s']) auto
  qed
qed

section \<open>A run for the witnesses\<close>

text \<open>Two threads load the same document; the first has just taken the mutex.\<close>

definition demo_conc :: "((fileguard_file_id \<times> fileguard_protected_val) list,
    (fileguard_rule_key \<times> fileguard_rule_val) list, fileguard_config, unit) conc" where
  "demo_conc = \<lparr>cs_system = fresh_system, cs_holder = None, cs_threads = (\<lambda>_. Idle)\<rparr>"

definition demo_locked :: "((fileguard_file_id \<times> fileguard_protected_val) list,
    (fileguard_rule_key \<times> fileguard_rule_val) list, fileguard_config, unit) conc" where
  "demo_locked = demo_conc\<lparr>cs_holder := Some 0,
     cs_threads := (\<lambda>_. Idle)(0 := Applying small_policy (demo_compiled 300) At_Entry,
       1 := Waiting small_policy (demo_compiled 300))\<rparr>"

definition demo_labels :: "conc_label list" where
  "demo_labels = [Called 0 small_policy, Called 1 small_policy, Prepared 0 small_policy (demo_compiled 300),
     Prepared 1 small_policy (demo_compiled 300), Locked 0]"

abbreviation "demo_conc_step \<equiv> conc_step demo_sys demo_env small_lib no_clients demo_resolver demo_time"

lemma demo_conc_lock_free: "lock_free demo_conc"
  by (simp add: lock_free_def demo_conc_def)

lemma demo_conc_ok: "conc_ok demo_sys demo_resolver {} demo_conc"
  by (simp add: conc_ok_def demo_conc_def fresh_system_def controller_with_def kernel_from_def from_policy_def
      view_simps fresh_enforcer_def demo_enforcer_def demo_sys_def alist_ops_def fg_enabled_def demo_conf_def initial_status_def)

lemma demo_conc_enforces: "enforces demo_sys R None (cs_controller demo_conc)"
  using fresh_enforces by (simp add: demo_conc_def)

lemma demo_run_locked: "runs demo_conc_step demo_labels demo_conc demo_locked"
proof -
  let ?p = small_policy and ?cp = "demo_compiled 300"
  let ?s1 = "set_thread 0 (Entered ?p) demo_conc" and ?s2 = "set_thread 1 (Entered ?p) (set_thread 0 (Entered ?p) demo_conc)"
  let ?s3 = "set_thread 0 (Waiting ?p ?cp) ?s2"
  let ?s4 = "set_thread 1 (Waiting ?p ?cp) ?s3"
  have e: "cs_enforcer demo_conc = Some fresh_enforcer" by (simp add: demo_conc_def fresh_system_def controller_with_def)
  have 1: "demo_conc_step (Called 0 ?p) demo_conc ?s1"
    by (rule conc_free [OF free_call [OF _ small_lib_parses]]) (simp add: demo_conc_def)
  have 2: "demo_conc_step (Called 1 ?p) ?s1 ?s2"
    by (rule conc_free [OF free_call [OF _ small_lib_parses]]) (simp add: demo_conc_def)
  have 3: "demo_conc_step (Prepared 0 ?p ?cp) ?s2 ?s3"
    by (intro conc_free free_prepare) (simp_all add: small_policy_valid small_policy_compiles)
  have 4: "demo_conc_step (Prepared 1 ?p ?cp) ?s3 ?s4"
    by (intro conc_free free_prepare) (simp_all add: small_policy_valid small_policy_compiles)
  have 5: "demo_conc_step (Locked 0) ?s4 (set_holder (Some 0) (set_thread 0 (Applying ?p ?cp At_Entry) ?s4))"
    by (rule conc_lock [where e = fresh_enforcer]) (simp_all add: e, simp add: demo_conc_def)
  have 6: "set_holder (Some 0) (set_thread 0 (Applying ?p ?cp At_Entry) ?s4) = demo_locked"
    by (rule conc.equality) (simp_all add: demo_locked_def demo_conc_def fun_eq_iff)
  note more = runs_snoc [where step = demo_conc_step]
  from more [OF more [OF more [OF more [OF runs_one [of demo_conc_step, OF 1] 2] 3] 4] 5]
  show ?thesis unfolding demo_labels_def 6 by simp
qed

lemma demo_run_loaded:
  "\<exists>ls s e. runs demo_conc_step (demo_labels @ ls) demo_conc s \<and> Unlocked 0 small_policy (Inr ()) \<in> set ls \<and> lock_free s \<and>
     cs_enforcer s = Some e \<and> linux_apply_policy demo_sys fresh_enforcer (demo_compiled 300) = Some (Inr (), e)"
proof -
  from fresh_apply obtain e where e: "linux_apply_policy demo_sys fresh_enforcer (demo_compiled 300) = Some (Inr (), e)" ..
  from linux_apply_reaches [OF this] obtain n where
    n: "(apply_step demo_sys (demo_compiled 300) ^^ n) (At_Entry, fresh_enforcer) = (Returned (Inr ()), e)"
    by (auto simp: apply_reaches_def apply_after_def)
  have "cs_threads demo_locked 0 = Applying small_policy (demo_compiled 300) At_Entry"
    "cs_enforcer demo_locked = Some fresh_enforcer"
    by (simp_all add: demo_locked_def demo_conc_def fresh_system_def controller_with_def)
  from owner_runs [OF n this, of demo_env small_lib no_clients demo_resolver demo_time] obtain own s1 where
    own: "runs demo_conc_step own demo_locked s1" and t: "cs_threads s1 0 = Applying small_policy (demo_compiled 300) (Returned (Inr ()))"
    and e1: "cs_enforcer s1 = Some e" and others: "\<forall>u. u \<noteq> 0 \<longrightarrow> cs_threads s1 u = cs_threads demo_locked u" by metis
  from runs_append [OF runs_snoc [OF own conc_unlock [OF t]] demo_run_locked] e e1 others show ?thesis
    by (intro exI [of _ "own @ [Unlocked 0 small_policy (Inr ())]"] exI
        [of _ "set_holder None (set_thread 0 (after_apply small_policy (demo_compiled 300) (Inr ())) s1)"] exI [of _ e])
       (auto simp: lock_free_def demo_locked_def)
qed

section \<open>Properties\<close>

text \<open>C5. Loads are serializable: any run of any number of loading threads, with opens, polling,
  consuming, status requests and the shutdown's detach in between, that starts and ends outside
  \<open>apply_policy\<close> is a run of the specification, in which \<open>apply_policy\<close> is a single step, with the
  same visible steps in the same order and the same final state.\<close>

theorem loads_serialize:
  assumes "bpf_laws B" and "runs (conc_step B env L K R fmt) ls s s'" and "lock_free s" and "cs_holder s' = None"
  shows "runs (atomic_step B env L K R fmt) (filter visible ls) s s'"
  using loads_serial [OF assms(1-3)] assms(4) by (auto simp: serial_rel_def)

theorem loads_serialize_witness:
  "\<exists>ls s. Locked 0 \<in> set ls \<and> Unlocked 0 small_policy (Inr ()) \<in> set ls \<and> runs demo_conc_step ls demo_conc s \<and>
     runs (atomic_step demo_sys demo_env small_lib no_clients demo_resolver demo_time) (filter visible ls) demo_conc s"
proof -
  from demo_run_loaded obtain ls s where run: "runs demo_conc_step (demo_labels @ ls) demo_conc s"
    and "Unlocked 0 small_policy (Inr ()) \<in> set ls" and "lock_free s" by blast
  with loads_serialize [OF demo_sys_laws run demo_conc_lock_free] show ?thesis
    by (intro exI [of _ "demo_labels @ ls"] exI [of _ s]) (simp add: lock_free_def, simp add: demo_labels_def)
qed

text \<open>C7. An open whose three map lookups fall to three moments of a run, whatever loads are going on
  and whatever links the file system has: it is denied only when some policy protects the opened file,
  and a mediated open is allowed only when the rule of some policy for this file and executable is an
  ALLOW; in both cases the policy was in force at the start or its install had begun by the moment of
  the lookup. The race of \<open>update_race_denies\<close> can deny what both policies allow, but it grants
  nothing by itself.\<close>

theorem straddling_open_sound:
  assumes "bpf_laws B" and "lock_free s" and "conc_ok B R P s"
    and "runs (conc_step B env L K R fmt) l1 s s1" and "runs (conc_step B env L K R fmt) l2 s1 s2"
    and "runs (conc_step B env L K R fmt) l3 s2 s3"
    and "cs_enforcer s1 = Some e1" and "cs_enforcer s2 = Some e2" and "cs_enforcer s3 = Some e3"
    and "resolves R path"
    and "opened_id f = to_abi (resolved_id R path)" and "exe_id ctx = to_abi (resolved_id R exe)"
    and "hook_run ctx f (maps_view B e1) (maps_view B e2) (maps_view B e3) = Hook_Returned ret sub"
  shows "if ret = 0
    then \<not> fg_enabled (maps_view B e1) \<or> kv_protected (maps_view B e2) (opened_id f) = None \<or>
      (\<exists>p \<in> P \<union> installs (l1 @ l2 @ l3). \<exists>r. file_rule R p path exe = Some r \<and> rule_action r = Allow)
    else ret = - EACCES \<and> fg_enabled (maps_view B e1) \<and>
      (\<exists>p \<in> P \<union> installs (l1 @ l2). file_protected R p path)"
proof -
  let ?v = "straddled (maps_view B e1) (maps_view B e2) (maps_view B e3)"
  have ret: "ret = fst (fg_file_open ?v ctx f)" using assms(13) by (simp add: hook_run_eq split: prod.splits)
  note r12 = runs_append [OF assms(5,4)]
  have r123: "runs (conc_step B env L K R fmt) (l1 @ l2 @ l3) s s3" using runs_append [OF assms(6) r12] by simp
  from run_maps_from [OF assms(1) r12 assms(2,3,8)] obtain Q2 where
    m2: "Q2 \<subseteq> P \<union> installs (l1 @ l2)" "maps_from R Q2 (maps_view B e2)" by blast
  from run_maps_from [OF assms(1) r123 assms(2,3,9)] obtain Q3 where
    m3: "Q3 \<subseteq> P \<union> installs (l1 @ l2 @ l3)" "maps_from R Q3 (maps_view B e3)" "\<forall>p \<in> Q3. expressible p" by blast
  have ino: "abi_ino (opened_id f) \<noteq> 0"
    using assms(10,11) by (auto simp: resolves_iff file_id_valid_def to_abi_def)
  show ?thesis
  proof (cases "ret = 0")
    case True
    show ?thesis
    proof (cases "mediated ?v f")
      case False
      with True ino show ?thesis by (auto simp: mediated_def) (simp add: straddled_def)
    next
      case med: True
      with True ret obtain rule where "kv_rules (maps_view B e3) \<lparr>key_res = opened_id f, key_proc = exe_id ctx\<rparr> = Some rule"
        "val_action rule = FG_ACTION_ALLOW"
        by (auto simp: fg_file_open_ret straddled_def [of "maps_view B e1"] split: if_splits)
      with maps_from_rule [OF m3(2,3), of path exe rule] assms(11,12) have
        "\<exists>p \<in> Q3. \<exists>r. file_rule R p path exe = Some r \<and> rule_action r = Allow" by simp
      with m3(1) True show ?thesis by auto
    qed
  next
    case False
    then have deny: "ret = - EACCES" and med: "mediated ?v f" using ret by (auto simp: fg_file_open_ret split: if_splits)
    from med have en: "fg_enabled (maps_view B e1)" by (simp add: mediated_def)
    from med have "kv_protected (maps_view B e2) (to_abi (resolved_id R path)) \<noteq> None"
      by (simp add: mediated_def straddled_def [of "maps_view B e1"] assms(11))
    from maps_from_protected [OF m2(2) this] m2(1) deny en show ?thesis by auto
  qed
qed

theorem straddling_open_sound_witness:
  "\<exists>ls s e sub. runs demo_conc_step ls demo_conc s \<and> cs_enforcer s = Some e \<and>
     hook_run (demo_ctx 100 0) (demo_file 100) (maps_view demo_sys e) (maps_view demo_sys e) (maps_view demo_sys e)
       = Hook_Returned (- EACCES) sub \<and>
     (\<exists>p \<in> installs ls. file_protected demo_resolver p ''/protected/secret.txt'')"
proof -
  let ?path = "''/protected/secret.txt''" and ?f = "demo_file 100" and ?ctx = "demo_ctx 100 0"
  from demo_run_loaded obtain ls s e where run: "runs demo_conc_step (demo_labels @ ls) demo_conc s"
    and e: "cs_enforcer s = Some e" and ap: "linux_apply_policy demo_sys fresh_enforcer (demo_compiled 300) = Some (Inr (), e)"
    by blast
  have v: "maps_view demo_sys e = installed_view (demo_compiled 300)" using linux_apply_Inr [OF demo_sys_laws ap] by simp
  have ids: "resolves demo_resolver ?path" "opened_id ?f = to_abi (resolved_id demo_resolver ?path)"
    "exe_id ?ctx = to_abi (resolved_id demo_resolver ?path)"
    by (simp_all add: resolves_def file_id_valid_def demo_file_id demo_exe_id resolved_id_def demo_resolver_def
        to_abi_def demo_fid_def)
  obtain ret sub where fo: "fg_file_open (maps_view demo_sys e) ?ctx ?f = (ret, sub)" by fastforce
  then have hook: "hook_run ?ctx ?f (maps_view demo_sys e) (maps_view demo_sys e) (maps_view demo_sys e) = Hook_Returned ret sub"
    by (simp add: hook_run_atomic)
  have "ret = fst (fg_file_open (installed_view (demo_compiled 300)) ?ctx ?f)" using fo v by simp
  then have ret: "ret = - EACCES"
    by (simp add: fg_file_open_ret mediated_def fg_enabled_def demo_file_id demo_exe_id)
       (simp add: installed_view_def demo_compiled_def demo_fid_def to_abi_def rule_key_def)
  from straddling_open_sound [OF demo_sys_laws demo_conc_lock_free demo_conc_ok run runs_nil runs_nil e e e ids hook] ret run e hook show ?thesis
    by (intro exI [of _ "demo_labels @ ls"] exI [of _ s] exI [of _ e] exI [of _ sub]) simp
qed

inductive_cases free_statusE: "free_step B env L K R fmt (Status_Read st) s s'"
inductive_cases conc_statusE: "conc_step B env L K R fmt (Status_Read st) s s'"

lemma linux_status_enforcing:
  assumes "st_enforcing (linux_status B e)" and "kernel_from B R P e"
  shows "\<exists>p \<in> P. \<exists>cp. compile R p = Inr cp \<and> st_policy_version (linux_status B e) = cp_version cp \<and>
    st_protected_count (linux_status B e) = length (cp_protected_resources cp) \<and>
    st_rule_count (linux_status B e) = length (cp_rules cp)"
proof -
  have sk: "le_skel e" using assms by (cases "le_skel e") (simp_all add: linux_status_def kernel_from_def)
  with assms obtain cfg where cfg: "mo_lookup (bs_config B) (km_config (le_maps e)) 0 = Some cfg"
    by (cases "mo_lookup (bs_config B) (km_config (le_maps e)) 0")
       (auto simp: linux_status_def kernel_from_def view_simps Let_def)
  with assms(1) sk have "fg_enabled (maps_view B e)" by (simp add: linux_status_def fg_enabled_def view_simps)
  with assms(2) obtain p cp where p: "p \<in> P" "compile R p = Inr cp" "maps_view B e = installed_view cp"
    "st_protected_count (le_status e) = length (cp_protected_resources cp)" "st_rule_count (le_status e) = length (cp_rules cp)"
    by (auto simp: kernel_from_def)
  from p(3) cfg have "Some cfg = kv_config (installed_view cp)" by (metis view_simps(1))
  with sk cfg p show ?thesis by (intro bexI [OF _ p(1)] exI [of _ cp]) (auto simp: linux_status_def installed_view_parts)
qed

lemma compile_counts:
  assumes "compile R p = Inr cp"
  shows "cp_version cp = pol_version p \<and> length (cp_protected_resources cp) = length (pol_resources p) \<and>
    length (cp_rules cp) = length (pol_rules p)"
proof -
  have "cp = compiled_form R p" using assms compile_ok [OF compile_InrD [OF assms]] by simp
  then show ?thesis by (simp add: compiled_form_def del: upt_Suc)
qed

text \<open>C8. A status report is never torn: whatever loads are going on, a status that says enforcing
  names the version and the counts of one policy that was in force at the start or whose install had begun.\<close>

theorem status_never_torn:
  assumes "bpf_laws B" and "lock_free s" and "conc_ok B R P s"
    and "runs (conc_step B env L K R fmt) ls s s'" and "Status_Read st \<in> set ls" and "st_enforcing st"
  shows "\<exists>p \<in> P \<union> installs ls. st_policy_version st = pol_version p \<and>
    st_protected_count st = length (pol_resources p) \<and> st_rule_count st = length (pol_rules p)"
proof -
  from runs_split_at [OF assms(4,5)] obtain l1 l2 s1 s2 where ls: "ls = l1 @ Status_Read st # l2"
    and r1: "runs (conc_step B env L K R fmt) l1 s s1" and "conc_step B env L K R fmt (Status_Read st) s1 s2" by blast
  then have free: "cs_holder s1 = None" and st: "st = controller_status (linux_ops B env) (cs_controller s1)"
    by (auto elim!: conc_statusE free_statusE)
  from conc_runs_ok [OF assms(1) r1 assms(2,3)] free obtain Q where Q: "Q \<subseteq> P \<union> installs l1" "conc_ok B R Q s1"
    by (auto simp: serial_rel_def)
  then obtain e where "cs_enforcer s1 = Some e" "kernel_from B R Q e" by (auto simp: conc_ok_def)
  moreover have lst: "st = linux_status B e" if "cs_enforcer s1 = Some e" for e
    using that by (simp add: st controller_status_def linux_ops_def backend_ops_def)
  ultimately obtain p cp where p: "p \<in> Q" "compile R p = Inr cp"
    "st_policy_version st = cp_version cp" "st_protected_count st = length (cp_protected_resources cp)"
    "st_rule_count st = length (cp_rules cp)"
    using linux_status_enforcing [of B e R Q] assms(6) by auto
  with compile_counts [OF p(2)] Q(1) show ?thesis
    by (intro bexI [of _ p]) (auto simp: ls)
qed

theorem status_never_torn_witness:
  "\<exists>ls s st. runs demo_conc_step ls demo_conc s \<and> Status_Read st \<in> set ls \<and> st_enforcing st \<and>
     (\<exists>p \<in> installs ls. st_policy_version st = pol_version p \<and> st_rule_count st = length (pol_rules p))"
proof -
  from demo_run_loaded obtain ls s e where run: "runs demo_conc_step (demo_labels @ ls) demo_conc s"
    and e: "cs_enforcer s = Some e" and ap: "linux_apply_policy demo_sys fresh_enforcer (demo_compiled 300) = Some (Inr (), e)"
    and free: "lock_free s" by blast
  let ?st = "controller_status (linux_ops demo_sys demo_env) (cs_controller s)"
  have "cs_holder s = None" using free by (simp add: lock_free_def)
  from runs_snoc [where step = demo_conc_step, OF run conc_free [OF free_status [OF this]]]
  have run': "runs demo_conc_step ((demo_labels @ ls) @ [Status_Read ?st]) demo_conc s" .
  have en: "st_enforcing ?st"
    using linux_status_Inr [OF demo_sys_laws ap] e by (simp add: controller_status_def linux_ops_def backend_ops_def)
  have "Status_Read ?st \<in> set ((demo_labels @ ls) @ [Status_Read ?st])" by simp
  from status_never_torn [OF demo_sys_laws demo_conc_lock_free demo_conc_ok run' this en] run' en show ?thesis
    by (intro exI [of _ "(demo_labels @ ls) @ [Status_Read ?st]"] exI [of _ s] exI [of _ ?st]) auto
qed

text \<open>C10. The mutex is always given back: whenever a thread holds \<open>state_mu_\<close>, finitely many steps of
  that thread alone, none of which can be blocked, bring its \<open>apply_policy\<close> to its end and release the
  mutex, and no other thread has moved.\<close>

theorem mutex_released:
  assumes "bpf_laws B" and "runs (conc_step B env L K R fmt) ls s s'" and "lock_free s" and "cs_holder s' = Some t"
  shows "\<exists>own p r s''. runs (conc_step B env L K R fmt) (own @ [Unlocked t p r]) s' s'' \<and>
    list_all (\<lambda>l. \<exists>pc. l = Map_Call t p pc) own \<and> lock_free s'' \<and> (\<forall>u. u \<noteq> t \<longrightarrow> cs_threads s'' u = cs_threads s' u)"
proof -
  from loads_serial [OF assms(1-3)] obtain a where rel: "serial_rel B a s'" by blast
  from rel obtain p cp pc e0 e where h: "cs_threads s' t = Applying p cp pc" "cs_enforcer s' = Some e"
    "apply_reaches B cp (At_Entry, e0) (pc, e)" "\<forall>u. is_applying (cs_threads s' u) \<longrightarrow> u = t"
    using assms(4) by (cases rule: serial_rel_cases) auto
  from reaches_continue [OF assms(1) h(3)] obtain n r e' where "(apply_step B cp ^^ n) (pc, e) = (Returned r, e')" by blast
  from owner_runs [OF this h(1,2)] obtain own s1 where run: "runs (conc_step B env L K R fmt) own s' s1"
    and own: "\<forall>l \<in> set own. \<exists>pc. l = Map_Call t p pc" and t1: "cs_threads s1 t = Applying p cp (Returned r)"
    and others: "\<forall>u. u \<noteq> t \<longrightarrow> cs_threads s1 u = cs_threads s' u" by metis
  let ?s2 = "set_holder None (set_thread t (after_apply p cp r) s1)"
  have "\<not> is_applying (after_apply p cp r)" by (cases r) simp_all
  with h(4) others have "lock_free ?s2" by (auto simp: lock_free_def)
  with runs_snoc [OF run conc_unlock [OF t1]] own others show ?thesis
    by (intro exI [of _ own] exI [of _ p] exI [of _ r] exI [of _ ?s2]) (auto simp: list_all_iff)
qed

theorem mutex_released_witness:
  "\<exists>own p r s. runs demo_conc_step (own @ [Unlocked 0 p r]) demo_locked s \<and> lock_free s \<and>
     cs_threads s 1 = Waiting small_policy (demo_compiled 300)"
proof -
  have "cs_holder demo_locked = Some 0" by (simp add: demo_locked_def)
  from mutex_released [OF demo_sys_laws demo_run_locked demo_conc_lock_free this] obtain own p r s where
    "runs demo_conc_step (own @ [Unlocked 0 p r]) demo_locked s" "lock_free s"
    "\<forall>u. u \<noteq> 0 \<longrightarrow> cs_threads s u = cs_threads demo_locked u" by blast
  then show ?thesis by (intro exI [of _ own] exI [of _ p] exI [of _ r] exI [of _ s]) (simp add: demo_locked_def)
qed

end
