(* ===== verification/Load_Monitor.thy ===== *)
theory Load_Monitor
  imports Load_Window
begin

text \<open>
  The reference monitor of \<open>System\<close> once more, for the implementation of \<open>Load_Concurrency\<close>, where
  loads interleave at single libbpf calls: at every moment the kernel enforces exactly the monitor's
  policy, and the monitor changes at two calls only, the pause and the enabling write of an install
  (and when the program is detached).
\<close>

section \<open>The kernel's monitor\<close>

datatype kernel_label =
    Asked string string i32 "fileguard_event option"
  | Off
  | On policy

inductive kernel_monitor :: "file_resolver \<Rightarrow> kernel_label \<Rightarrow> policy option \<Rightarrow> policy option \<Rightarrow> bool" for R where
  kernel_asked: "ret = (if monitor_allows R m path exe then 0 else - EACCES) \<Longrightarrow>
    pred_option (event_tells R m path ret) sub \<Longrightarrow> kernel_monitor R (Asked path exe ret sub) m m"
| kernel_off: "kernel_monitor R Off m None"
| kernel_on: "kernel_monitor R (On p) m (Some p)"

text \<open>What a step may do to the monitor.\<close>

fun kernel_trace :: "conc_label \<Rightarrow> kernel_label list \<Rightarrow> bool" where
  "kernel_trace (System_Step (Opened path exe ret sub)) ks = (ks = [Asked path exe ret sub])"
| "kernel_trace (Map_Call t p At_Pause) ks = (ks = [] \<or> ks = [Off])"
| "kernel_trace (Map_Call t p At_Enable) ks = (ks = [] \<or> ks = [On p])"
| "kernel_trace Detached ks = (ks = [Off])"
| "kernel_trace l ks = (ks = [])"

section \<open>One call of an install\<close>

lemma apply_step_view:
  assumes "bpf_laws B" and "at_view cp v0 pc (maps_view B e)" and "apply_step B cp (pc, e) = (pc', e')"
  shows "maps_view B e' = maps_view B e \<or> paused (maps_view B e) \<and> paused (maps_view B e') \<or>
    pc = At_Pause \<and> paused (maps_view B e') \<or>
    pc = At_Enable \<and> paused (maps_view B e) \<and> maps_view B e' = installed_view cp"
proof (cases pc)
  case At_Pause
  with at_view_pause [of B cp e pc' e'] assms show ?thesis
    by (auto simp: bpf_laws_def split: prod.splits if_splits)
next
  case At_Enable
  obtain ret errno m where s: "set_config B (zero_config\<lparr>conf_enabled := 1, conf_policy_version := cp_version cp\<rparr>)
      (le_maps e) = ((ret, errno), m)" by (metis prod.exhaust)
  have "config_map_laws (bs_config B)" using assms(1) by (simp add: bpf_laws_def)
  from set_config_view [OF this s] At_Enable assms(2,3) s at_view_step [OF assms] show ?thesis
    by (cases "ret < 0") (auto simp: paused_def)
next
  case (At_Protected ids)
  with assms show ?thesis by (cases ids) (auto simp: paused_def view_simps split: prod.splits)
next
  case (At_Rules rs)
  with assms show ?thesis by (cases rs) (auto simp: paused_def view_simps split: prod.splits)
qed (use assms in \<open>auto simp: paused_def view_simps elim!: at_view.elims split: prod.splits if_splits\<close>)

lemma reaches_skel:
  assumes "apply_reaches B cp (At_Entry, e0) (pc, e)"
  shows "pc = At_Entry \<or> (\<exists>r. pc = Returned r) \<or> le_skel e"
proof -
  from assms obtain n where "(apply_step B cp ^^ n) (At_Entry, e0) = (pc, e)"
    by (auto simp: apply_reaches_def apply_after_def)
  then show ?thesis
  proof (induction n arbitrary: pc e)
    case (Suc n)
    obtain pc1 e1 where st: "(apply_step B cp ^^ n) (At_Entry, e0) = (pc1, e1)" by fastforce
    with Suc.prems have step: "apply_step B cp (pc1, e1) = (pc, e)" by simp
    from Suc.IH [OF st] apply_step_frame [OF step] step show ?case by (auto split: if_splits)
  qed simp
qed

section \<open>The simulation\<close>

lemma enforces_maps:
  assumes "enforces B R m c" and "ct_enforcer c = Some e" and "ct_enforcer c' = Some e'"
    and "maps_view B e' = maps_view B e" and "le_skel e' = le_skel e"
  shows "enforces B R m c'"
  using assms by (auto simp: enforces_def split: option.splits)

lemma enforces_paused: "ct_enforcer c = Some e \<Longrightarrow> paused (maps_view B e) \<Longrightarrow> enforces B R None c"
  by (simp add: enforces_def paused_disabled)

lemma paused_enforces:
  "enforces B R m c \<Longrightarrow> ct_enforcer c = Some e \<Longrightarrow> paused (maps_view B e) \<Longrightarrow> m = None"
  by (auto simp: enforces_def paused_def installed_view_parts zero_config_def split: option.splits)

text \<open>Where an install goes on when the monitor switched.\<close>

fun after_switch :: "apply_pc \<Rightarrow> apply_pc" where
  "after_switch At_Pause = At_First_Protected"
| "after_switch pc = At_Status"

lemma switched_enable:
  assumes "bpf_laws B" and "apply_step B cp (At_Enable, e) = (pc', e')" and "maps_view B e' \<noteq> maps_view B e"
  shows "pc' = At_Status"
proof -
  obtain ret errno m where s: "set_config B (zero_config\<lparr>conf_enabled := 1, conf_policy_version := cp_version cp\<rparr>)
      (le_maps e) = ((ret, errno), m)" by (metis prod.exhaust)
  have "config_map_laws (bs_config B)" using assms(1) by (simp add: bpf_laws_def)
  from set_config_view [OF this s] assms(2,3) s show ?thesis by (cases "ret < 0") auto
qed

lemma switched_pause:
  assumes "bpf_laws B" and "apply_step B cp (At_Pause, e) = (pc', e')" and "maps_view B e' \<noteq> maps_view B e"
  shows "pc' = At_First_Protected"
proof -
  obtain ret errno m where s: "set_config B (zero_config\<lparr>conf_enabled := 0\<rparr>) (le_maps e) = ((ret, errno), m)"
    by (metis prod.exhaust)
  have "config_map_laws (bs_config B)" using assms(1) by (simp add: bpf_laws_def)
  from set_config_view [OF this s] assms(2,3) s show ?thesis by (cases "ret < 0") auto
qed

lemma map_call_monitored:
  assumes laws: "bpf_laws B" and m: "enforces B R m (cs_controller s)" and e: "cs_enforcer s = Some e"
    and reach: "apply_reaches B cp (At_Entry, e0) (pc, e)" and st: "apply_step B cp (pc, e) = (pc', e')"
    and p: "expressible p" "compile R p = Inr cp"
  shows "\<exists>ks m'. kernel_trace (Map_Call t p pc) ks \<and> runs (kernel_monitor R) ks m m' \<and>
    enforces B R m' (cs_controller (set_enforcer e' s)) \<and> (ks \<noteq> [] \<longrightarrow> pc' = after_switch pc)"
proof -
  let ?c = "cs_controller (set_enforcer e' s)"
  have e': "ct_enforcer ?c = Some e'" by simp
  from apply_step_frame [OF st] have sk: "le_skel e' = le_skel e" by simp
  have none: "kernel_trace (Map_Call t p pc) []" by (cases pc) simp_all
  from apply_step_view [OF laws at_view_reaches [OF laws reach] st] consider
      (same) "maps_view B e' = maps_view B e"
    | (window) "paused (maps_view B e)" "paused (maps_view B e')"
    | (pause) "pc = At_Pause" "paused (maps_view B e')" "maps_view B e' \<noteq> maps_view B e"
    | (enable) "pc = At_Enable" "maps_view B e' = installed_view cp" "maps_view B e' \<noteq> maps_view B e" by blast
  then show ?thesis
  proof cases
    case same
    with enforces_maps [OF m e e' same sk] none show ?thesis by (blast intro: runs_nil)
  next
    case window
    with paused_enforces [OF m e] enforces_paused [OF e'] none show ?thesis by (blast intro: runs_nil)
  next
    case pause
    with enforces_paused [OF e' pause(2)] runs_one [of "kernel_monitor R", OF kernel_off] switched_pause [OF laws _ pause(3)] st
    show ?thesis by (intro exI [of _ "[Off]"] exI [of _ None]) simp
  next
    case enable
    then have "le_skel e'" using reaches_skel [OF reach] sk by simp
    then have "enforces B R (Some p) ?c" using enable(2) p by (simp add: enforces_def)
    with runs_one [of "kernel_monitor R", OF kernel_on] enable(1) switched_enable [OF laws _ enable(3)] st show ?thesis
      by (intro exI [of _ "[On p]"] exI [of _ "Some p"]) simp
  qed
qed

lemma enable_off:
  assumes "bpf_laws B" and "enforces B R m (cs_controller s)" and "cs_enforcer s = Some e"
    and "apply_reaches B cp (At_Entry, e0) (At_Enable, e)"
  shows "m = None"
  using at_view_reaches [OF assms(1,4)] by (intro paused_enforces [OF assms(2,3)]) (simp add: paused_def)

lemma free_step_monitored:
  assumes "free_step B env L K R fmt l s s'" and m: "enforces B R m (cs_controller s)"
  shows "\<exists>ks m'. kernel_trace l ks \<and> runs (kernel_monitor R) ks m m' \<and> enforces B R m' (cs_controller s')"
proof -
  obtain e where e: "cs_enforcer s = Some e" using m by (auto simp: enforces_def)
  show ?thesis
    using assms(1)
  proof cases
    case (free_poll ev rest y)
    from free_poll(5) obtain ev' rest' c where y: "y = (cs_system s)\<lparr>sy_controller := c, sy_ring := rest'\<rparr>"
      and pr: "poll_record fmt ev' (cs_controller s) = Some c" by (rule sys_polledE)
    from poll_record_shape [OF pr e] obtain e' where "ct_enforcer c = Some e'" "le_maps e' = le_maps e" "le_skel e' = le_skel e"
      by auto
    with enforces_maps [OF m e, of c e'] free_poll(1,2) y show ?thesis
      by (intro exI [of _ "[]"] exI [of _ m]) (auto intro: runs_nil)
  next
    case (free_consume se y)
    from consumed_with_enforcer [OF free_consume(3)] have "ct_enforcer (sy_controller y) = Some e" using e by simp
    with enforces_maps [OF m e this] free_consume(1,2) show ?thesis
      by (intro exI [of _ "[]"] exI [of _ m]) (auto intro: runs_nil)
  next
    case (free_resolver t p cp)
    with enforces_maps [OF m e, of "load_resolver p cp (cs_controller s)" e] e show ?thesis
      by (intro exI [of _ "[]"] exI [of _ m]) (auto simp: load_resolver_def intro: runs_nil)
  next
    case (free_install t p r c)
    then have "ct_enforcer c = Some e" using e by (auto simp: load_install_def split: prod.splits)
    with enforces_maps [OF m e this] free_install(1,2) show ?thesis
      by (intro exI [of _ "[]"] exI [of _ m]) (auto intro: runs_nil)
  next
    case (free_detach e1 r e')
    then have "enforces B R None (cs_controller s')" by (auto simp: enforces_def linux_detach_def)
    with runs_one [of "kernel_monitor R", OF kernel_off] free_detach(1) show ?thesis
      by (intro exI [of _ "[Off]"] exI [of _ None]) simp
  qed (use m in \<open>auto intro!: exI [of _ m] intro: runs_nil\<close>)
qed

lemma conc_step_monitored:
  assumes laws: "bpf_laws B" and st: "conc_step B env L K R fmt l s s'"
    and rel: "serial_rel B a s" and ok: "conc_ok B R P a" and m: "enforces B R m (cs_controller s)"
  shows "\<exists>ks m'. kernel_trace l ks \<and> runs (kernel_monitor R) ks m m' \<and> enforces B R m' (cs_controller s')"
  using st
proof cases
  case conc_free
  then show ?thesis using m by (rule free_step_monitored)
next
  case (conc_open path exe ret sub y)
  from conc_open(3) obtain e f ctx where y: "y = (cs_system s)\<lparr>sy_ring := sy_ring (cs_system s) @ (case sub of None \<Rightarrow> [] | Some ev \<Rightarrow> [ev])\<rparr>"
    and o: "cs_enforcer s = Some e" "resolves R path" "resolves R exe" "opened_id f = to_abi (resolved_id R path)"
      "exe_id ctx = to_abi (resolved_id R exe)" "kernel_answer B e ctx f = (ret, sub)" by (rule sys_openedE)
  from enforces_open [OF m o] have "kernel_monitor R (Asked path exe ret sub) m m" by (blast intro: kernel_asked)
  from runs_one [of "kernel_monitor R", OF this] m conc_open(1,2) y show ?thesis
    by (intro exI [of _ "[Asked path exe ret sub]"] exI [of _ m]) simp
next
  case (conc_map t p cp pc e pc' e')
  from serial_rel_applying [OF rel conc_map(3)] obtain e0 e1 where h: "cs_enforcer s = Some e1"
    "apply_reaches B cp (At_Entry, e0) (pc, e1)" "a = rewind t p cp e0 s" .
  from conc_ok_rewind [OF ok [unfolded h(3)]] have p: "expressible p" "compile R p = Inr cp" by simp_all
  from h(1) conc_map(5) have "e1 = e" by simp
  from map_call_monitored [OF laws m conc_map(5) h(2) [unfolded this] conc_map(6) p, of t] conc_map(1,2) show ?thesis
    by auto
qed (use m in \<open>auto intro!: exI [of _ m] intro: runs_nil\<close>)

interpretation concurrent_monitor:
  simulation "conc_step B env L K R fmt" "kernel_monitor R" kernel_trace
    "\<lambda>m s. bpf_laws B \<and> (\<exists>a P. serial_rel B a s \<and> conc_ok B R P a) \<and> enforces B R m (cs_controller s)"
  for B env L K R fmt
proof
  fix l s s' m
  assume st: "conc_step B env L K R fmt l s s'"
    and rel: "bpf_laws B \<and> (\<exists>a P. serial_rel B a s \<and> conc_ok B R P a) \<and> enforces B R m (cs_controller s)"
  then obtain a P where a: "serial_rel B a s" "conc_ok B R P a" by blast
  from serial_simulation [OF _ st a(1)] rel obtain a' where
    "runs (atomic_step B env L K R fmt) (if visible l then [l] else []) a a'" "serial_rel B a' s'" by blast
  moreover from atomic_runs_ok [OF this(1) _ a(2)] rel obtain Q where "conc_ok B R Q a'" by blast
  moreover from conc_step_monitored [OF _ st a] rel obtain ks m' where
    "kernel_trace l ks" "runs (kernel_monitor R) ks m m'" "enforces B R m' (cs_controller s')" by blast
  ultimately show "\<exists>ks m'. kernel_trace l ks \<and> runs (kernel_monitor R) ks m m' \<and> bpf_laws B \<and>
      (\<exists>a P. serial_rel B a s' \<and> conc_ok B R P a) \<and> enforces B R m' (cs_controller s')"
    using rel by blast
qed

section \<open>From \<open>Controller::start\<close> to the running threads\<close>

text \<open>What bpf(2) documents of the maps of a freshly loaded object.\<close>

definition empty_maps :: "('p, 'r, 'c) bpf_sys \<Rightarrow> ('p, 'r, 'c) load_env \<Rightarrow> bool" where
  "empty_maps B env \<longleftrightarrow> (\<forall>sizes.
     mo_lookup (bs_protected B) (fst (env_maps env sizes)) = Map.empty \<and>
     mo_lookup (bs_rules B) (fst (snd (env_maps env sizes))) = Map.empty \<and>
     mo_lookup (bs_config B) (snd (snd (env_maps env sizes))) 0 = Some zero_config)"

definition running :: "(('p, 'r, 'c) linux_enforcer, 'k) controller \<Rightarrow> ('p, 'r, 'c, 'k) conc" where
  "running c = \<lparr>cs_system = \<lparr>sy_controller = c, sy_ring = []\<rparr>, cs_holder = None, cs_threads = (\<lambda>_. Idle)\<rparr>"

lemma empty_zeroed: "empty_maps B env \<Longrightarrow> zeroed_maps B env"
  by (simp add: empty_maps_def zeroed_maps_def)

lemma linux_load_kernel_from:
  assumes "linux_load B env (linux_new maps cfg) = (Inr (), e)" and "empty_maps B env"
  shows "kernel_from B R {} e"
proof -
  obtain p r c where m: "env_maps env (load_sizes cfg) = (p, r, c)" by (metis prod.exhaust)
  with assms(2) have e: "mo_lookup (bs_protected B) p = Map.empty" "mo_lookup (bs_rules B) r = Map.empty"
    "mo_lookup (bs_config B) c 0 = Some zero_config"
    unfolding empty_maps_def by (metis fst_conv snd_conv)+
  have ld: "le_skel e" "le_maps e = \<lparr>km_protected = p, km_rules = r, km_config = c, km_log = []\<rparr>"
    using assms(1) m by (auto simp: linux_load_def linux_new_def Let_def split: option.splits if_splits)
  from e ld show ?thesis
    by (simp add: kernel_from_def from_policy_def view_simps fg_enabled_def zero_config_def)
qed

lemma started_kernel_from:
  assumes "bpf_laws B" and "empty_maps B env" and "ct_cfg c0 = cfg"
    and st: "start (linux_ops B env) (linux_new maps) L fs R c0 = Some (Returns (Inr ()), c)"
  shows "\<exists>e. ct_enforcer c = Some e \<and>
    (if cc_policy_file cfg = [] then kernel_from B R {} e
     else \<exists>p. from_file L fs (cc_policy_file cfg) = Returns (Inr p) \<and> expressible p \<and> kernel_from B R {p} e)"
proof -
  from start_cases [OF st] assms(3) obtain e c1 c2 where
    ld: "linux_load B env (linux_new maps ((cc_enforcer cfg)\<lparr>ec_on_event := True\<rparr>)) = (Inr (), e)"
    and c1: "ct_enforcer c1 = Some e" and c: "c = c2\<lparr>ct_ring_thread := True, ct_consumer_thread := True\<rparr>"
    and c2: "if cc_policy_file cfg = [] then c2 = c1
       else \<exists>p. from_file L fs (cc_policy_file cfg) = Returns (Inr p) \<and> load_policy (linux_ops B env) R (Some p) c1 = Some (Inr (), c2)"
    by (auto simp: linux_ops_def backend_ops_def)
  note k = linux_load_kernel_from [OF ld assms(2)]
  show ?thesis
  proof (cases "cc_policy_file cfg = []")
    case True
    with c2 c1 c k show ?thesis by simp
  next
    case False
    with c2 obtain p where p: "from_file L fs (cc_policy_file cfg) = Returns (Inr p)"
      "load_policy (linux_ops B env) R (Some p) c1 = Some (Inr (), c2)" by auto
    from p(1) obtain t where "from_json L t = Returns (Inr p)" by (auto simp: from_file_def split: option.splits if_splits)
    note ex = from_json_expressible [OF this]
    from load_policy_backend [OF p(2) c1] obtain cp e' where "compile R p = Inr cp" "ct_enforcer c2 = Some e'"
      "linux_apply_policy B e cp = Some (Inr (), e')" by auto
    with kernel_from_apply [OF assms(1) this(3,1), of "{p}"] kernel_from_mono [OF k] False p(1) ex c show ?thesis by simp
  qed
qed

text \<open>C2. A successful start of a fresh controller on the Linux backend puts the policy file's policy
  in force, or none without a file, opens an empty event pipeline, and leaves the backend's mutex free
  with maps and status that hold this policy and nothing else: the state from which the properties of
  the running system are stated.\<close>

theorem started_system:
  assumes "bpf_laws B" and "empty_maps B env" and "controller_new logs offset store cfg = Returns c0"
    and "start (linux_ops B env) (linux_new maps) L fs R c0 = Some (Returns (Inr ()), c)"
  shows "\<exists>m. enforces B R m c \<and>
    (case m of None \<Rightarrow> cc_policy_file cfg = []
     | Some p \<Rightarrow> cc_policy_file cfg \<noteq> [] \<and> from_file L fs (cc_policy_file cfg) = Returns (Inr p)) \<and>
    pipeline_ok (cs_system (running c)) \<and> in_flight fmt (cs_system (running c)) = [] \<and>
    lock_free (running c) \<and> conc_ok B R (set_option m) (running c)"
proof -
  have cfg: "ct_cfg c0 = cfg" using assms(3) by (auto simp: controller_new_def obind_eq_Returns Let_def)
  from system_starts [OF assms(1) empty_zeroed [OF assms(2)] assms(3,4)] obtain m where m: "enforces B R m c"
    "case m of None \<Rightarrow> cc_policy_file cfg = [] | Some p \<Rightarrow> cc_policy_file cfg \<noteq> [] \<and> from_file L fs (cc_policy_file cfg) = Returns (Inr p)"
    "pipeline_ok \<lparr>sy_controller = c, sy_ring = []\<rparr>" "in_flight fmt \<lparr>sy_controller = c, sy_ring = []\<rparr> = []" by blast
  from started_kernel_from [OF assms(1,2) cfg assms(4)] obtain e where e: "ct_enforcer c = Some e"
    and k: "if cc_policy_file cfg = [] then kernel_from B R {} e
      else \<exists>p. from_file L fs (cc_policy_file cfg) = Returns (Inr p) \<and> expressible p \<and> kernel_from B R {p} e" by blast
  have "kernel_from B R (set_option m) e \<and> (\<forall>p \<in> set_option m. expressible p)"
    using k m(2) by (cases m) auto
  with e m show ?thesis by (intro exI [of _ m]) (simp add: running_def lock_free_def conc_ok_def)
qed

theorem started_system_witness:
  "\<exists>(c0 :: (_, unit) controller) c m. controller_new (\<lambda>_. None) 0 (\<lambda>_. ()) boot_config = Returns c0 \<and>
     start (linux_ops demo_sys demo_env) (linux_new (le_maps demo_enforcer)) small_lib (\<lambda>_. Some (''{}'', False)) demo_resolver c0 =
       Some (Returns (Inr ()), c) \<and> enforces demo_sys demo_resolver m c \<and> m = Some small_policy \<and>
     conc_ok demo_sys demo_resolver {small_policy} (running c)"
proof -
  obtain c0 :: "(((fileguard_file_id \<times> fileguard_protected_val) list,
      (fileguard_rule_key \<times> fileguard_rule_val) list, fileguard_config) linux_enforcer, unit) controller" where
    c0: "controller_new (\<lambda>_. None) 0 (\<lambda>_. ()) boot_config = Returns c0"
    "\<not> ct_started c0" "ct_cfg c0 = boot_config"
    by (simp add: controller_new_def boot_config_def spsc_new_def default_controller_config_def Let_def)
  let ?fs = "\<lambda>_ :: string. Some (''{}'', False)"
  let ?start = "start (linux_ops demo_sys demo_env) (linux_new (le_maps demo_enforcer)) small_lib ?fs demo_resolver c0"
  have ff: "from_file small_lib ?fs ''p'' = Returns (Inr small_policy)"
    by (simp add: from_file_def small_lib_parses)
  obtain e where ld: "linux_load demo_sys demo_env (linux_new (le_maps demo_enforcer) ((cc_enforcer boot_config)\<lparr>ec_on_event := True\<rparr>)) = (Inr (), e)"
    and e: "le_skel e" "le_maps e = \<lparr>km_protected = [], km_rules = [], km_config = demo_conf 0 0, km_log = []\<rparr>"
    by (simp add: linux_load_def linux_new_def demo_env_def boot_config_def default_controller_config_def
        default_enforcer_config_def Let_def)
  obtain e' where ap: "linux_apply_policy demo_sys e (demo_compiled 300) = Some (Inr (), e')"
    using fresh_apply e by (auto simp: linux_apply_policy_def fresh_enforcer_def demo_enforcer_def split: option.splits sum.splits)
  have "\<exists>c. ?start = Some (Returns (Inr ()), c)"
    using c0(2,3) ld ap
    by (simp add: start_def linux_ops_def backend_ops_def ff load_policy_def small_policy_compiles small_policy_valid
        load_apply_def load_install_valid load_resolver_def boot_config_def)
  then obtain c where c: "?start = Some (Returns (Inr ()), c)" ..
  have "empty_maps demo_sys demo_env"
    by (simp add: empty_maps_def demo_env_def demo_sys_def alist_ops_def demo_conf_def zero_config_def)
  from started_system [OF demo_sys_laws this c0(1) c] obtain m where m: "enforces demo_sys demo_resolver m c"
    "conc_ok demo_sys demo_resolver (set_option m) (running c)"
    "case m of None \<Rightarrow> cc_policy_file boot_config = [] | Some p \<Rightarrow> cc_policy_file boot_config \<noteq> [] \<and> from_file small_lib ?fs (cc_policy_file boot_config) = Returns (Inr p)"
    by blast
  then have "m = Some small_policy" using ff by (auto simp: boot_config_def split: option.splits)
  with m(1,2) c c0(1) show ?thesis by (intro exI [of _ c0] exI [of _ c] exI [of _ m]) auto
qed

text \<open>C3. The monitor under concurrent loads, for any path resolution: along every run of the
  implementation, however the libbpf calls of a load interleave with opens, other loads, polling, status
  requests and detach, each open gets the answer of the monitor's policy at that moment, read for files
  as in \<open>monitor_allows\<close>, and each event tells it; the monitor goes off at the pause of an install (or at
  detach) and comes on, with exactly the policy being loaded, at its enabling write, and at no other
  step.\<close>

theorem concurrent_monitor_refines:
  assumes "bpf_laws B" and "lock_free s" and "conc_ok B R P s"
    and "enforces B R m (cs_controller s)" and "runs (conc_step B env L K R fmt) ls s s'"
  shows "\<exists>kss m'. list_all2 kernel_trace ls kss \<and> runs (kernel_monitor R) (concat kss) m m' \<and>
    enforces B R m' (cs_controller s')"
proof -
  have "serial_rel B s s" using assms(2) by (simp add: serial_rel_def lock_free_def)
  with assms have rel: "bpf_laws B \<and> (\<exists>a P. serial_rel B a s \<and> conc_ok B R P a) \<and>
      enforces B R m (cs_controller s)" by blast
  from concurrent_monitor.runs_followed [OF assms(5) rel] show ?thesis by blast
qed

theorem concurrent_monitor_refines_witness:
  "\<exists>ls s kss m. Unlocked 0 small_policy (Inr ()) \<in> set ls \<and> runs demo_conc_step ls demo_conc s \<and>
     list_all2 kernel_trace ls kss \<and> runs (kernel_monitor demo_resolver) (concat kss) None m \<and> m \<noteq> None \<and>
     enforces demo_sys demo_resolver m (cs_controller s)"
proof -
  from demo_run_loaded obtain ls s e where run: "runs demo_conc_step (demo_labels @ ls) demo_conc s"
    and ul: "Unlocked 0 small_policy (Inr ()) \<in> set ls" and e: "cs_enforcer s = Some e"
    and ap: "linux_apply_policy demo_sys fresh_enforcer (demo_compiled 300) = Some (Inr (), e)" by blast
  from concurrent_monitor_refines [OF demo_sys_laws demo_conc_lock_free demo_conc_ok
      demo_conc_enforces run] obtain kss m where
    m: "list_all2 kernel_trace (demo_labels @ ls) kss" "runs (kernel_monitor demo_resolver) (concat kss) None m"
      "enforces demo_sys demo_resolver m (cs_controller s)" by blast
  have "le_skel e" "maps_view demo_sys e = installed_view (demo_compiled 300)"
    using linux_apply_Inr [OF demo_sys_laws ap] by simp_all
  moreover have "fg_enabled (installed_view (demo_compiled 300))" by (simp add: fg_enabled_def installed_view_parts)
  ultimately have "m \<noteq> None" using m(3) e by (cases m) (simp_all add: enforces_def)
  with m run ul show ?thesis by (intro exI [of _ "demo_labels @ ls"] exI [of _ s] exI [of _ kss] exI [of _ m]) simp
qed

end
