(* ===== verification/Load_Agreement.thy ===== *)
theory Load_Agreement
  imports Load_Monitor
begin

text \<open>
  Kernel and userspace. Concurrent loads can leave the kernel with one policy and the policy manager
  with another (\<open>concurrent_loads_diverge\<close>). Here: as long as no two loads are in progress at the same
  time, whatever the kernel enforces is what the policy manager and the event resolver describe.
\<close>

section \<open>Userspace follows the kernel\<close>

definition userspace_has :: "file_resolver \<Rightarrow> policy \<Rightarrow> ('e, 'k) controller \<Rightarrow> bool" where
  "userspace_has R p c \<longleftrightarrow> pm_current (ct_policy_manager c) = Some p \<and>
     (\<exists>cp. compile R p = Inr cp \<and> ct_resolver c = Some (rebuild_resolver p cp))"

text \<open>A load whose policy the kernel has and userspace does not have yet.\<close>

fun committed :: "load_pc \<Rightarrow> policy option" where
  "committed (Applying p cp At_Status) = Some p"
| "committed (Applying p cp (Returned (Inr u))) = Some p"
| "committed (Applied p cp) = Some p"
| "committed (Swapped p) = Some p"
| "committed pc = None"

definition thread_follows ::
  "file_resolver \<Rightarrow> policy option \<Rightarrow> (('p, 'r, 'c) linux_enforcer, 'k) controller \<Rightarrow> load_pc \<Rightarrow> bool" where
  "thread_follows R m c pc \<longleftrightarrow>
     (case committed pc of
        Some q \<Rightarrow> m = None \<or> m = Some q
      | None \<Rightarrow> pred_option (\<lambda>p. userspace_has R p c) m) \<and>
     (case pc of
        Applied q cp \<Rightarrow> compile R q = Inr cp
      | Swapped q \<Rightarrow> (\<exists>cp. compile R q = Inr cp \<and> ct_resolver c = Some (rebuild_resolver q cp))
      | _ \<Rightarrow> True)"

text \<open>At most one thread is loading.\<close>

definition one_load :: "('p, 'r, 'c, 'k) conc \<Rightarrow> bool" where
  "one_load s \<longleftrightarrow> (\<forall>t u. cs_threads s t \<noteq> Idle \<longrightarrow> cs_threads s u \<noteq> Idle \<longrightarrow> t = u)"

definition follows :: "file_resolver \<Rightarrow> policy option \<Rightarrow> ('p, 'r, 'c, 'k) conc \<Rightarrow> bool" where
  "follows R m s \<longleftrightarrow> (\<exists>t. (\<forall>u. u \<noteq> t \<longrightarrow> cs_threads s u = Idle) \<and> thread_follows R m (cs_controller s) (cs_threads s t))"

definition solo_step ::
  "('p, 'r, 'c) bpf_sys \<Rightarrow> ('p, 'r, 'c) load_env \<Rightarrow> 'j json_lib \<Rightarrow> 'k client_ops \<Rightarrow> file_resolver \<Rightarrow>
     (int \<Rightarrow> string) \<Rightarrow> conc_label \<Rightarrow> ('p, 'r, 'c, 'k) conc \<Rightarrow> ('p, 'r, 'c, 'k) conc \<Rightarrow> bool" where
  "solo_step B env L K R fmt l s s' \<longleftrightarrow> conc_step B env L K R fmt l s s' \<and> one_load s'"

text \<open>The step of a thread that is not idle is the step of the one that is loading.\<close>

lemma followsE:
  assumes "follows R m s" and "cs_threads s t \<noteq> Idle"
  shows "(\<forall>u. u \<noteq> t \<longrightarrow> cs_threads s u = Idle) \<and> thread_follows R m (cs_controller s) (cs_threads s t)"
  using assms unfolding follows_def by metis

lemma follows_setI:
  "\<forall>u. u \<noteq> t \<longrightarrow> cs_threads s u = Idle \<Longrightarrow> thread_follows R m (cs_controller s) (cs_threads s t) \<Longrightarrow> follows R m s"
  unfolding follows_def by blast

lemma thread_follows_cong:
  "ct_policy_manager c' = ct_policy_manager c \<Longrightarrow> ct_resolver c' = ct_resolver c \<Longrightarrow>
     thread_follows R m c' pc = thread_follows R m c pc"
  by (cases m; cases "committed pc"; cases pc) (simp_all add: thread_follows_def userspace_has_def)

lemma follows_cong:
  "cs_threads s' = cs_threads s \<Longrightarrow> ct_policy_manager (cs_controller s') = ct_policy_manager (cs_controller s) \<Longrightarrow>
   ct_resolver (cs_controller s') = ct_resolver (cs_controller s) \<Longrightarrow> follows R m s' = follows R m s"
  using thread_follows_cong [of "cs_controller s'" "cs_controller s" R m] by (simp only: follows_def)

lemma follows_None: "follows R m s \<Longrightarrow> follows R None s"
  unfolding follows_def thread_follows_def
  by (elim exE conjE, rule_tac x = t in exI) (simp split: option.splits)

inductive_simps kernel_monitor_switch: "kernel_monitor R Off m m'" "kernel_monitor R (On p) m m'"

text \<open>A call of an install: the monitor comes on exactly where the thread is committed.\<close>

lemma committed_step:
  assumes "apply_step B cp (pc, e) = (pc', e')" and "\<forall>r. pc \<noteq> Returned r"
  shows "(pc \<noteq> At_Status \<longrightarrow> committed (Applying p cp pc) = None) \<and>
    (pc \<noteq> At_Status \<and> pc \<noteq> At_Enable \<longrightarrow> committed (Applying p cp pc') = None) \<and>
    (pc = At_Status \<longrightarrow> committed (Applying p cp pc) = Some p \<and> committed (Applying p cp pc') = Some p) \<and>
    (pc = At_Enable \<longrightarrow> pc' = At_Status \<or> committed (Applying p cp pc') = None)"
  using assms by (cases "(B, cp, pc, e)" rule: apply_step.cases)
    (auto simp: after_clear_def split: prod.splits if_splits)

lemma map_call_follows:
  assumes tf: "thread_follows R m c (Applying p cp pc)" and tr: "kernel_trace (Map_Call t p pc) ks"
    and run: "runs (kernel_monitor R) ks m m'"
    and switch: "ks \<noteq> [] \<longrightarrow> pc' = after_switch pc" and enable: "pc = At_Enable \<longrightarrow> m = None"
    and st: "apply_step B cp (pc, e) = (pc', e')" and "\<forall>r. pc \<noteq> Returned r"
  shows "thread_follows R m' c (Applying p cp pc')"
proof -
  note cs = committed_step [OF st assms(7), of p]
  from tr consider "ks = []" | "pc = At_Pause" "ks = [Off]" | "pc = At_Enable" "ks = [On p]" by (cases pc) auto
  then show ?thesis
  proof cases
    case 1
    with run have "m' = m" by (simp add: runs_nilD)
    with cs tf enable show ?thesis by (cases "pc = At_Enable"; cases "pc = At_Status")
      (auto simp: thread_follows_def split: option.splits)
  next
    case 2
    with run have "m' = None" by (auto dest: runs_oneD simp: kernel_monitor_switch)
    then show ?thesis by (auto simp: thread_follows_def split: option.splits)
  next
    case 3
    with run have "m' = Some p" by (auto dest: runs_oneD simp: kernel_monitor_switch)
    moreover have "pc' = At_Status" using switch 3 by simp
    ultimately show ?thesis by (simp add: thread_follows_def)
  qed
qed

lemma follows_moved:
  assumes "follows R m s" and "cs_threads s t \<noteq> Idle" and "cs_threads s' = (cs_threads s)(t := pc)"
    and "thread_follows R m (cs_controller s) (cs_threads s t) \<Longrightarrow> thread_follows R m' (cs_controller s') pc"
  shows "follows R m' s'"
  using followsE [OF assms(1,2)] assms(3,4) by (intro follows_setI [of t]) simp_all

lemma call_follows:
  assumes "one_load (set_thread t (Entered p) s)" and f: "follows R m s" and idle: "cs_threads s t = Idle"
  shows "follows R m (set_thread t (Entered p) s)"
proof -
  let ?s = "set_thread t (Entered p) s"
  have others: "\<forall>u. u \<noteq> t \<longrightarrow> cs_threads s u = Idle"
  proof (intro allI impI)
    fix u assume "u \<noteq> t"
    moreover have "cs_threads ?s t \<noteq> Idle" "cs_threads ?s u = cs_threads s u" using \<open>u \<noteq> t\<close> by simp_all
    ultimately show "cs_threads s u = Idle" using assms(1) unfolding one_load_def by metis
  qed
  from f obtain t0 where "\<forall>u. u \<noteq> t0 \<longrightarrow> cs_threads s u = Idle"
    and t0: "thread_follows R m (cs_controller s) (cs_threads s t0)" unfolding follows_def by blast
  then have "cs_threads s t0 = Idle" using others idle by (cases "t0 = t") auto
  with t0 have "thread_follows R m (cs_controller s) (Entered p)" by (simp add: thread_follows_def)
  with others show ?thesis by (intro follows_setI [of t]) simp_all
qed

lemma free_step_follows:
  assumes "free_step B env L K R fmt l s s'" and "one_load s'" and f: "follows R m s"
    and e: "cs_enforcer s = Some e"
  shows "follows R (if l = Detached then None else m) s'"
  using assms(1)
proof cases
  case (free_call t d p)
  with assms(2) call_follows [OF _ f free_call(3)] show ?thesis by simp
next
  case (free_resolver t p cp)
  then show ?thesis
    by (intro follows_moved [OF f, of t]) (auto simp: thread_follows_def load_resolver_def)
next
  case (free_install t p r c)
  show ?thesis unfolding free_install(1,2)
  proof (rule follows_moved [OF f, of t])
    assume "thread_follows R m (cs_controller s) (cs_threads s t)"
    with free_install obtain cp where m: "m = None \<or> m = Some p" and cp: "compile R p = Inr cp"
      "ct_resolver (cs_controller s) = Some (rebuild_resolver p cp)" by (auto simp: thread_follows_def)
    from load_install_valid [OF compile_valid [OF cp(1)], of "cs_controller s"] free_install
    have "userspace_has R p c" using cp by (auto simp: userspace_has_def)
    with m show "thread_follows R (if Load_Returned t r = Detached then None else m)
        (cs_controller (set_thread t Idle (set_controller c s))) Idle"
      by (auto simp: thread_follows_def)
  qed (use free_install in simp_all)
next
  case (free_poll ev rest y)
  from free_poll(5) obtain ev' rest' c where y: "y = (cs_system s)\<lparr>sy_controller := c, sy_ring := rest'\<rparr>"
    and pr: "poll_record fmt ev' (cs_controller s) = Some c" by (rule sys_polledE)
  from poll_record_shape [OF pr e] y free_poll have "follows R m s' = follows R m s" by (intro follows_cong) auto
  with f free_poll show ?thesis by simp
next
  case (free_consume se y)
  from free_consume(3) obtain q c where y: "y = (cs_system s)\<lparr>sy_controller := c\<rparr>"
    and co: "consume_one L K (cs_controller s) = Some (Returns True, c)" by (rule sys_consumedE)
  from consume_one_True [OF co] y free_consume have "follows R m s' = follows R m s" by (intro follows_cong) auto
  with f free_consume show ?thesis by simp
next
  case (free_detach e r e')
  have "follows R None s' = follows R None s" by (rule follows_cong) (simp_all add: free_detach)
  with follows_None [OF f] free_detach show ?thesis by simp
next
  case (free_invalid t p e1)
  then show ?thesis by (intro follows_moved [OF f, of t]) (auto simp: thread_follows_def)
next
  case (free_uncompilable t p e1)
  then show ?thesis by (intro follows_moved [OF f, of t]) (auto simp: thread_follows_def)
next
  case (free_prepare t p cp)
  then show ?thesis by (intro follows_moved [OF f, of t]) (auto simp: thread_follows_def)
next
  case (free_error t e1)
  then show ?thesis by (intro follows_moved [OF f, of t]) (auto simp: thread_follows_def)
qed (use f e in simp_all)

lemma solo_free_follows:
  assumes "free_step B env L K R fmt l s s'" and "one_load s'" and "follows R m s" and "cs_enforcer s = Some e"
    and k: "kernel_trace l ks" "runs (kernel_monitor R) ks m m'"
  shows "follows R m' s'"
proof -
  have "ks = (if l = Detached then [Off] else [])"
    using assms(1) k(1) by cases auto
  with k(2) have "m' = (if l = Detached then None else m)"
    using runs_oneD [of "kernel_monitor R" Off m m'] runs_nilD [of "kernel_monitor R" m m']
    by (cases "l = Detached") (simp_all add: kernel_monitor_switch)
  with free_step_follows [OF assms(1-4)] show ?thesis by simp
qed

lemma solo_map_follows:
  assumes laws: "bpf_laws B" and rel: "serial_rel B a s" and ok: "conc_ok B R P a" and m: "enforces B R m (cs_controller s)"
    and f: "follows R m s" and t: "cs_threads s t = Applying p cp pc" and pc: "\<forall>r. pc \<noteq> Returned r"
    and e: "cs_enforcer s = Some e" and st: "apply_step B cp (pc, e) = (pc', e')"
  shows "\<exists>ks m'. kernel_trace (Map_Call t p pc) ks \<and> runs (kernel_monitor R) ks m m' \<and>
    enforces B R m' (cs_controller (set_enforcer e' s)) \<and> follows R m' (set_thread t (Applying p cp pc') (set_enforcer e' s))"
proof -
  let ?s = "set_thread t (Applying p cp pc') (set_enforcer e' s)"
  from serial_rel_applying [OF rel t] obtain e0 e1 where "cs_enforcer s = Some e1"
    and reach: "apply_reaches B cp (At_Entry, e0) (pc, e1)" and a: "a = rewind t p cp e0 s" .
  with e have h: "apply_reaches B cp (At_Entry, e0) (pc, e)" by simp
  from conc_ok_rewind [OF ok [unfolded a]] have p: "expressible p" "compile R p = Inr cp" by simp_all
  from map_call_monitored [OF laws m e h st p, of t] obtain ks m' where
    k: "kernel_trace (Map_Call t p pc) ks" "runs (kernel_monitor R) ks m m'"
      "enforces B R m' (cs_controller (set_enforcer e' s))" "ks \<noteq> [] \<longrightarrow> pc' = after_switch pc" by blast
  have en: "pc = At_Enable \<longrightarrow> m = None" using enable_off [OF laws m e] h by blast
  have "follows R m' ?s"
  proof (rule follows_moved [OF f, of t])
    assume "thread_follows R m (cs_controller s) (cs_threads s t)"
    then have "thread_follows R m (cs_controller s) (Applying p cp pc)" by (simp add: t)
    from map_call_follows [OF this k(1,2,4) en st pc]
    show "thread_follows R m' (cs_controller ?s) (Applying p cp pc')"
      using thread_follows_cong [of "cs_controller ?s" "cs_controller s"] by simp
  qed (simp_all add: t)
  with k(1-3) show ?thesis by blast
qed

lemma solo_step_follows:
  assumes laws: "bpf_laws B" and st: "conc_step B env L K R fmt l s s'" and solo: "one_load s'"
    and rel: "serial_rel B a s" and ok: "conc_ok B R P a" and m: "enforces B R m (cs_controller s)" and f: "follows R m s"
  shows "\<exists>ks m'. kernel_trace l ks \<and> runs (kernel_monitor R) ks m m' \<and> enforces B R m' (cs_controller s') \<and> follows R m' s'"
proof -
  note mon = conc_step_monitored [OF laws st rel ok m]
  from st show ?thesis
  proof cases
    case conc_free
    obtain e where e: "cs_enforcer s = Some e" using m by (auto simp: enforces_def)
    from mon obtain ks m' where k: "kernel_trace l ks" "runs (kernel_monitor R) ks m m'" "enforces B R m' (cs_controller s')" by blast
    with solo_free_follows [OF conc_free solo f e k(1,2)] show ?thesis by blast
  next
    case (conc_open path exe ret sub y)
    from mon conc_open obtain m' where k: "runs (kernel_monitor R) [Asked path exe ret sub] m m'" "enforces B R m' (cs_controller s')" by auto
    from runs_oneD [OF k(1)] have "m' = m" by (auto elim: kernel_monitor.cases)
    moreover from conc_open(3) have "sy_controller y = cs_controller s" by (auto elim: sys_openedE)
    then have "follows R m s' = follows R m s" by (intro follows_cong) (simp_all add: conc_open)
    ultimately show ?thesis using k f conc_open by auto
  next
    case (conc_lock t p cp e)
    have "follows R m s'" unfolding conc_lock(2)
      by (rule follows_moved [OF f, of t _ "Applying p cp At_Entry"]) (simp_all add: conc_lock(3) thread_follows_def)
    with m conc_lock show ?thesis by (intro exI [of _ "[]"] exI [of _ m]) (auto intro: runs_nil)
  next
    case (conc_map t p cp pc e pc' e')
    from solo_map_follows [OF laws rel ok m f conc_map(3-6)] show ?thesis by (simp add: conc_map(1,2))
  next
    case (conc_unlock t p cp r)
    from serial_rel_applying [OF rel conc_unlock(3)] obtain e0 where "a = rewind t p cp e0 s" .
    from conc_ok_rewind [OF ok [unfolded this]] have cp: "compile R p = Inr cp" by simp
    have "follows R m s'" unfolding conc_unlock
      by (rule follows_moved [OF f, of t _ "after_apply p cp r"]; cases r) (simp_all add: conc_unlock thread_follows_def cp)
    with m conc_unlock show ?thesis by (intro exI [of _ "[]"] exI [of _ m]) (auto intro: runs_nil)
  qed
qed

lemma serial_kept:
  assumes "bpf_laws B" and "conc_step B env L K R fmt l s s'" and a: "serial_rel B a s" "conc_ok B R P a"
  shows "\<exists>a P. serial_rel B a s' \<and> conc_ok B R P a"
proof -
  from serial_simulation [OF assms(1,2) a(1)] obtain a' where
    "runs (atomic_step B env L K R fmt) (if visible l then [l] else []) a a'" "serial_rel B a' s'" by blast
  with atomic_runs_ok [OF this(1) assms(1) a(2)] show ?thesis by blast
qed

interpretation solo_monitor:
  simulation "solo_step B env L K R fmt" "kernel_monitor R" kernel_trace
    "\<lambda>m s. bpf_laws B \<and> (\<exists>a P. serial_rel B a s \<and> conc_ok B R P a) \<and>
       enforces B R m (cs_controller s) \<and> follows R m s"
  for B env L K R fmt
proof
  fix l s s' m
  assume st: "solo_step B env L K R fmt l s s'"
    and rel: "bpf_laws B \<and> (\<exists>a P. serial_rel B a s \<and> conc_ok B R P a) \<and>
      enforces B R m (cs_controller s) \<and> follows R m s"
  then obtain a P where a: "serial_rel B a s" "conc_ok B R P a" by blast
  from st have cst: "conc_step B env L K R fmt l s s'" and solo: "one_load s'" by (simp_all add: solo_step_def)
  from serial_kept [OF _ cst a] rel have "\<exists>a P. serial_rel B a s' \<and> conc_ok B R P a" by blast
  with solo_step_follows [OF _ cst solo a] rel
  show "\<exists>ks m'. kernel_trace l ks \<and> runs (kernel_monitor R) ks m m' \<and> bpf_laws B \<and>
      (\<exists>a P. serial_rel B a s' \<and> conc_ok B R P a) \<and> enforces B R m' (cs_controller s') \<and> follows R m' s'"
    by blast
qed

text \<open>C6. Kernel and userspace agree: along every run in which no two loads overlap, whatever else
  interleaves with the single libbpf calls of a load, the policy the kernel enforces, if any, is the
  one the policy manager holds and the event resolver names files by, except between the enabling
  write of a load and the end of that load.\<close>

theorem sequential_loads_agree:
  assumes "bpf_laws B" and "lock_free s" and "conc_ok B R P s"
    and "enforces B R m (cs_controller s)" and "\<forall>t. cs_threads s t = Idle"
    and "pred_option (\<lambda>p. userspace_has R p (cs_controller s)) m" and "runs (solo_step B env L K R fmt) ls s s'"
  shows "\<exists>kss m'. list_all2 kernel_trace ls kss \<and> runs (kernel_monitor R) (concat kss) m m' \<and>
    enforces B R m' (cs_controller s') \<and>
    ((\<forall>t. committed (cs_threads s' t) = None) \<longrightarrow> pred_option (\<lambda>p. userspace_has R p (cs_controller s')) m')"
proof -
  have "serial_rel B s s" using assms(2) by (simp add: serial_rel_def lock_free_def)
  moreover have "follows R m s" using assms(5,6) by (simp add: follows_def thread_follows_def)
  ultimately have "bpf_laws B \<and> (\<exists>a P. serial_rel B a s \<and> conc_ok B R P a) \<and>
      enforces B R m (cs_controller s) \<and> follows R m s" using assms by blast
  from solo_monitor.runs_followed [OF assms(7) this] obtain kss m' where k: "list_all2 kernel_trace ls kss"
    "runs (kernel_monitor R) (concat kss) m m'" "enforces B R m' (cs_controller s')" and f: "follows R m' s'" by blast
  from f obtain t where "thread_follows R m' (cs_controller s') (cs_threads s' t)" unfolding follows_def by blast
  then have "committed (cs_threads s' t) = None \<longrightarrow> pred_option (\<lambda>p. userspace_has R p (cs_controller s')) m'"
    by (auto simp: thread_follows_def)
  with k show ?thesis by (intro exI [of _ kss] exI [of _ m']) simp
qed

lemma one_loadI: "\<forall>u. u \<noteq> t \<longrightarrow> cs_threads s u = Idle \<Longrightarrow> one_load s"
  unfolding one_load_def by metis

inductive_cases conc_map_callE: "conc_step B env L K R fmt (Map_Call t p pc) s s'"

lemma owner_runs_solo:
  "runs (conc_step B env L K R fmt) ls s s' \<Longrightarrow> \<forall>l \<in> set ls. \<exists>pc. l = Map_Call t p pc \<Longrightarrow>
   \<forall>u. u \<noteq> t \<longrightarrow> cs_threads s u = Idle \<Longrightarrow>
   runs (solo_step B env L K R fmt) ls s s' \<and> (\<forall>u. u \<noteq> t \<longrightarrow> cs_threads s' u = Idle)"
proof (induction rule: runs.induct)
  case (runs_snoc ls s s' l s'')
  then have ih: "runs (solo_step B env L K R fmt) ls s s'" "\<forall>u. u \<noteq> t \<longrightarrow> cs_threads s' u = Idle" by auto
  from runs_snoc.prems(1) obtain pc where l: "l = Map_Call t p pc" by auto
  from runs_snoc.hyps(2) [unfolded l] have "\<forall>u. u \<noteq> t \<longrightarrow> cs_threads s'' u = Idle"
  proof (rule conc_map_callE)
    assume "free_step B env L K R fmt (Map_Call t p pc) s' s''"
    then show ?thesis by cases
  qed (use ih(2) in simp)
  moreover from this one_loadI [OF this] runs_snoc.hyps(2) have "solo_step B env L K R fmt l s' s''"
    by (simp add: solo_step_def)
  ultimately show ?case using runs.runs_snoc [OF ih(1)] by blast
qed (simp add: runs_nil)

abbreviation "demo_solo_step \<equiv> solo_step demo_sys demo_env small_lib no_clients demo_resolver demo_time"

lemma demo_soloI:
  "demo_conc_step l s s' \<Longrightarrow> \<forall>u. u \<noteq> 0 \<longrightarrow> cs_threads s' u = Idle \<Longrightarrow> demo_solo_step l s s'"
  unfolding solo_step_def by (intro conjI one_loadI [of 0])

text \<open>One load from its call to its return.\<close>

lemma demo_solo_run:
  "\<exists>ls s e. runs demo_solo_step (ls @ [Load_Returned 0 (Inr ())]) demo_conc s \<and> (\<forall>t. cs_threads s t = Idle) \<and>
     cs_enforcer s = Some e \<and> linux_apply_policy demo_sys fresh_enforcer (demo_compiled 300) = Some (Inr (), e)"
proof -
  let ?p = small_policy and ?cp = "demo_compiled 300"
  let ?s1 = "set_thread 0 (Entered ?p) demo_conc"
  let ?s2 = "set_thread 0 (Waiting ?p ?cp) ?s1"
  let ?s3 = "set_holder (Some 0) (set_thread 0 (Applying ?p ?cp At_Entry) ?s2)"
  have e: "cs_enforcer demo_conc = Some fresh_enforcer" by (simp add: demo_conc_def fresh_system_def controller_with_def)
  have idle: "cs_threads demo_conc = (\<lambda>_. Idle)" "cs_holder demo_conc = None" by (simp_all add: demo_conc_def)
  have 1: "demo_solo_step (Called 0 ?p) demo_conc ?s1"
    by (rule demo_soloI [OF conc_free [OF free_call [OF _ small_lib_parses]]]) (simp_all add: idle)
  have 2: "demo_solo_step (Prepared 0 ?p ?cp) ?s1 ?s2"
    by (rule demo_soloI [OF conc_free [OF free_prepare]]) (simp_all add: small_policy_valid small_policy_compiles idle)
  have 3: "demo_solo_step (Locked 0) ?s2 ?s3"
    by (rule demo_soloI [OF conc_lock [where e = fresh_enforcer]]) (simp_all add: e idle)
  from fresh_apply obtain e' where e': "linux_apply_policy demo_sys fresh_enforcer ?cp = Some (Inr (), e')" ..
  from linux_apply_reaches [OF this] obtain n where
    n: "(apply_step demo_sys ?cp ^^ n) (At_Entry, fresh_enforcer) = (Returned (Inr ()), e')"
    by (auto simp: apply_reaches_def apply_after_def)
  have s3: "cs_threads ?s3 0 = Applying ?p ?cp At_Entry" "cs_enforcer ?s3 = Some fresh_enforcer" by (simp_all add: e)
  from owner_runs [OF n s3, of demo_env small_lib no_clients demo_resolver demo_time] obtain own s4 where
    own: "runs demo_conc_step own ?s3 s4" "\<forall>l \<in> set own. \<exists>pc. l = Map_Call 0 ?p pc"
    and t: "cs_threads s4 0 = Applying ?p ?cp (Returned (Inr ()))" and e4: "cs_enforcer s4 = Some e'" by blast
  from owner_runs_solo [OF own] idle have r4: "runs demo_solo_step own ?s3 s4"
    and others: "\<forall>u. u \<noteq> 0 \<longrightarrow> cs_threads s4 u = Idle" by simp_all
  let ?s5 = "set_holder None (set_thread 0 (after_apply ?p ?cp (Inr ())) s4)"
  let ?s6 = "set_thread 0 (Swapped ?p) (set_controller (load_resolver ?p ?cp (cs_controller ?s5)) ?s5)"
  have 5: "demo_solo_step (Unlocked 0 ?p (Inr ())) s4 ?s5"
    by (rule demo_soloI [OF conc_unlock [OF t]]) (simp add: others)
  have 6: "demo_solo_step (Resolver_Swapped 0 ?p) ?s5 ?s6"
    by (rule demo_soloI [OF conc_free [OF free_resolver]]) (simp_all add: others)
  obtain c where c: "load_install ?p (cs_controller ?s6) = (Inr (), c)" "ct_enforcer c = Some e'"
    by (simp add: load_install_valid small_policy_valid load_resolver_def e4)
  have 7: "demo_solo_step (Load_Returned 0 (Inr ())) ?s6 (set_thread 0 Idle (set_controller c ?s6))"
    by (rule demo_soloI [OF conc_free [OF free_install [OF _ c(1)]]]) (simp_all add: others)
  note more = runs_snoc [where step = demo_solo_step]
  from more [OF more [OF more [OF runs_append [OF r4 more [OF more [OF runs_one [of demo_solo_step, OF 1] 2] 3]] 5] 6] 7]
  show ?thesis using c(2) e' others
    by (intro exI [of _ "([Called 0 ?p] @ [Prepared 0 ?p ?cp] @ [Locked 0]) @ own @ [Unlocked 0 ?p (Inr ()), Resolver_Swapped 0 ?p]"]
        exI [of _ "set_thread 0 Idle (set_controller c ?s6)"] exI [of _ e']) simp
qed

theorem sequential_loads_agree_witness:
  "\<exists>ls s. runs demo_solo_step ls demo_conc s \<and> Load_Returned 0 (Inr ()) \<in> set ls \<and>
     (\<exists>p. enforces demo_sys demo_resolver (Some p) (cs_controller s) \<and> userspace_has demo_resolver p (cs_controller s))"
proof -
  from demo_solo_run obtain ls s e where run: "runs demo_solo_step (ls @ [Load_Returned 0 (Inr ())]) demo_conc s"
    and idle: "\<forall>t. cs_threads s t = Idle" and e: "cs_enforcer s = Some e"
    and ap: "linux_apply_policy demo_sys fresh_enforcer (demo_compiled 300) = Some (Inr (), e)" by blast
  from sequential_loads_agree [OF demo_sys_laws demo_conc_lock_free demo_conc_ok
      demo_conc_enforces _ _ run] obtain m where
    m: "enforces demo_sys demo_resolver m (cs_controller s)" "pred_option (\<lambda>p. userspace_has demo_resolver p (cs_controller s)) m"
    using idle by (auto simp: demo_conc_def)
  have "le_skel e" "maps_view demo_sys e = installed_view (demo_compiled 300)"
    using linux_apply_Inr [OF demo_sys_laws ap] by simp_all
  moreover have "fg_enabled (installed_view (demo_compiled 300))" by (simp add: fg_enabled_def installed_view_parts)
  ultimately have "m \<noteq> None" using m(1) e by (cases m) (simp_all add: enforces_def)
  with m run show ?thesis by (intro exI [of _ "ls @ [Load_Returned 0 (Inr ())]"] exI [of _ s]) (auto simp: option.pred_set)
qed

end
