(* ===== verification/Mediation.thy ===== *)
theory Mediation
  imports System Sessions Cli_Properties
begin

text \<open>
  The daemon's clients against the reference monitor of \<open>System\<close>: whatever bytes arrive on however
  many connections, interleaved in whatever way with the event pipeline and a stop, the policy in
  force changes only by loads of documents that the parser accepts.
\<close>

abbreviation backend_of :: "'e daemon \<Rightarrow> 'e option" where
  "backend_of d \<equiv> ct_enforcer (d_controller d)"

text \<open>What leaves the backend alone.\<close>

lemma update_client_backend: "backend_of (update_client f p d) = backend_of d"
  by (simp add: update_client_def)

lemma fold_update_backend: "backend_of (fold (update_client f) ps d) = backend_of d"
  by (induction ps arbitrary: d) (simp_all add: update_client_backend)

lemma daemon_stop_backend: "backend_of (snd (daemon_stop d)) = backend_of d"
proof -
  have "backend_of (d1\<lparr>d_stream_clients := xs\<rparr>) = backend_of d1" "backend_of (d1\<lparr>d_running := b\<rparr>) = backend_of d1"
    for d1 :: "'a daemon" and xs b by simp_all
  then show ?thesis by (simp add: daemon_stop_def fold_update_backend)
qed

lemma stream_backend:
  "backend_of (stream_enter p fd d) = backend_of d" "backend_of (stream_leave p d) = backend_of d"
  by (simp_all add: stream_enter_def stream_leave_def Let_def add_event_stream_client_def
      remove_event_stream_client_def update_client_backend update_client_def)

lemma pipeline_backend:
  "emit_event fmt raw c = Some c' \<Longrightarrow> ct_enforcer c' = ct_enforcer c"
  "consume_one L K c = Some (r, c') \<Longrightarrow> ct_enforcer c' = ct_enforcer c"
  by (auto simp: emit_event_def Let_def consume_one_def split: option.splits outcome.splits prod.splits)

lemmas backend_frame = update_client_backend daemon_stop_backend stream_backend

text \<open>A request leaves the backend alone or is an accepted load.\<close>

definition accepted_load ::
  "'e enforcer_ops \<Rightarrow> 'j json_lib \<Rightarrow> file_resolver \<Rightarrow> 'e daemon \<Rightarrow> policy \<times> unit result \<Rightarrow> 'e daemon \<Rightarrow> bool" where
  "accepted_load ops L R d pr d' \<longleftrightarrow> (\<exists>t. from_json L t = Returns (Inr (fst pr))) \<and>
     load_policy ops R (Some (fst pr)) (d_controller d) = Some (snd pr, d_controller d')"

lemma handle_request_backend:
  assumes "handle_request ops L R req d = Some (r, d')"
  shows "backend_of d' = backend_of d \<or> (\<exists>pr. accepted_load ops L R d pr d')"
proof (cases "jl_value_string L req ''cmd'' [] = Returns ''load_policy''")
  case True
  with assms have load: "handle_load ops L R req d = Some (r, d')" by (simp add: handle_request_def)
  show ?thesis
  proof (cases "d' = d")
    case False
    with load obtain doc p where "obind (jl_dump L doc) (from_json L) = Returns (Inr p)"
      and "\<exists>lr. load_policy ops R (Some p) (d_controller d) = Some (lr, d_controller d')"
      by (auto simp: handle_load_def Let_def split: option.splits if_splits outcome.splits sum.splits)
    then show ?thesis unfolding accepted_load_def by (auto simp: obind_eq_Returns)
  qed simp
next
  case False
  with assms have "d' = d \<or> d' = snd (daemon_stop (d\<lparr>d_running := False\<rparr>))"
    by (auto simp: handle_request_def split: outcome.splits if_splits)
  then show ?thesis by (auto simp: daemon_stop_backend)
qed

lemma handle_line_backend:
  assumes "handle_line ops L R line d = Some (r, d')"
  shows "backend_of d' = backend_of d \<or> (\<exists>pr. accepted_load ops L R d pr d')"
proof -
  have "d' = d \<or> (\<exists>req j. handle_request ops L R req d = Some (j, d'))"
    using assms by (auto simp: handle_line_def Let_def split: sum.splits option.splits outcome.splits if_splits bool.splits)
  then show ?thesis by (auto dest: handle_request_backend)
qed

lemma session_frame:
  "ss_daemon (set_conn n c s) = ss_daemon s" "ss_daemon (send_to fd out s) = ss_daemon s"
  "ss_daemon (close_fd fd s) = ss_daemon s" "ss_daemon (accept_conn fd s) = ss_daemon s"
  "ss_daemon (drop_client k s) = ss_daemon s"
  by (simp_all add: set_conn_def send_to_def close_fd_def accept_conn_def drop_client_def split: option.splits)

lemma session_step_backend:
  assumes "session_step ops L R fmt a s s'"
  shows "backend_of (ss_daemon s') = backend_of (ss_daemon s) \<or>
    (\<exists>pr d'. accepted_load ops L R (ss_daemon s) pr d' \<and> backend_of (ss_daemon s') = backend_of d')"
  using assms
  by cases (auto simp: session_frame backend_frame dest!: handle_line_backend dest: pipeline_backend)

section \<open>The property\<close>

abbreviation loads :: "(policy \<times> unit result) list \<Rightarrow> sys_label list" where
  "loads prs \<equiv> map (\<lambda>pr. Loaded (fst pr) (snd pr)) prs"

lemma enforces_backend: "ct_enforcer c = ct_enforcer c' \<Longrightarrow> enforces B R m c = enforces B R m c'"
  by (simp add: enforces_def)

lemma enforces_accepted:
  assumes "bpf_laws B" and "accepted_load (linux_ops B env) L R d pr d'" and "enforces B R m (d_controller d)"
  shows "\<exists>m'. monitor_step R (Loaded (fst pr) (snd pr)) m m' \<and> enforces B R m' (d_controller d')"
proof -
  from assms(2) obtain t where "from_json L t = Returns (Inr (fst pr))"
    and lp: "load_policy (linux_ops B env) R (Some (fst pr)) (d_controller d) = Some (snd pr, d_controller d')"
    by (auto simp: accepted_load_def)
  from enforces_load [OF assms(1) from_json_expressible [OF this(1)] assms(3) lp] show ?thesis
    by (cases "snd pr") (auto intro: monitor_load monitor_reject monitor_disable)
qed

text \<open>The labels of loads of accepted documents.\<close>

definition only_loads :: "'j json_lib \<Rightarrow> sys_label list \<Rightarrow> bool" where
  "only_loads L ms \<longleftrightarrow> (\<exists>prs. ms = loads prs \<and> (\<forall>pr \<in> set prs. \<exists>t. from_json L t = Returns (Inr (fst pr))))"

lemma only_loads_nil: "only_loads L []"
  by (simp add: only_loads_def)

lemma only_loads_append: "only_loads L ms \<Longrightarrow> only_loads L ms' \<Longrightarrow> only_loads L (ms @ ms')"
  unfolding only_loads_def by (elim exE, rule_tac x = "prs @ prsa" in exI) auto

interpretation sessions_monitor:
  simulation "session_step (linux_ops B env) L R fmt" "monitor_step R" "\<lambda>_. only_loads L"
    "\<lambda>m s. bpf_laws B \<and> enforces B R m (d_controller (ss_daemon s))" for B env L R fmt
proof
  fix l s s' m
  assume step: "session_step (linux_ops B env) L R fmt l s s'"
    and rel: "bpf_laws B \<and> enforces B R m (d_controller (ss_daemon s))"
  from session_step_backend [OF step]
  show "\<exists>ms m'. only_loads L ms \<and> monitor_run R ms m m' \<and> bpf_laws B \<and> enforces B R m' (d_controller (ss_daemon s'))"
  proof
    assume "backend_of (ss_daemon s') = backend_of (ss_daemon s)"
    with rel enforces_backend [of "d_controller (ss_daemon s')" "d_controller (ss_daemon s)"] show ?thesis
      by (intro exI [of _ "[]"] exI [of _ m]) (simp add: only_loads_nil runs_nil)
  next
    assume "\<exists>pr d'. accepted_load (linux_ops B env) L R (ss_daemon s) pr d' \<and> backend_of (ss_daemon s') = backend_of d'"
    then obtain pr d' where load: "accepted_load (linux_ops B env) L R (ss_daemon s) pr d'"
      and same: "backend_of (ss_daemon s') = backend_of d'" by blast
    from rel enforces_accepted [OF _ load] obtain m' where
      m': "monitor_step R (Loaded (fst pr) (snd pr)) m m'" "enforces B R m' (d_controller d')" by blast
    have "only_loads L [Loaded (fst pr) (snd pr)]"
      unfolding only_loads_def by (rule exI [of _ "[pr]"]) (use load in \<open>auto simp: accepted_load_def\<close>)
    with rel m' enforces_backend [OF same] show ?thesis
      by (intro exI [of _ "[Loaded (fst pr) (snd pr)]"] exI [of _ m']) (simp add: runs_one)
  qed
qed

lemma reach_runs:
  "session_reach ok ops L R fmt d0 s \<Longrightarrow> \<exists>acts. runs (session_step ops L R fmt) acts (sessions_new d0) s"
proof (induction rule: session_reach.induct)
  case init
  show ?case by (rule exI, rule runs_nil)
next
  case (step s a s')
  then show ?case by (blast intro: runs_snoc)
qed

text \<open>C14. Clients cannot get around the policy: in every run of the daemon's connections, with any
  bytes in any chunks on any number of connections, interleaved with events, disconnections and
  stops, the kernel enforces the monitor's policy, and that policy changes only by loads of
  documents the parser accepted, in the order they took effect.\<close>

theorem sessions_mediated:
  assumes "bpf_laws B" and "session_reach ok (linux_ops B env) L R fmt d0 s"
    and "enforces B R m (d_controller d0)"
  shows "\<exists>prs m'. monitor_run R (loads prs) m m' \<and> enforces B R m' (d_controller (ss_daemon s)) \<and>
    (\<forall>pr \<in> set prs. \<exists>t. from_json L t = Returns (Inr (fst pr)))"
proof -
  obtain acts where run: "runs (session_step (linux_ops B env) L R fmt) acts (sessions_new d0) s"
    using reach_runs [OF assms(2)] by blast
  have "enforces B R m (d_controller (ss_daemon (sessions_new d0)))"
    using assms(3) by (simp add: sessions_new_def)
  with sessions_monitor.runs_followed [OF run, of m] assms(1) obtain mss m' where
    t: "list_all2 (\<lambda>_. only_loads L) acts mss"
    and m': "monitor_run R (concat mss) m m'" "enforces B R m' (d_controller (ss_daemon s))" by blast
  from t have "only_loads L (concat mss)"
    by (induction rule: list_all2_induct) (auto simp: only_loads_append only_loads_nil)
  then obtain prs where "concat mss = loads prs" "\<forall>pr \<in> set prs. \<exists>t. from_json L t = Returns (Inr (fst pr))"
    by (auto simp: only_loads_def)
  with m' show ?thesis by (intro exI [of _ prs] exI [of _ m']) simp
qed

text \<open>A client loads the sample policy into a daemon that enforces nothing yet.\<close>

definition idle_daemon :: "((fileguard_file_id \<times> fileguard_protected_val) list,
    (fileguard_rule_key \<times> fileguard_rule_val) list, fileguard_config) linux_enforcer daemon" where
  "idle_daemon = session_daemon\<lparr>d_controller := (d_controller session_daemon)\<lparr>ct_enforcer := Some fresh_enforcer\<rparr>\<rparr>"

lemma idle_daemon_load:
  "\<exists>c. load_policy (linux_ops demo_sys demo_env) demo_resolver (Some sample_policy) (d_controller idle_daemon) = Some (Inr (), c)"
proof -
  have cp: "compile demo_resolver sample_policy = Inr ((demo_compiled 300)\<lparr>cp_version := 3\<rparr>)"
    and ok: "validate sample_policy = Inr ()"
    by (simp_all add: compile_def sample_policy_def validate_def demo_resolver_def demo_compiled_def file_id_valid_def)
  have "\<exists>e. linux_apply_policy demo_sys fresh_enforcer ((demo_compiled 300)\<lparr>cp_version := 3\<rparr>) = Some (Inr (), e)"
    by (simp add: linux_apply_policy_def fresh_enforcer_def install_maps_def demo_defs demo_sys_def set_config_def
        clear_protected_def clear_rules_def clear_map_def clear_loop.simps alist_ops_def alist_next_def
        alist_update_def Let_def to_abi_def demo_fid_def ENOENT_def zero_config_def rule_key_def rule_val_def)
  then show ?thesis
    by (auto simp: load_policy_def cp ok load_apply_def idle_daemon_def linux_ops_def backend_ops_def load_install_def)
qed

theorem sessions_mediated_witness:
  "\<exists>s prs m'. session_reach (\<lambda>_ _. True) (linux_ops demo_sys demo_env) load_lib demo_resolver demo_time idle_daemon s \<and>
     ss_out s 0 = ''a'' @ [newline] \<and> monitor_run demo_resolver (loads prs) None m' \<and>
     enforces demo_sys demo_resolver m' (d_controller (ss_daemon s))"
proof -
  let ?step = "session_step (linux_ops demo_sys demo_env) load_lib demo_resolver demo_time"
  let ?reach = "session_reach (\<lambda>_ _. True) (linux_ops demo_sys demo_env) load_lib demo_resolver demo_time idle_daemon"
  obtain c where c: "load_policy (linux_ops demo_sys demo_env) demo_resolver (Some sample_policy)
      (d_controller idle_daemon) = Some (Inr (), c)" using idle_daemon_load by blast
  note line = handle_load_line [OF load_lib_laws sample_expressible load_lib_dump(1) c load_lib_dump(2,3)]
  let ?s0 = "sessions_new idle_daemon"
  let ?s1 = "accept_conn 5 ?s0"
  let ?s2 = "set_conn 0 (Some \<lparr>cn_fd = 5, cn_phase = Serving ([] @ ''r'' @ [newline])\<rparr>) ?s1"
  let ?s3 = "set_conn 0 (Some \<lparr>cn_fd = 5, cn_phase = Serving []\<rparr>)
    (send_to 5 (''a'' @ [newline]) (?s2\<lparr>ss_daemon := idle_daemon\<lparr>d_controller := c\<rparr>\<rparr>))"
  have r1: "?reach ?s1"
    by (rule session_reach.step [OF session_reach.init _ session_step.accept]) (simp_all add: sessions_new_def)
  have "?step (Receives 0 (''r'' @ [newline])) ?s1 ?s2"
    by (rule session_step.receive) (simp_all add: accept_conn_def sessions_new_def idle_daemon_def
        session_daemon_def demo_daemon_def)
  with r1 have r2: "?reach ?s2" by (rule session_reach.step [OF _ TrueI])
  have cut: "cut_line ([] @ ''r'' @ [newline]) = Some (''r'', [])" using cut_line_append [of "''r''" "[]"] by simp
  have "?step (Handles 0) ?s2 ?s3"
    by (rule session_step.reply [OF _ _ cut])
       (use line in \<open>simp_all add: set_conn_def accept_conn_def sessions_new_def\<close>)
  with r2 have r3: "?reach ?s3" by (rule session_reach.step [OF _ TrueI])
  have "enforces demo_sys demo_resolver None (d_controller idle_daemon)"
    using fresh_enforces [of demo_resolver] by (simp add: enforces_def fresh_system_def idle_daemon_def controller_with_def)
  from sessions_mediated [OF demo_sys_laws r3 this] r3 show ?thesis
    by (intro exI [of _ ?s3]) (auto simp: set_conn_def send_to_def accept_conn_def sessions_new_def)
qed

end
