(* ===== verification/Live_Daemon.thy ===== *)
theory Live_Daemon
  imports Load_Agreement Mediation
begin

text \<open>
  The running daemon with concurrent loads: the connections of \<open>Sessions\<close> and the loading threads of
  \<open>Load_Concurrency\<close> in one step relation (\<open>live_step\<close>). A connection whose next line is a load request
  is a loading thread with the connection's number: it calls \<open>load_policy\<close>, makes its libbpf calls
  one by one under the backend's mutex while the other connections go on, and then builds its reply.
  \<open>Sessions\<close> and \<open>Mediation\<close> have a request as one step.
\<close>

section \<open>State\<close>

record ('p, 'r, 'c) live =
  lv_sessions :: "('p, 'r, 'c) linux_enforcer sessions"
  lv_ring :: "fileguard_event list"
  lv_holder :: "nat option" \<comment> \<open>the connection that owns \<open>state_mu_\<close>\<close>
  lv_loads :: "nat \<Rightarrow> load_pc"
  lv_pending :: "nat \<Rightarrow> unit result option" \<comment> \<open>what \<open>load_policy\<close> returned, the reply not built yet\<close>

abbreviation lv_controller :: "('p, 'r, 'c) live \<Rightarrow> (('p, 'r, 'c) linux_enforcer, stream_client) controller" where
  "lv_controller z \<equiv> d_controller (ss_daemon (lv_sessions z))"

text \<open>The loading threads with the controller they share.\<close>

definition lv_conc :: "('p, 'r, 'c) live \<Rightarrow> ('p, 'r, 'c, stream_client) conc" where
  "lv_conc z = \<lparr>cs_system = \<lparr>sy_controller = lv_controller z, sy_ring = lv_ring z\<rparr>,
     cs_holder = lv_holder z, cs_threads = lv_loads z\<rparr>"

definition lv_put :: "('p, 'r, 'c, stream_client) conc \<Rightarrow> ('p, 'r, 'c) live \<Rightarrow> ('p, 'r, 'c) live" where
  "lv_put x z = z\<lparr>lv_sessions := (lv_sessions z)\<lparr>ss_daemon := (ss_daemon (lv_sessions z))\<lparr>d_controller := cs_controller x\<rparr>\<rparr>,
     lv_ring := sy_ring (cs_system x), lv_holder := cs_holder x, lv_loads := cs_threads x\<rparr>"

definition live_new :: "('p, 'r, 'c) linux_enforcer daemon \<Rightarrow> ('p, 'r, 'c) live" where
  "live_new d = \<lparr>lv_sessions = sessions_new d, lv_ring = [], lv_holder = None, lv_loads = (\<lambda>_. Idle), lv_pending = (\<lambda>_. None)\<rparr>"

lemma lv_put_conc [simp]: "lv_conc (lv_put x z) = x"
  by (simp add: lv_conc_def lv_put_def)

lemma lv_conc_simps [simp]:
  "cs_controller (lv_conc z) = lv_controller z" "cs_holder (lv_conc z) = lv_holder z" "cs_threads (lv_conc z) = lv_loads z"
  "lv_controller (lv_put x z) = cs_controller x" "lv_loads (lv_put x z) = cs_threads x" "lv_holder (lv_put x z) = cs_holder x"
  "lv_pending (lv_put x z) = lv_pending z" "ss_conns (lv_sessions (lv_put x z)) = ss_conns (lv_sessions z)"
  "ss_alive (lv_sessions (lv_put x z)) = ss_alive (lv_sessions z)" "ss_fds (lv_sessions (lv_put x z)) = ss_fds (lv_sessions z)"
  "ss_out (lv_sessions (lv_put x z)) = ss_out (lv_sessions z)"
  by (simp_all add: lv_conc_def lv_put_def)

section \<open>A load request, in parts\<close>

text \<open>The policy with which \<open>handle_request\<close> calls \<open>load_policy\<close> for a line, if it does.\<close>

definition load_of :: "'j json_lib \<Rightarrow> string \<Rightarrow> policy option" where
  "load_of L line =
     (case jl_parse L line of
        Inl what \<Rightarrow> None
      | Inr req \<Rightarrow>
          if jl_value_string L req ''cmd'' [] \<noteq> Returns ''load_policy'' then None
          else (case jl_find L req ''policy'' of
              None \<Rightarrow> None
            | Some doc \<Rightarrow>
                if \<not> jl_is_object L doc then None
                else (case obind (jl_dump L doc) (from_json L) of Returns (Inr policy) \<Rightarrow> Some policy | _ \<Rightarrow> None)))"

text \<open>The reply, built from the result and the policy manager's version at that time.\<close>

definition load_reply ::
  "'j json_lib \<Rightarrow> unit result \<Rightarrow> ('e, 'k) controller \<Rightarrow> line_end" where
  "load_reply L r c =
     (case jl_dump L (case r of
          Inl e \<Rightarrow> error_json L e
        | Inr _ \<Rightarrow> jl_object L [(''ok'', jl_bool L True),
            (''policy_version'', jl_number L (sint (pm_version (ct_policy_manager c))))]) of
        Throws m \<Rightarrow> Crashed m
      | Returns s \<Rightarrow> Replied (s @ [newline]))"

definition asks_status :: "'j json_lib \<Rightarrow> string \<Rightarrow> bool" where
  "asks_status L line = (case jl_parse L line of Inl _ \<Rightarrow> False | Inr req \<Rightarrow> jl_value_string L req ''cmd'' [] = Returns ''status'')"

text \<open>The parts put together again are \<open>handle_line\<close>.\<close>

lemma handle_line_load:
  assumes "load_of L line = Some p"
  shows "handle_line ops L R line d =
    (case load_policy ops R (Some p) (d_controller d) of
       None \<Rightarrow> None
     | Some (r, c) \<Rightarrow> Some (load_reply L r c, d\<lparr>d_controller := c\<rparr>))"
proof -
  from assms obtain req doc where q: "jl_parse L line = Inr req" "jl_value_string L req ''cmd'' [] = Returns ''load_policy''"
    "jl_find L req ''policy'' = Some doc" "jl_is_object L doc" "obind (jl_dump L doc) (from_json L) = Returns (Inr p)"
    by (auto simp: load_of_def split: sum.splits if_splits option.splits outcome.splits)
  show ?thesis
    by (simp add: handle_line_def q handle_request_def handle_load_def Let_def load_reply_def
        split: option.splits sum.splits)
qed

lemma load_of_parsed: "load_of L line = Some p \<Longrightarrow> \<exists>t. from_json L t = Returns (Inr p)"
  by (auto simp: load_of_def obind_eq_Returns split: sum.splits if_splits option.splits outcome.splits)

lemma handle_line_no_load:
  assumes "load_of L line = None" and "handle_line ops L R line d = Some (r, d')"
  shows "backend_of d' = backend_of d"
proof -
  have "d' = d \<or> d' = snd (daemon_stop (d\<lparr>d_running := False\<rparr>))"
  proof (cases "jl_parse L line")
    case (Inl what)
    with assms(2) show ?thesis by (simp add: handle_line_def)
  next
    case (Inr req)
    from assms(2) Inr obtain r1 where hr: "handle_request ops L R req d = Some (r1, d')"
      by (auto simp: handle_line_def Let_def split: option.splits outcome.splits if_splits bool.splits)
    show ?thesis
    proof (cases "jl_value_string L req ''cmd'' [] = Returns ''load_policy''")
      case True
      with assms(1) Inr hr show ?thesis
        by (auto simp: load_of_def handle_request_def handle_load_def Let_def split: option.splits if_splits outcome.splits sum.splits)
    next
      case False
      with hr show ?thesis by (auto simp: handle_request_def split: outcome.splits if_splits)
    qed
  qed
  then show ?thesis by (auto simp: daemon_stop_backend)
qed

section \<open>Steps\<close>

datatype live_label = In_Session session_action | In_Load conc_label | Answers nat

text \<open>The line a connection's thread is at.\<close>

definition line_at :: "('p, 'r, 'c) live \<Rightarrow> nat \<Rightarrow> string option" where
  "line_at z n = (case ss_conns (lv_sessions z) n of
     Some c \<Rightarrow> (case cn_phase c of Serving buf \<Rightarrow> map_option fst (cut_line buf) | _ \<Rightarrow> None) | None \<Rightarrow> None)"

text \<open>What a connection does in one step without the backend: any request that is not a load;
  a status request waits for the mutex. Events come from the ring buffer.\<close>

fun own_step :: "'j json_lib \<Rightarrow> ('p, 'r, 'c) live \<Rightarrow> session_action \<Rightarrow> bool" where
  "own_step L z (Handles n) =
     (case line_at z n of None \<Rightarrow> True | Some line \<Rightarrow> load_of L line = None \<and> (asks_status L line \<longrightarrow> lv_holder z = None))"
| "own_step L z (Emits raw) = False"
| "own_step L z a = True"

text \<open>The steps of the loading threads, the poller, \<open>detach\<close> and the kernel that are neither the call
  nor the return of a load; the consumer's are those of \<open>Sessions\<close>.\<close>

fun inner_load :: "conc_label \<Rightarrow> bool" where
  "inner_load (Called n p) = False"
| "inner_load (Load_Returned n r) = False"
| "inner_load (System_Step (Consumed ev)) = False"
| "inner_load l = True"

inductive live_step ::
  "('p, 'r, 'c) bpf_sys \<Rightarrow> ('p, 'r, 'c) load_env \<Rightarrow> 'j json_lib \<Rightarrow> file_resolver \<Rightarrow> (int \<Rightarrow> string) \<Rightarrow>
     live_label \<Rightarrow> ('p, 'r, 'c) live \<Rightarrow> ('p, 'r, 'c) live \<Rightarrow> bool"
  for B env L R fmt where
  live_session: "session_step (linux_ops B env) L R fmt a (lv_sessions z) s \<Longrightarrow> own_step L z a \<Longrightarrow>
    live_step B env L R fmt (In_Session a) z (z\<lparr>lv_sessions := s\<rparr>)"
| live_call: "ss_alive (lv_sessions z) \<Longrightarrow> line_at z n = Some line \<Longrightarrow> line \<noteq> [] \<Longrightarrow> load_of L line = Some p \<Longrightarrow>
    lv_pending z n = None \<Longrightarrow> conc_step B env L (stream_ops L) R fmt (Called n p) (lv_conc z) x \<Longrightarrow>
    live_step B env L R fmt (In_Load (Called n p)) z (lv_put x z)"
| live_inner: "ss_alive (lv_sessions z) \<Longrightarrow> inner_load l \<Longrightarrow> conc_step B env L (stream_ops L) R fmt l (lv_conc z) x \<Longrightarrow>
    live_step B env L R fmt (In_Load l) z (lv_put x z)"
| live_return: "ss_alive (lv_sessions z) \<Longrightarrow>
    conc_step B env L (stream_ops L) R fmt (Load_Returned n r) (lv_conc z) x \<Longrightarrow>
    live_step B env L R fmt (In_Load (Load_Returned n r)) z ((lv_put x z)\<lparr>lv_pending := (lv_pending z)(n \<mapsto> r)\<rparr>)"
| live_answer: "ss_alive (lv_sessions z) \<Longrightarrow> lv_pending z n = Some r \<Longrightarrow>
    ss_conns (lv_sessions z) n = Some \<lparr>cn_fd = fd, cn_phase = Serving buf\<rparr> \<Longrightarrow> cut_line buf = Some (line, rest) \<Longrightarrow>
    load_reply L r (lv_controller z) = Replied out \<Longrightarrow>
    live_step B env L R fmt (Answers n) z
      (z\<lparr>lv_sessions := set_conn n (Some \<lparr>cn_fd = fd, cn_phase = Serving rest\<rparr>) (send_to fd out (lv_sessions z)),
         lv_pending := (lv_pending z)(n := None)\<rparr>)"
| live_answer_crash: "ss_alive (lv_sessions z) \<Longrightarrow> lv_pending z n = Some r \<Longrightarrow> load_reply L r (lv_controller z) = Crashed m \<Longrightarrow>
    live_step B env L R fmt (Answers n) z
      (z\<lparr>lv_sessions := (lv_sessions z)\<lparr>ss_alive := False\<rparr>, lv_pending := (lv_pending z)(n := None)\<rparr>)"


section \<open>What the connections leave alone\<close>

lemma session_step_own:
  assumes "session_step ops L R fmt a (lv_sessions z) s" and "own_step L z a"
  shows "backend_of (ss_daemon s) = backend_of (ss_daemon (lv_sessions z))"
  using assms
  by cases (auto simp: session_frame backend_frame line_at_def dest!: handle_line_no_load dest: pipeline_backend)

lemma serial_rel_controller:
  assumes "serial_rel B a x" and "conc_ok B R P a" and "ct_enforcer c = cs_enforcer x"
  shows "\<exists>a'. serial_rel B a' (set_controller c x) \<and> conc_ok B R P a'"
  using assms(1)
proof (cases rule: serial_rel_cases)
  case free
  with assms(2,3) show ?thesis by (intro exI [of _ "set_controller c x"]) (simp add: serial_rel_def conc_ok_def)
next
  case (held t p cp pc e0 e)
  have "serial_rel B (rewind t p cp e0 (set_controller c x)) (set_controller c x)"
    using held assms(3) by (auto simp: serial_rel_def)
  moreover have "conc_ok B R P (rewind t p cp e0 (set_controller c x))"
    using assms(2) held(5) by (simp add: conc_ok_def with_enforcer_def)
  ultimately show ?thesis by blast
qed

lemma lv_conc_session: "lv_conc (z\<lparr>lv_sessions := s\<rparr>) = set_controller (d_controller (ss_daemon s)) (lv_conc z)"
  by (simp add: lv_conc_def conc_sets)

lemma lv_conc_same:
  "lv_controller z' = lv_controller z \<Longrightarrow> lv_ring z' = lv_ring z \<Longrightarrow> lv_holder z' = lv_holder z \<Longrightarrow> lv_loads z' = lv_loads z \<Longrightarrow>
     lv_conc z' = lv_conc z"
  by (simp add: lv_conc_def)

section \<open>The kernel under the whole daemon\<close>

fun pc_policy :: "load_pc \<Rightarrow> policy option" where
  "pc_policy (Entered p) = Some p"
| "pc_policy (load_pc.Waiting p cp) = Some p"
| "pc_policy (Applying p cp pc) = Some p"
| "pc_policy (Applied p cp) = Some p"
| "pc_policy (Swapped p) = Some p"
| "pc_policy pc = None"

text \<open>Every policy under way is that of some request line.\<close>

definition requested :: "'j json_lib \<Rightarrow> policy \<Rightarrow> bool" where
  "requested L p \<longleftrightarrow> (\<exists>line. load_of L line = Some p)"

definition loads_requested :: "'j json_lib \<Rightarrow> (nat \<Rightarrow> load_pc) \<Rightarrow> bool" where
  "loads_requested L ts \<longleftrightarrow> (\<forall>n. pred_option (requested L) (pc_policy (ts n)))"

lemma loads_requested_upd:
  "loads_requested L ts \<Longrightarrow> pred_option (requested L) (pc_policy pc) \<Longrightarrow> loads_requested L (ts(n := pc))"
  by (simp add: loads_requested_def)

lemma loads_requestedD: "loads_requested L ts \<Longrightarrow> ts n = pc \<Longrightarrow> pc_policy pc = Some p \<Longrightarrow> requested L p"
  unfolding loads_requested_def by (metis option.pred_inject(2))

lemma free_step_requested:
  assumes "free_step B env L K R fmt l s s'" and "loads_requested L (cs_threads s)" and "\<forall>n p. l = Called n p \<longrightarrow> requested L p"
  shows "loads_requested L (cs_threads s')"
  using assms(1) by cases (use assms(2,3) in \<open>auto intro!: loads_requested_upd dest: loads_requestedD\<close>)

lemma conc_step_requested:
  assumes "conc_step B env L K R fmt l s s'" and "loads_requested L (cs_threads s)" and "\<forall>n p. l = Called n p \<longrightarrow> requested L p"
  shows "loads_requested L (cs_threads s') \<and> (\<forall>t p pc. l = Map_Call t p pc \<longrightarrow> requested L p)"
  using assms(1)
proof cases
  case conc_free
  from free_step_frame [OF this] free_step_requested [OF this assms(2,3)] show ?thesis by auto
next
  case (conc_unlock t p cp r)
  with assms(2) show ?thesis by (cases r) (auto intro!: loads_requested_upd dest: loads_requestedD)
qed (use assms(2) in \<open>auto intro!: loads_requested_upd dest: loads_requestedD\<close>)

definition live_trace :: "'j json_lib \<Rightarrow> live_label \<Rightarrow> kernel_label list \<Rightarrow> bool" where
  "live_trace L l ks \<longleftrightarrow> (case l of In_Load k \<Rightarrow> kernel_trace k ks | _ \<Rightarrow> ks = []) \<and>
     (\<forall>p. On p \<in> set ks \<longrightarrow> requested L p)"

definition live_rel ::
  "('p, 'r, 'c) bpf_sys \<Rightarrow> 'j json_lib \<Rightarrow> file_resolver \<Rightarrow> policy option \<Rightarrow> ('p, 'r, 'c) live \<Rightarrow> bool" where
  "live_rel B L R m z \<longleftrightarrow> bpf_laws B \<and> (\<exists>a P. serial_rel B a (lv_conc z) \<and> conc_ok B R P a) \<and>
     enforces B R m (lv_controller z) \<and> loads_requested L (lv_loads z)"

lemma kernel_trace_on: "kernel_trace l ks \<Longrightarrow> On p \<in> set ks \<Longrightarrow> \<exists>t. l = Map_Call t p At_Enable"
  by (induction l ks rule: kernel_trace.induct) auto

lemma live_conc_followed:
  assumes "conc_step B env L (stream_ops L) R fmt l (lv_conc z) x" and "live_rel B L R m z"
    and "\<forall>n p. l = Called n p \<longrightarrow> requested L p"
  shows "\<exists>ks m'. live_trace L (In_Load l) ks \<and> runs (kernel_monitor R) ks m m' \<and> live_rel B L R m' (lv_put x z)"
proof -
  from assms(2) obtain a P where a: "serial_rel B a (lv_conc z)" "conc_ok B R P a" and laws: "bpf_laws B"
    and en: "enforces B R m (cs_controller (lv_conc z))" and rq: "loads_requested L (cs_threads (lv_conc z))"
    by (auto simp: live_rel_def)
  from conc_step_monitored [OF laws assms(1) a en] obtain ks m' where
    k: "kernel_trace l ks" "runs (kernel_monitor R) ks m m'" "enforces B R m' (cs_controller x)" by blast
  from serial_kept [OF laws assms(1) a] have "\<exists>a P. serial_rel B a x \<and> conc_ok B R P a" .
  moreover from conc_step_requested [OF assms(1) rq assms(3)] have "loads_requested L (cs_threads x)"
    and "\<forall>p. On p \<in> set ks \<longrightarrow> requested L p" using kernel_trace_on [OF k(1)] by blast+
  ultimately show ?thesis using k laws
    by (intro exI [of _ ks] exI [of _ m']) (auto simp: live_trace_def live_rel_def)
qed

lemma live_rel_same:
  "lv_conc z' = lv_conc z \<Longrightarrow> live_rel B L R m z' = live_rel B L R m z"
  unfolding live_rel_def by (metis lv_conc_simps(1,3))

lemma live_silent: "live_rel B L R m z' \<Longrightarrow> (\<And>k. l \<noteq> In_Load k) \<Longrightarrow>
    \<exists>ks m'. live_trace L l ks \<and> runs (kernel_monitor R) ks m m' \<and> live_rel B L R m' z'"
  by (intro exI [of _ "[]"] exI [of _ m]) (cases l; auto simp: live_trace_def intro: runs_nil)

lemma live_step_followed:
  assumes "live_step B env L R fmt l z z'" and rel: "live_rel B L R m z"
  shows "\<exists>ks m'. live_trace L l ks \<and> runs (kernel_monitor R) ks m m' \<and> live_rel B L R m' z'"
  using assms(1)
proof cases
  case (live_session a s)
  from session_step_own [OF live_session(3,4)] have same: "backend_of (ss_daemon s) = cs_enforcer (lv_conc z)" by simp
  from rel obtain a P where "serial_rel B a (lv_conc z)" "conc_ok B R P a" by (auto simp: live_rel_def)
  from serial_rel_controller [OF this same] have "\<exists>a P. serial_rel B a (lv_conc z') \<and> conc_ok B R P a"
    unfolding live_session(2) lv_conc_session by blast
  moreover have "enforces B R m (lv_controller z')"
    using rel same by (simp add: live_rel_def live_session(2) enforces_def)
  ultimately have "live_rel B L R m z'" using rel by (simp add: live_rel_def live_session(2))
  from live_silent [OF this] show ?thesis by (simp add: live_session(1))
next
  case (live_call n line p x)
  have "requested L p" using live_call(6) by (auto simp: requested_def)
  with live_conc_followed [OF live_call(8) rel] show ?thesis by (simp add: live_call(1,2))
next
  case (live_inner k x)
  then have "\<forall>n p. k = Called n p \<longrightarrow> requested L p" by auto
  from live_conc_followed [OF live_inner(5) rel this] show ?thesis by (simp add: live_inner(1,2))
next
  case (live_return n r x)
  have "\<forall>m p. Load_Returned n r = Called m p \<longrightarrow> requested L p" by simp
  from live_conc_followed [OF live_return(4) rel this] have "\<exists>ks m'. live_trace L l ks \<and> runs (kernel_monitor R) ks m m' \<and> live_rel B L R m' (lv_put x z)"
    by (simp add: live_return(1))
  moreover have "lv_conc z' = lv_conc (lv_put x z)" unfolding live_return(2) by (rule lv_conc_same) simp_all
  ultimately show ?thesis using live_rel_same [of z' "lv_put x z"] by metis
next
  case (live_answer n r fd buf line rest out)
  have "lv_conc z' = lv_conc z" unfolding live_answer(2) by (rule lv_conc_same) (simp_all add: session_frame)
  with live_rel_same rel have "live_rel B L R m z'" by blast
  from live_silent [OF this] show ?thesis by (simp add: live_answer(1))
next
  case (live_answer_crash n r msg)
  have "lv_conc z' = lv_conc z" unfolding live_answer_crash(2) by (rule lv_conc_same) simp_all
  with live_rel_same rel have "live_rel B L R m z'" by blast
  from live_silent [OF this] show ?thesis by (simp add: live_answer_crash(1))
qed

interpretation live_monitor:
  simulation "live_step B env L R fmt" "kernel_monitor R" "live_trace L" "live_rel B L R" for B env L R fmt
  by unfold_locales (rule live_step_followed)


lemma live_new_conc: "lv_conc (live_new d) = running (d_controller d)"
  by (simp add: lv_conc_def live_new_def running_def sessions_new_def)

lemma live_new_rel:
  assumes "bpf_laws B" and "conc_ok B R P (running (d_controller d))" and "enforces B R m (d_controller d)"
  shows "live_rel B L R m (live_new d)"
proof -
  have "serial_rel B (running (d_controller d)) (running (d_controller d))" by (simp add: serial_rel_def running_def)
  with assms show ?thesis
    by (auto simp: live_rel_def live_new_conc) (simp_all add: live_new_def sessions_new_def loads_requested_def)
qed

section \<open>Every load request is answered\<close>

text \<open>The loading threads alone: from any state of a load some steps lead to its return.\<close>

definition returns ::
  "('p, 'r, 'c) bpf_sys \<Rightarrow> ('p, 'r, 'c) load_env \<Rightarrow> 'j json_lib \<Rightarrow> 'k client_ops \<Rightarrow> file_resolver \<Rightarrow>
     (int \<Rightarrow> string) \<Rightarrow> nat \<Rightarrow> ('p, 'r, 'c, 'k) conc \<Rightarrow> bool" where
  "returns B env L K R fmt t s \<longleftrightarrow> (\<exists>ls s' r s''. runs (conc_step B env L K R fmt) ls s s' \<and> list_all inner_load ls \<and>
     conc_step B env L K R fmt (Load_Returned t r) s' s'' \<and> cs_threads s'' t = Idle)"

lemma returns_now: "conc_step B env L K R fmt (Load_Returned t r) s s' \<Longrightarrow> cs_threads s' t = Idle \<Longrightarrow> returns B env L K R fmt t s"
  unfolding returns_def by (intro exI [of _ "[]"] exI [of _ s] exI [of _ r] exI [of _ s']) (simp add: runs_nil)

lemma returns_runs:
  assumes "runs (conc_step B env L K R fmt) ls s s1" and "list_all inner_load ls" and "returns B env L K R fmt t s1"
  shows "returns B env L K R fmt t s"
proof -
  from assms(3) obtain ls' s' r s'' where "runs (conc_step B env L K R fmt) ls' s1 s'" "list_all inner_load ls'"
    "conc_step B env L K R fmt (Load_Returned t r) s' s''" "cs_threads s'' t = Idle" unfolding returns_def by blast
  with runs_append [OF this(1) assms(1)] assms(2) show ?thesis
    unfolding returns_def by (intro exI [of _ "ls @ ls'"] exI [of _ s'] exI [of _ r] exI [of _ s'']) simp
qed

lemma returns_step:
  "conc_step B env L K R fmt l s s1 \<Longrightarrow> inner_load l \<Longrightarrow> returns B env L K R fmt t s1 \<Longrightarrow> returns B env L K R fmt t s"
  by (rule returns_runs [OF runs_one]) simp_all

lemma failed_returns: "cs_threads s t = Failed e \<Longrightarrow> returns B env L K R fmt t s"
  by (rule returns_now [OF conc_free [OF free_error]]) simp_all

lemma swapped_returns:
  assumes "cs_threads s t = Swapped p"
  shows "returns B env L K R fmt t s"
proof -
  obtain r c where "load_install p (cs_controller s) = (r, c)" by (metis prod.exhaust)
  from returns_now [OF conc_free [OF free_install [OF assms this]]] show ?thesis by simp
qed

lemma applied_returns: "cs_threads s t = Applied p cp \<Longrightarrow> returns B env L K R fmt t s"
  by (rule returns_step [OF conc_free [OF free_resolver]]) (simp, simp, rule swapped_returns [of _ t p], simp)

lemma owner_unlocks:
  assumes "bpf_laws B" and "cs_threads s t = Applying p cp pc" and "cs_enforcer s = Some e"
    and "apply_reaches B cp (At_Entry, e0) (pc, e)"
  shows "\<exists>ls s' r e'. runs (conc_step B env L K R fmt) ls s s' \<and> list_all inner_load ls \<and> cs_holder s' = None \<and>
    cs_threads s' t = after_apply p cp r \<and> cs_enforcer s' = Some e' \<and> (\<forall>u. u \<noteq> t \<longrightarrow> cs_threads s' u = cs_threads s u)"
proof -
  from reaches_continue [OF assms(1,4)] obtain n r e' where "(apply_step B cp ^^ n) (pc, e) = (Returned r, e')" by blast
  from owner_runs [OF this assms(2,3)] obtain own s1 where run: "runs (conc_step B env L K R fmt) own s s1"
    and own: "\<forall>l \<in> set own. \<exists>pc. l = Map_Call t p pc" and t1: "cs_threads s1 t = Applying p cp (Returned r)"
    and e1: "cs_enforcer s1 = Some e'" and others: "\<forall>u. u \<noteq> t \<longrightarrow> cs_threads s1 u = cs_threads s u" by metis
  from own have "list_all inner_load own" by (auto simp: list_all_iff)
  with runs_snoc [OF run conc_unlock [OF t1]] e1 others show ?thesis
    by (intro exI [of _ "own @ [Unlocked t p r]"] exI [of _ "set_holder None (set_thread t (after_apply p cp r) s1)"] exI [of _ r] exI [of _ e']) simp
qed

lemma applying_returns:
  assumes "bpf_laws B" and "cs_threads s t = Applying p cp pc" and "cs_enforcer s = Some e"
    and "apply_reaches B cp (At_Entry, e0) (pc, e)"
  shows "returns B env L K R fmt t s"
proof -
  from owner_unlocks [OF assms, of env L K R fmt] obtain ls s' r where
    "runs (conc_step B env L K R fmt) ls s s'" "list_all inner_load ls" "cs_threads s' t = after_apply p cp r" by blast
  with returns_runs applied_returns failed_returns show ?thesis by (cases r) fastforce+
qed

text \<open>What is known of a thread that holds the mutex.\<close>

definition holder_ok :: "('p, 'r, 'c) bpf_sys \<Rightarrow> ('p, 'r, 'c, 'k) conc \<Rightarrow> bool" where
  "holder_ok B s \<longleftrightarrow> (\<forall>t. cs_holder s = Some t \<longrightarrow> (\<exists>p cp pc e0 e. cs_threads s t = Applying p cp pc \<and>
     cs_enforcer s = Some e \<and> apply_reaches B cp (At_Entry, e0) (pc, e)))"

lemma waiting_returns:
  assumes laws: "bpf_laws B" and t: "cs_threads s t = load_pc.Waiting p cp" and ok: "holder_ok B s"
  shows "returns B env L K R fmt t s"
proof -
  have free: "returns B env L K R fmt t s1" if "cs_threads s1 t = load_pc.Waiting p cp" "cs_holder s1 = None" for s1
  proof (cases "cs_enforcer s1")
    case None
    have "returns B env L K R fmt t (set_thread t (Applied p cp) s1)" by (rule applied_returns [of _ t p cp]) simp
    from returns_step [OF conc_free [OF free_no_backend [OF that(1) None]] _ this] show ?thesis by simp
  next
    case (Some e)
    let ?s2 = "set_holder (Some t) (set_thread t (Applying p cp At_Entry) s1)"
    have "returns B env L K R fmt t ?s2"
      by (rule applying_returns [OF laws _ _ reaches_refl, of _ t p cp e]) (simp_all add: Some)
    with returns_step [OF conc_lock [OF that(1) Some that(2)]] show ?thesis by simp
  qed
  show ?thesis
  proof (cases "cs_holder s")
    case None
    with free t show ?thesis by blast
  next
    case (Some u)
    with ok obtain p' cp' pc e0 e where h: "cs_threads s u = Applying p' cp' pc" "cs_enforcer s = Some e"
      "apply_reaches B cp' (At_Entry, e0) (pc, e)" unfolding holder_ok_def by blast
    with t have "u \<noteq> t" by auto
    from owner_unlocks [OF laws h, of env L K R fmt] obtain ls s' where "runs (conc_step B env L K R fmt) ls s s'"
      "list_all inner_load ls" "cs_holder s' = None" "\<forall>v. v \<noteq> u \<longrightarrow> cs_threads s' v = cs_threads s v" by blast
    moreover from this(3,4) \<open>u \<noteq> t\<close> t have "returns B env L K R fmt t s'" by (intro free) auto
    ultimately show ?thesis by (intro returns_runs [of B env L K R fmt ls s s'])
  qed
qed

lemma load_returns:
  assumes laws: "bpf_laws B" and rel: "serial_rel B a s" and busy: "cs_threads s t \<noteq> Idle"
  shows "returns B env L K R fmt t s"
proof -
  have ok: "holder_ok B s"
    using rel by (cases rule: serial_rel_cases) (auto simp: holder_ok_def)
  show ?thesis
  proof (cases "cs_threads s t")
    case (Entered p)
    show ?thesis
    proof (cases "validate p")
      case (Inl e)
      have "returns B env L K R fmt t (set_thread t (Failed e) s)" by (rule failed_returns [of _ t e]) simp
      from returns_step [OF conc_free [OF free_invalid [OF Entered Inl]] _ this] show ?thesis by simp
    next
      case (Inr u)
      show ?thesis
      proof (cases "compile R p")
        case (Inl e)
        have "returns B env L K R fmt t (set_thread t (Failed e) s)" by (rule failed_returns [of _ t e]) simp
        from returns_step [OF conc_free [OF free_uncompilable [OF Entered _ Inl]] _ this] Inr show ?thesis by simp
      next
        case cp: (Inr cp)
        let ?s1 = "set_thread t (load_pc.Waiting p cp) s"
        from ok Entered have "holder_ok B ?s1" by (auto simp: holder_ok_def)
        then have "returns B env L K R fmt t ?s1" by (intro waiting_returns [OF laws, of _ _ p cp]) simp_all
        from returns_step [OF conc_free [OF free_prepare [OF Entered _ cp]] _ this] Inr show ?thesis by simp
      qed
    qed
  next
    case (Applying p cp pc)
    from serial_rel_applying [OF rel this] obtain e0 e where "cs_enforcer s = Some e" "apply_reaches B cp (At_Entry, e0) (pc, e)" .
    with applying_returns [OF laws Applying] show ?thesis by blast
  next
    case (Waiting p cp)
    from waiting_returns [OF laws Waiting ok] show ?thesis .
  qed (use busy in \<open>simp_all add: applied_returns swapped_returns failed_returns\<close>)
qed


text \<open>The steps of the loading threads are steps of the daemon.\<close>

lemma lv_put_same: "lv_put (lv_conc z) z = z"
  by (simp add: lv_put_def lv_conc_def)

lemma lv_put_put: "lv_put x (lv_put y z) = lv_put x z"
  by (simp add: lv_put_def)

lemma inner_runs_live:
  "runs (conc_step B env L (stream_ops L) R fmt) ls y x \<Longrightarrow> y = lv_conc z \<Longrightarrow> list_all inner_load ls \<Longrightarrow> ss_alive (lv_sessions z) \<Longrightarrow>
     runs (live_step B env L R fmt) (map In_Load ls) z (lv_put x z)"
proof (induction rule: runs.induct)
  case (runs_nil s)
  then show ?case by (simp add: lv_put_same runs.runs_nil)
next
  case (runs_snoc ls y x l x')
  then have run: "runs (live_step B env L R fmt) (map In_Load ls) z (lv_put x z)" and l: "inner_load l" by simp_all
  from live_inner [of "lv_put x z" l B env L R fmt x'] l runs_snoc.hyps(2) runs_snoc.prems(3)
  have "live_step B env L R fmt (In_Load l) (lv_put x z) (lv_put x' z)" by (simp add: lv_put_put)
  from runs.runs_snoc [of "live_step B env L R fmt", OF run this] show ?case by simp
qed

text \<open>A connection with a load under way is still at the line that asked for it.\<close>

definition busy_ok :: "'j json_lib \<Rightarrow> ('p, 'r, 'c) live \<Rightarrow> bool" where
  "busy_ok L z \<longleftrightarrow> (\<forall>n. ss_conns (lv_sessions z) n \<noteq> None \<longrightarrow> n < ss_next (lv_sessions z)) \<and>
     (\<forall>n. lv_pending z n \<noteq> None \<longrightarrow> lv_loads z n = Idle) \<and>
     (\<forall>n. lv_loads z n \<noteq> Idle \<or> lv_pending z n \<noteq> None \<longrightarrow> (\<exists>line. line_at z n = Some line \<and> load_of L line \<noteq> None))"

lemma line_at_put [simp]: "line_at (lv_put x z) n = line_at z n"
  by (simp add: line_at_def)

lemma line_at_conns: "ss_conns (lv_sessions z') n = ss_conns (lv_sessions z) n \<Longrightarrow> line_at z' n = line_at z n"
  by (simp add: line_at_def)

lemma conc_step_busy:
  assumes "conc_step B env L K R fmt l s s'" and "cs_threads s' n \<noteq> Idle"
  shows "cs_threads s n \<noteq> Idle \<or> (\<exists>p. l = Called n p)"
  using assms(1)
proof cases
  case conc_free
  then show ?thesis using assms(2) by cases (auto split: if_splits)
qed (use assms(2) in \<open>auto split: if_splits\<close>)

lemma set_conn_conns [simp]: "ss_conns (set_conn n c s) = (ss_conns s)(n := c)" "ss_next (set_conn n c s) = ss_next s"
  by (simp_all add: set_conn_def)

lemma session_step_lines:
  assumes "session_step ops L R fmt a (lv_sessions z) s" and "own_step L z a"
    and "\<forall>n. ss_conns (lv_sessions z) n \<noteq> None \<longrightarrow> n < ss_next (lv_sessions z)"
    and "line_at z n = Some line" and "load_of L line \<noteq> None"
  shows "ss_conns s n = ss_conns (lv_sessions z) n"
  using assms(1)
proof cases
  case (accept fd)
  have "ss_conns (lv_sessions z) n \<noteq> None" using assms(4) by (auto simp: line_at_def split: option.splits)
  with assms(3) have "n \<noteq> ss_next (lv_sessions z)" by auto
  then show ?thesis by (simp add: accept)
qed (use assms(2,4,5) in \<open>auto simp: line_at_def split: option.splits phase.splits\<close>)

lemma session_step_next:
  assumes "session_step ops L R fmt a s s'" and "\<forall>n. ss_conns s n \<noteq> None \<longrightarrow> n < ss_next s"
  shows "\<forall>n. ss_conns s' n \<noteq> None \<longrightarrow> n < ss_next s'"
  using assms by cases (auto simp: less_Suc_eq)

lemma busy_put:
  assumes "conc_step B env L K R fmt l (lv_conc z) x" and "busy_ok L z"
    and "\<forall>n p. l = Called n p \<longrightarrow> lv_pending z n = None \<and> (\<exists>line. line_at z n = Some line \<and> load_of L line \<noteq> None)"
  shows "busy_ok L (lv_put x z)"
proof -
  have nx: "ss_next (lv_sessions (lv_put x z)) = ss_next (lv_sessions z)" by (simp add: lv_put_def)
  from assms(2) have conns: "\<forall>n. ss_conns (lv_sessions z) n \<noteq> None \<longrightarrow> n < ss_next (lv_sessions z)"
    and idle: "lv_loads z n \<noteq> Idle \<Longrightarrow> lv_pending z n = None"
    and line: "lv_loads z n \<noteq> Idle \<or> lv_pending z n \<noteq> None \<Longrightarrow> \<exists>line. line_at z n = Some line \<and> load_of L line \<noteq> None" for n
    by (auto simp: busy_ok_def)
  have busy: "lv_pending z n = None \<and> (\<exists>line. line_at z n = Some line \<and> load_of L line \<noteq> None)" if "cs_threads x n \<noteq> Idle" for n
    using conc_step_busy [OF assms(1) that]
  proof
    assume "cs_threads (lv_conc z) n \<noteq> Idle"
    with idle line show ?thesis by simp
  next
    assume "\<exists>p. l = Called n p"
    with assms(3) show ?thesis by blast
  qed
  show ?thesis unfolding busy_ok_def line_at_put lv_conc_simps nx
  proof (intro conjI allI impI)
    fix n
    assume "lv_pending z n \<noteq> None"
    with busy [of n] show "cs_threads x n = Idle" by blast
  next
    fix n
    assume "cs_threads x n \<noteq> Idle \<or> lv_pending z n \<noteq> None"
    with busy [of n] line [of n] show "\<exists>line. line_at z n = Some line \<and> load_of L line \<noteq> None" by blast
  qed (use conns in blast)
qed

lemma busy_step:
  assumes "live_step B env L R fmt l z z'" and ok: "busy_ok L z"
  shows "busy_ok L z'"
  using assms(1)
proof cases
  case (live_session a s)
  from ok have nx: "\<forall>n. ss_conns (lv_sessions z) n \<noteq> None \<longrightarrow> n < ss_next (lv_sessions z)"
    and bz: "\<forall>n. lv_loads z n \<noteq> Idle \<or> lv_pending z n \<noteq> None \<longrightarrow> (\<exists>line. line_at z n = Some line \<and> load_of L line \<noteq> None)"
    by (simp_all add: busy_ok_def)
  have "\<exists>line. line_at z' n = Some line \<and> load_of L line \<noteq> None" if busy: "lv_loads z' n \<noteq> Idle \<or> lv_pending z' n \<noteq> None" for n
  proof -
    from busy have "lv_loads z n \<noteq> Idle \<or> lv_pending z n \<noteq> None" by (simp add: live_session(2))
    with bz obtain line where line: "line_at z n = Some line" "load_of L line \<noteq> None" by blast
    from session_step_lines [OF live_session(3,4) nx line] have "line_at z' n = line_at z n"
      by (intro line_at_conns) (simp add: live_session(2))
    with line show ?thesis by simp
  qed
  with session_step_next [OF live_session(3) nx] ok show ?thesis by (simp add: busy_ok_def live_session(2))
next
  case (live_call n line p x)
  show ?thesis unfolding live_call(2) by (rule busy_put [OF live_call(8) ok]) (use live_call(4,6,7) in auto)
next
  case (live_inner k x)
  show ?thesis unfolding live_inner(2) by (rule busy_put [OF live_inner(5) ok]) (use live_inner(4) in auto)
next
  case (live_return n r x)
  have p: "busy_ok L (lv_put x z)" by (rule busy_put [OF live_return(4) ok]) simp
  have "cs_threads (lv_conc z) n \<noteq> Idle \<and> cs_threads x n = Idle"
    using live_return(4) by cases (auto elim: free_step.cases)
  then obtain line where "cs_threads x n = Idle" "line_at z n = Some line" "load_of L line \<noteq> None" using ok by (auto simp: busy_ok_def)
  moreover have "line_at z' m = line_at z m" for m by (rule line_at_conns) (simp add: live_return(2))
  ultimately show ?thesis using p by (auto simp: busy_ok_def live_return(2) line_at_def)
next
  case (live_answer n r fd buf line rest out)
  have idle: "lv_loads z n = Idle" using ok live_answer(4) by (auto simp: busy_ok_def)
  have "line_at z' m = line_at z m" if "m \<noteq> n" for m using that by (intro line_at_conns) (simp add: live_answer(2))
  with ok idle show ?thesis by (auto simp: busy_ok_def live_answer(2,5))
next
  case (live_answer_crash n r m)
  have "line_at z' m = line_at z m" for m by (rule line_at_conns) (simp add: live_answer_crash(2))
  with ok show ?thesis by (auto simp: busy_ok_def live_answer_crash(2))
qed


lemma busy_new: "busy_ok L (live_new d)"
  by (simp add: busy_ok_def live_new_def sessions_new_def)

lemma busy_runs: "runs (live_step B env L R fmt) ls z z' \<Longrightarrow> busy_ok L z \<Longrightarrow> busy_ok L z'"
  by (induction rule: runs.induct) (auto intro: busy_step)

lemma line_atE:
  assumes "line_at z n = Some line"
  obtains fd buf rest where "ss_conns (lv_sessions z) n = Some \<lparr>cn_fd = fd, cn_phase = Serving buf\<rparr>" and "cut_line buf = Some (line, rest)"
proof -
  from assms obtain c buf where c: "ss_conns (lv_sessions z) n = Some c" "cn_phase c = Serving buf" "map_option fst (cut_line buf) = Some line"
    by (auto simp: line_at_def split: option.splits phase.splits)
  moreover from c(3) obtain rest where "cut_line buf = Some (line, rest)" by auto
  ultimately show thesis using that [of "cn_fd c" buf rest] by (cases c) simp
qed

text \<open>What a client sees of its answered request: the reply's bytes on its socket and the rest of
  its lines still to serve, or the crash of the process if the reply cannot be dumped.\<close>

definition answered ::
  "'j json_lib \<Rightarrow> unit result \<Rightarrow> nat \<Rightarrow> ('p, 'r, 'c) live \<Rightarrow> ('p, 'r, 'c) live \<Rightarrow> bool" where
  "answered L r n z z' \<longleftrightarrow> lv_loads z' n = Idle \<and> lv_pending z' n = None \<and>
     (case load_reply L r (lv_controller z') of
        Replied out \<Rightarrow> (\<exists>fd buf line rest. ss_conns (lv_sessions z) n = Some \<lparr>cn_fd = fd, cn_phase = Serving buf\<rparr> \<and>
          cut_line buf = Some (line, rest) \<and> ss_conns (lv_sessions z') n = Some \<lparr>cn_fd = fd, cn_phase = Serving rest\<rparr> \<and>
          ss_out (lv_sessions z') = ss_out (send_to fd out (lv_sessions z)) \<and> ss_alive (lv_sessions z'))
      | Crashed m \<Rightarrow> \<not> ss_alive (lv_sessions z')
      | Streams out \<Rightarrow> False)"

lemma send_to_out_cong:
  "ss_fds s' = ss_fds s \<Longrightarrow> ss_out s' = ss_out s \<Longrightarrow> ss_out (send_to fd out s') = ss_out (send_to fd out s)"
  by (simp add: send_to_def split: option.split)

lemma load_reply_cases:
  obtains out where "load_reply L r c = Replied out" | m where "load_reply L r c = Crashed m"
  by (cases "load_reply L r c") (auto simp: load_reply_def split: outcome.splits)

lemma pending_answered:
  assumes alive: "ss_alive (lv_sessions z)" and p: "lv_pending z n = Some r" and ok: "busy_ok L z"
  shows "\<exists>z'. live_step B env L R fmt (Answers n) z z' \<and> answered L r n z z'"
proof -
  from ok p have idle: "lv_loads z n = Idle" and "\<exists>line. line_at z n = Some line" by (auto simp: busy_ok_def)
  then obtain fd buf line rest where c: "ss_conns (lv_sessions z) n = Some \<lparr>cn_fd = fd, cn_phase = Serving buf\<rparr>"
    and cut: "cut_line buf = Some (line, rest)" by (blast elim: line_atE)
  show ?thesis
  proof (cases rule: load_reply_cases [of L r "lv_controller z"])
    case (1 out)
    let ?z = "z\<lparr>lv_sessions := set_conn n (Some \<lparr>cn_fd = fd, cn_phase = Serving rest\<rparr>) (send_to fd out (lv_sessions z)),
      lv_pending := (lv_pending z)(n := None)\<rparr>"
    have same: "lv_controller ?z = lv_controller z" "ss_alive (lv_sessions ?z) = ss_alive (lv_sessions z)"
      "ss_out (lv_sessions ?z) = ss_out (send_to fd out (lv_sessions z))" by (simp_all add: session_frame set_conn_def send_to_def split: option.split)
    have "answered L r n z ?z" unfolding answered_def same(1) 1 using idle alive c cut same(2,3) by simp
    with live_answer [OF alive p c cut 1] show ?thesis by blast
  next
    case (2 m)
    let ?z = "z\<lparr>lv_sessions := (lv_sessions z)\<lparr>ss_alive := False\<rparr>, lv_pending := (lv_pending z)(n := None)\<rparr>"
    have "answered L r n z ?z" by (simp add: answered_def 2 idle)
    with live_answer_crash [OF alive p 2] show ?thesis by blast
  qed
qed

lemma answered_put:
  assumes "answered L r n ((lv_put x z)\<lparr>lv_pending := f\<rparr>) z'"
  shows "answered L r n z z'"
proof -
  have "ss_out (send_to fd out (lv_sessions ((lv_put x z)\<lparr>lv_pending := f\<rparr>))) = ss_out (send_to fd out (lv_sessions z))" for fd out
    by (rule send_to_out_cong) simp_all
  with assms show ?thesis by (simp add: answered_def split: line_end.splits)
qed

lemma busy_load_answered:
  assumes rel: "live_rel B L R m z" and ok: "busy_ok L z" and alive: "ss_alive (lv_sessions z)" and busy: "lv_loads z n \<noteq> Idle"
  shows "\<exists>ks r z'. runs (live_step B env L R fmt) (map In_Load ks @ [In_Load (Load_Returned n r), Answers n]) z z' \<and>
    list_all inner_load ks \<and> answered L r n z z'"
proof -
  let ?step = "live_step B env L R fmt"
  from rel obtain a where laws: "bpf_laws B" and a: "serial_rel B a (lv_conc z)" by (auto simp: live_rel_def)
  from load_returns [OF laws a, of n env L "stream_ops L" R fmt] busy obtain ks x r y where
    run: "runs (conc_step B env L (stream_ops L) R fmt) ks (lv_conc z) x" and inner: "list_all inner_load ks"
    and ret: "conc_step B env L (stream_ops L) R fmt (Load_Returned n r) x y" and idle: "cs_threads y n = Idle"
    unfolding returns_def by auto
  let ?z1 = "lv_put x z"
  let ?z2 = "(lv_put y ?z1)\<lparr>lv_pending := (lv_pending ?z1)(n \<mapsto> r)\<rparr>"
  from inner_runs_live [OF run refl inner alive] have r1: "runs ?step (map In_Load ks) z ?z1" .
  have "?step (In_Load (Load_Returned n r)) ?z1 ?z2" by (rule live_return) (use alive ret in simp_all)
  from runs_snoc [OF r1 this] have r2: "runs ?step (map In_Load ks @ [In_Load (Load_Returned n r)]) z ?z2" .
  have "\<exists>z'. ?step (Answers n) ?z2 z' \<and> answered L r n ?z2 z'"
    by (rule pending_answered [OF _ _ busy_runs [OF r2 ok]]) (use alive in simp_all)
  then obtain z' where z': "?step (Answers n) ?z2 z'" "answered L r n ?z2 z'" by blast
  from z'(2) have "answered L r n z z'" unfolding lv_put_put by (rule answered_put)
  with runs_snoc [OF r2 z'(1)] inner show ?thesis by (intro exI [of _ ks] exI [of _ r] exI [of _ z']) simp
qed

section \<open>Properties\<close>

text \<open>C4. Every run of the whole daemon, with accepts, requests, disconnects and several loads in the middle
  of their libbpf calls at once, and for any path resolution, is a run of \<open>kernel_monitor\<close>: every open is
  answered by one whole accepted policy, read for files, or, with enforcement off, let through, never by
  a mixture. The monitor goes off only at the pause of a load or at a \<open>detach\<close>, and turns a policy on only
  at the enabling write of a load that some request line asked for.\<close>

theorem live_daemon_mediated:
  assumes "bpf_laws B" and "conc_ok B R P (running (d_controller d0))" and "enforces B R m (d_controller d0)"
    and "runs (live_step B env L R fmt) ls (live_new d0) z"
  shows "\<exists>kss m'. list_all2 (live_trace L) ls kss \<and> runs (kernel_monitor R) (concat kss) m m' \<and> enforces B R m' (lv_controller z)"
proof -
  from live_monitor.runs_followed [OF assms(4) live_new_rel [OF assms(1-3)]] obtain kss m' where
    "list_all2 (live_trace L) ls kss" "runs (kernel_monitor R) (concat kss) m m'" "live_rel B L R m' z" by blast
  then show ?thesis unfolding live_rel_def by blast
qed

text \<open>C11. From any reachable state of the daemon in which a connection's load is under way, wherever it is
  and whoever holds the mutex, the loading threads can go on to its end: \<open>load_policy\<close> returns and the client
  gets its reply (or the process crashes on a reply that cannot be dumped). No load deadlocks.\<close>

theorem load_request_answered:
  assumes "bpf_laws B" and "conc_ok B R P (running (d_controller d0))" and "enforces B R m (d_controller d0)"
    and "runs (live_step B env L R fmt) ls (live_new d0) z"
    and "ss_alive (lv_sessions z)" and "lv_loads z n \<noteq> Idle"
  shows "\<exists>ks r z'. runs (live_step B env L R fmt) (map In_Load ks @ [In_Load (Load_Returned n r), Answers n]) z z' \<and>
    list_all inner_load ks \<and> answered L r n z z'"
proof -
  from live_monitor.runs_followed [OF assms(4) live_new_rel [OF assms(1-3)]] obtain m' where "live_rel B L R m' z" by blast
  from busy_load_answered [OF this busy_runs [OF assms(4) busy_new] assms(5,6)] show ?thesis .
qed

section \<open>Examples\<close>

text \<open>A client of the idle daemon sends its load request and the connection's thread calls \<open>load_policy\<close>.\<close>

abbreviation "demo_live_step \<equiv> live_step demo_sys demo_env load_lib demo_resolver demo_time"

lemma load_of_req:
  assumes "json_laws L" and "expressible p" and "jl_dump L (policy_json L p) = Returns t" and "jl_dump L (load_req L p) = Returns line"
  shows "load_of L line = Some p"
proof -
  have "jl_parse L line = Inr (load_req L p)" by (rule parse_dump [OF assms(1) load_built(2) assms(4)])
  moreover have "jl_value_string L (load_req L p) ''cmd'' [] = Returns ''load_policy''"
    unfolding load_req_def by (rule value_object(1) [OF assms(1)]) simp_all
  moreover have "jl_find L (load_req L p) ''policy'' = Some (policy_json L p)"
    using structure_simps(5) [OF assms(1)] by (simp add: load_req_def)
  moreover have "jl_is_object L (policy_json L p)" by (simp add: policy_json_def structure_simps(4) [OF assms(1)])
  moreover have "obind (jl_dump L (policy_json L p)) (from_json L) = Returns (Inr p)"
    using from_json_policy_json [OF assms(1,2) parse_dump [OF assms(1) load_built(1) assms(3)]] assms(3) by simp
  ultimately show ?thesis by (simp add: load_of_def)
qed

lemmas load_lib_asks = load_of_req [OF load_lib_laws sample_expressible load_lib_dump(1,2)]

definition demo_live :: "((fileguard_file_id \<times> fileguard_protected_val) list,
    (fileguard_rule_key \<times> fileguard_rule_val) list, fileguard_config) live" where
  "demo_live = (live_new idle_daemon)\<lparr>lv_sessions := set_conn 0 (Some \<lparr>cn_fd = 5, cn_phase = Serving ([] @ ''r'' @ [newline])\<rparr>)
     (accept_conn 5 (sessions_new idle_daemon)), lv_loads := (\<lambda>_. Idle)(0 := Entered sample_policy)\<rparr>"

lemma demo_live_run:
  "runs demo_live_step [In_Session (Accepts 5), In_Session (Receives 0 (''r'' @ [newline])), In_Load (Called 0 sample_policy)]
     (live_new idle_daemon) demo_live"
proof -
  let ?z0 = "live_new idle_daemon"
  let ?s0 = "sessions_new idle_daemon"
  let ?s1 = "accept_conn 5 ?s0"
  let ?s2 = "set_conn 0 (Some \<lparr>cn_fd = 5, cn_phase = Serving ([] @ ''r'' @ [newline])\<rparr>) ?s1"
  let ?z1 = "?z0\<lparr>lv_sessions := ?s1\<rparr>" and ?z2 = "?z0\<lparr>lv_sessions := ?s2\<rparr>"
  have cut: "cut_line ([] @ ''r'' @ [newline]) = Some (''r'', [])" using cut_line_append [of "''r''" "[]"] by simp
  have s0: "lv_sessions ?z0 = ?s0" by (simp add: live_new_def)
  have "demo_live_step (In_Session (Accepts 5)) ?z0 (?z0\<lparr>lv_sessions := accept_conn 5 (lv_sessions ?z0)\<rparr>)"
    by (rule live_session [OF session_step.accept]) (simp_all add: live_new_def sessions_new_def)
  then have 1: "demo_live_step (In_Session (Accepts 5)) ?z0 ?z1" unfolding s0 .
  have "demo_live_step (In_Session (Receives 0 (''r'' @ [newline]))) ?z1
      (?z1\<lparr>lv_sessions := set_conn 0 (Some \<lparr>cn_fd = 5, cn_phase = Serving ([] @ ''r'' @ [newline])\<rparr>) (lv_sessions ?z1)\<rparr>)"
    by (rule live_session [OF session_step.receive])
       (simp_all add: accept_conn_def sessions_new_def idle_daemon_def session_daemon_def demo_daemon_def)
  then have 2: "demo_live_step (In_Session (Receives 0 (''r'' @ [newline]))) ?z1 ?z2" by simp
  have line: "line_at ?z2 0 = Some ''r''" using cut by (simp add: line_at_def)
  obtain t where t: "from_json load_lib t = Returns (Inr sample_policy)" using load_of_parsed [OF load_lib_asks] ..
  have call: "conc_step demo_sys demo_env load_lib (stream_ops load_lib) demo_resolver demo_time (Called 0 sample_policy)
      (lv_conc ?z2) (set_thread 0 (Entered sample_policy) (lv_conc ?z2))"
    by (rule conc_free [OF free_call [OF _ t]]) (simp add: live_new_def)
  have "demo_live_step (In_Load (Called 0 sample_policy)) ?z2 (lv_put (set_thread 0 (Entered sample_policy) (lv_conc ?z2)) ?z2)"
    by (rule live_call [OF _ line _ load_lib_asks _ call])
       (simp_all add: live_new_def sessions_new_def accept_conn_def set_conn_def)
  moreover have "lv_put (set_thread 0 (Entered sample_policy) (lv_conc ?z2)) ?z2 = demo_live"
    by (simp add: lv_put_def lv_conc_def live_new_def demo_live_def set_conn_def accept_conn_def sessions_new_def conc_sets)
  ultimately have 3: "demo_live_step (In_Load (Called 0 sample_policy)) ?z2 demo_live" by simp
  note more = runs_snoc [where step = demo_live_step]
  from more [OF more [OF runs_one [of demo_live_step, OF 1] 2] 3] show ?thesis by simp
qed

lemma idle_conc_ok: "conc_ok demo_sys demo_resolver {} (running (d_controller idle_daemon))"
  using demo_conc_ok by (simp add: conc_ok_def demo_conc_def running_def fresh_system_def controller_with_def idle_daemon_def)

lemma idle_enforces: "enforces demo_sys demo_resolver None (d_controller idle_daemon)"
  using fresh_enforces [of demo_resolver] by (simp add: enforces_def fresh_system_def idle_daemon_def controller_with_def)

lemma demo_live_busy: "ss_alive (lv_sessions demo_live)" "lv_loads demo_live 0 \<noteq> Idle"
  by (simp_all add: demo_live_def set_conn_def accept_conn_def sessions_new_def)

theorem load_request_answered_witness:
  "\<exists>ks r z'. runs demo_live_step (map In_Load ks @ [In_Load (Load_Returned 0 r), Answers 0]) demo_live z' \<and>
     list_all inner_load ks \<and> answered load_lib r 0 demo_live z'"
  by (rule load_request_answered [OF demo_sys_laws idle_conc_ok idle_enforces demo_live_run demo_live_busy])

theorem live_daemon_mediated_witness:
  "\<exists>ls z kss m'. runs demo_live_step ls (live_new idle_daemon) z \<and> In_Load (Called 0 sample_policy) \<in> set ls \<and> Answers 0 \<in> set ls \<and>
     list_all2 (live_trace load_lib) ls kss \<and> runs (kernel_monitor demo_resolver) (concat kss) None m' \<and>
     enforces demo_sys demo_resolver m' (lv_controller z)"
proof -
  have "\<exists>m. live_rel demo_sys load_lib demo_resolver m demo_live"
    using live_monitor.runs_followed [OF demo_live_run live_new_rel [OF demo_sys_laws idle_conc_ok idle_enforces]] by blast
  then obtain m where "live_rel demo_sys load_lib demo_resolver m demo_live" ..
  from busy_load_answered [OF this busy_runs [OF demo_live_run busy_new] demo_live_busy] obtain ks r z where
    run: "runs demo_live_step (map In_Load ks @ [In_Load (Load_Returned 0 r), Answers 0]) demo_live z" by blast
  note run' = runs_append [OF this demo_live_run]
  from live_daemon_mediated [OF demo_sys_laws idle_conc_ok idle_enforces run'] run' show ?thesis
    by (fastforce intro: exI [of _ z])
qed

end
