(* ===== verification/Shutdown.thy ===== *)
theory Shutdown
  imports System
begin

text \<open>
  \<open>Controller::request_stop\<close> against the threads it stops. In \<open>Controller\<close> it is one function, which
  lets the consumer finish and joins the poller without a look at it; here the calling thread, the
  ring poller (\<open>ring_poll_loop\<close>, \<open>LinuxEBPFEnforcer::run\<close>), the consumer and the kernel interleave,
  each at the grain of one loop iteration, one record or one statement (\<open>stop_step\<close>). The function
  is what every interleaving amounts to, and every interleaving ends.
\<close>

section \<open>Threads\<close>

datatype stop_pc =
    At_Stop_Enter
  | At_Stop_Queue
  | At_Stop_Ring
  | At_Stop_Consumer
  | At_Join_Ring
  | At_Join_Consumer
  | At_Detach
  | Stop_Returned "unit result"

datatype poll_pc =
    Poll_Begin
  | Poll_Check \<comment> \<open>\<open>stop.stop_requested()\<close>\<close>
  | Poll_Wait \<comment> \<open>in \<open>ring_buffer__poll\<close>\<close>
  | Poll_Done

record ('p, 'r, 'c, 'k) shutting =
  sh_system :: "('p, 'r, 'c, 'k) fg_system"
  sh_main :: stop_pc
  sh_ring_stop :: bool \<comment> \<open>the stop token of \<open>ring_thread_\<close>\<close>
  sh_poller :: poll_pc
  sh_consumer :: bool \<comment> \<open>the consumer is in its loop\<close>
  sh_alive :: bool \<comment> \<open>no exception has left a thread\<close>

abbreviation sh_controller :: "('p, 'r, 'c, 'k) shutting \<Rightarrow> (('p, 'r, 'c) linux_enforcer, 'k) controller" where
  "sh_controller s \<equiv> sy_controller (sh_system s)"

definition sh_put ::
  "(('p, 'r, 'c) linux_enforcer, 'k) controller \<Rightarrow> ('p, 'r, 'c, 'k) shutting \<Rightarrow> ('p, 'r, 'c, 'k) shutting" where
  "sh_put c s = s\<lparr>sh_system := (sh_system s)\<lparr>sy_controller := c\<rparr>\<rparr>"

definition sh_ring :: "fileguard_event list \<Rightarrow> ('p, 'r, 'c, 'k) shutting \<Rightarrow> ('p, 'r, 'c, 'k) shutting" where
  "sh_ring evs s = s\<lparr>sh_system := (sh_system s)\<lparr>sy_ring := evs\<rparr>\<rparr>"

lemma sh_simps [simp]:
  "sh_controller (sh_put c s) = c" "sy_ring (sh_system (sh_put c s)) = sy_ring (sh_system s)"
  "sh_main (sh_put c s) = sh_main s" "sh_ring_stop (sh_put c s) = sh_ring_stop s" "sh_poller (sh_put c s) = sh_poller s"
  "sh_consumer (sh_put c s) = sh_consumer s" "sh_alive (sh_put c s) = sh_alive s"
  "sh_controller (sh_ring evs s) = sh_controller s" "sy_ring (sh_system (sh_ring evs s)) = evs"
  "sh_main (sh_ring evs s) = sh_main s" "sh_ring_stop (sh_ring evs s) = sh_ring_stop s"
  "sh_poller (sh_ring evs s) = sh_poller s" "sh_consumer (sh_ring evs s) = sh_consumer s"
  "sh_alive (sh_ring evs s) = sh_alive s"
  by (simp_all add: sh_put_def sh_ring_def)

section \<open>Steps\<close>

datatype stop_label = By_Main | By_Poller | By_Consumer | By_Kernel fileguard_event

text \<open>The entry of \<open>ring_poll_loop\<close> and of \<open>run\<close>.\<close>

definition poll_begin :: "(('p, 'r, 'c) linux_enforcer, 'k) controller \<Rightarrow> poll_pc" where
  "poll_begin c = (case ct_enforcer c of None \<Rightarrow> Poll_Check | Some e \<Rightarrow> if le_ring e then Poll_Check else Poll_Done)"

definition poll_error ::
  "('p, 'r, 'c) bpf_sys \<Rightarrow> nat \<Rightarrow> ('p, 'r, 'c) linux_enforcer \<Rightarrow> ('p, 'r, 'c) linux_enforcer" where
  "poll_error B errno e = e\<lparr>le_status := (le_status e)\<lparr>st_detail := ''ring buffer poll error'' @ bpf_err B errno\<rparr>\<rparr>"

text \<open>A thread that \<open>join\<close> waits for has ended.\<close>

definition ring_ended :: "('p, 'r, 'c, 'k) shutting \<Rightarrow> bool" where
  "ring_ended s \<longleftrightarrow> (ct_ring_thread (sh_controller s) \<longrightarrow> sh_poller s = Poll_Done)"

definition consumer_ended :: "('p, 'r, 'c, 'k) shutting \<Rightarrow> bool" where
  "consumer_ended s \<longleftrightarrow> (ct_consumer_thread (sh_controller s) \<longrightarrow> \<not> sh_consumer s)"

text \<open>The calling thread; \<open>None\<close> while it waits in a join or has returned.\<close>

definition stop_main :: "('p, 'r, 'c, 'k) shutting \<Rightarrow> ('p, 'r, 'c, 'k) shutting option" where
  "stop_main s = (let c = sh_controller s in
     case sh_main s of
       At_Stop_Enter \<Rightarrow>
         if \<not> ct_started c then Some (s\<lparr>sh_main := Stop_Returned (Inr ())\<rparr>)
         else Some (sh_put (c\<lparr>ct_started := False\<rparr>) s\<lparr>sh_main := At_Stop_Queue\<rparr>)
     | At_Stop_Queue \<Rightarrow> Some (sh_put (c\<lparr>ct_queue := queue_request_stop (ct_queue c)\<rparr>) s\<lparr>sh_main := At_Stop_Ring\<rparr>)
     | At_Stop_Ring \<Rightarrow> Some (s\<lparr>sh_ring_stop := sh_ring_stop s \<or> ct_ring_thread c, sh_main := At_Stop_Consumer\<rparr>)
     | At_Stop_Consumer \<Rightarrow> Some (s\<lparr>sh_main := At_Join_Ring\<rparr>) \<comment> \<open>\<open>consumer_loop\<close> ignores its token\<close>
     | At_Join_Ring \<Rightarrow> if ring_ended s then Some (sh_put (c\<lparr>ct_ring_thread := False\<rparr>) s\<lparr>sh_main := At_Join_Consumer\<rparr>) else None
     | At_Join_Consumer \<Rightarrow>
         if consumer_ended s then Some (sh_put (c\<lparr>ct_consumer_thread := False\<rparr>) s\<lparr>sh_main := At_Detach\<rparr>) else None
     | At_Detach \<Rightarrow>
         (case ct_enforcer c of
            None \<Rightarrow> Some (s\<lparr>sh_main := Stop_Returned (Inr ())\<rparr>)
          | Some e \<Rightarrow> Some (sh_put (c\<lparr>ct_enforcer := Some (snd (linux_detach e))\<rparr>) s
                \<lparr>sh_main := Stop_Returned (fst (linux_detach e))\<rparr>))
     | Stop_Returned r \<Rightarrow> None)"

inductive stop_step ::
  "('p, 'r, 'c) bpf_sys \<Rightarrow> 'j json_lib \<Rightarrow> 'k client_ops \<Rightarrow> (int \<Rightarrow> string) \<Rightarrow> stop_label \<Rightarrow>
     ('p, 'r, 'c, 'k) shutting \<Rightarrow> ('p, 'r, 'c, 'k) shutting \<Rightarrow> bool"
  for B L K fmt where
  stop_by_main: "sh_alive s \<Longrightarrow> stop_main s = Some s' \<Longrightarrow> stop_step B L K fmt By_Main s s'"
| stop_poll_begin: "sh_alive s \<Longrightarrow> ct_ring_thread (sh_controller s) \<Longrightarrow> sh_poller s = Poll_Begin \<Longrightarrow>
    stop_step B L K fmt By_Poller s (s\<lparr>sh_poller := poll_begin (sh_controller s)\<rparr>)"
| stop_poll_check: "sh_alive s \<Longrightarrow> ct_ring_thread (sh_controller s) \<Longrightarrow> sh_poller s = Poll_Check \<Longrightarrow>
    stop_step B L K fmt By_Poller s (s\<lparr>sh_poller := if sh_ring_stop s then Poll_Done else Poll_Wait\<rparr>)"
| stop_poll_take: "sh_alive s \<Longrightarrow> ct_ring_thread (sh_controller s) \<Longrightarrow> sh_poller s = Poll_Wait \<Longrightarrow>
    sy_ring (sh_system s) = ev # rest \<Longrightarrow> poll_record fmt ev (sh_controller s) = Some c \<Longrightarrow>
    stop_step B L K fmt By_Poller s (sh_ring rest (sh_put c s))"
| stop_poll_return: "sh_alive s \<Longrightarrow> ct_ring_thread (sh_controller s) \<Longrightarrow> sh_poller s = Poll_Wait \<Longrightarrow>
    stop_step B L K fmt By_Poller s (s\<lparr>sh_poller := Poll_Check\<rparr>)"
| stop_poll_error: "sh_alive s \<Longrightarrow> ct_ring_thread (sh_controller s) \<Longrightarrow> sh_poller s = Poll_Wait \<Longrightarrow>
    ct_enforcer (sh_controller s) = Some e \<Longrightarrow>
    stop_step B L K fmt By_Poller s
      (sh_put ((sh_controller s)\<lparr>ct_enforcer := Some (poll_error B errno e)\<rparr>) s\<lparr>sh_poller := Poll_Done\<rparr>)"
| stop_consume: "sh_alive s \<Longrightarrow> ct_consumer_thread (sh_controller s) \<Longrightarrow> sh_consumer s \<Longrightarrow>
    consume_one L K (sh_controller s) = Some (Returns go, c) \<Longrightarrow>
    stop_step B L K fmt By_Consumer s (sh_put c s\<lparr>sh_consumer := go\<rparr>)"
| stop_consume_throws: "sh_alive s \<Longrightarrow> ct_consumer_thread (sh_controller s) \<Longrightarrow> sh_consumer s \<Longrightarrow>
    consume_one L K (sh_controller s) = Some (Throws m, c) \<Longrightarrow>
    stop_step B L K fmt By_Consumer s (sh_put c s\<lparr>sh_alive := False\<rparr>)"
| stop_submit: "sh_alive s \<Longrightarrow> ct_enforcer (sh_controller s) = Some e \<Longrightarrow> le_skel e \<Longrightarrow>
    stop_step B L K fmt (By_Kernel ev) s (sh_ring (sy_ring (sh_system s) @ [ev]) s)"

section \<open>What is left to do\<close>

text \<open>The result and the controller that the shutdown will end with, if no exception ends it.\<close>

definition joined ::
  "'j json_lib \<Rightarrow> 'k client_ops \<Rightarrow> ('p, 'r, 'c, 'k) shutting \<Rightarrow>
     (unit outcome \<times> (('p, 'r, 'c) linux_enforcer, 'k) controller) option" where
  "joined L K s = (let c = sh_controller s in
     if ct_consumer_thread c \<and> sh_consumer s then consumer_loop (Suc (length (q_contents (ct_queue c)))) L K c
     else Some (Returns (), c))"

definition detached_end ::
  "(('p, 'r, 'c) linux_enforcer, 'k) controller \<Rightarrow> unit result \<times> (('p, 'r, 'c) linux_enforcer, 'k) controller" where
  "detached_end c = (let c3 = c\<lparr>ct_ring_thread := False, ct_consumer_thread := False\<rparr> in
     case ct_enforcer c of
       None \<Rightarrow> (Inr (), c3)
     | Some e \<Rightarrow> (fst (linux_detach e), c3\<lparr>ct_enforcer := Some (snd (linux_detach e))\<rparr>))"

definition finish ::
  "'j json_lib \<Rightarrow> 'k client_ops \<Rightarrow> ('p, 'r, 'c, 'k) shutting \<Rightarrow>
     (unit result \<times> (('p, 'r, 'c) linux_enforcer, 'k) controller) option" where
  "finish L K s =
     (case sh_main s of
        Stop_Returned r \<Rightarrow> Some (r, sh_controller s)
      | _ \<Rightarrow> (case joined L K s of Some (Returns _, c) \<Rightarrow> Some (detached_end c) | _ \<Rightarrow> None))"

text \<open>How far the calling thread is.\<close>

fun stop_rank :: "stop_pc \<Rightarrow> nat" where
  "stop_rank At_Stop_Enter = 0"
| "stop_rank At_Stop_Queue = 1"
| "stop_rank At_Stop_Ring = 2"
| "stop_rank At_Stop_Consumer = 3"
| "stop_rank At_Join_Ring = 4"
| "stop_rank At_Join_Consumer = 5"
| "stop_rank At_Detach = 6"
| "stop_rank (Stop_Returned r) = 7"

abbreviation stop_requested :: "stop_pc \<Rightarrow> bool" where
  "stop_requested pc \<equiv> 2 \<le> stop_rank pc"

text \<open>The invariant of a shutdown that a running controller has entered.\<close>

definition stop_inv :: "('p, 'r, 'c, 'k) shutting \<Rightarrow> bool" where
  "stop_inv s \<longleftrightarrow> (let c = sh_controller s; n = stop_rank (sh_main s) in
     q_inv (ct_queue c) \<and> (ct_started c \<longleftrightarrow> n = 0) \<and> (q_stop (ct_queue c) \<longleftrightarrow> 2 \<le> n) \<and> (n < 2 \<longrightarrow> sh_consumer s) \<and>
     (3 \<le> n \<and> ct_ring_thread c \<longrightarrow> sh_ring_stop s) \<and> (5 \<le> n \<longrightarrow> \<not> ct_ring_thread c) \<and>
     (6 \<le> n \<longrightarrow> \<not> ct_consumer_thread c) \<and> (7 \<le> n \<longrightarrow> pred_option (\<lambda>e. \<not> le_skel e) (ct_enforcer c)))"

section \<open>The shutdown is \<open>request_stop\<close>\<close>

lemma consume_one_shape:
  assumes "consume_one L K c = Some (r, c')"
  shows "c' = c\<lparr>ct_queue := ct_queue c', ct_sinks := ct_sinks c', ct_clients := ct_clients c', ct_client_store := ct_client_store c'\<rparr>"
  using assms by (auto simp: consume_one_def split: option.splits prod.splits outcome.splits)

lemma consume_one_queue:
  assumes "consume_one L K c = Some (r, c')" and "q_inv (ct_queue c)"
  shows "q_inv (ct_queue c') \<and> q_stop (ct_queue c') = q_stop (ct_queue c) \<and>
    length (q_contents (ct_queue c')) \<le> length (q_contents (ct_queue c)) \<and>
    (r = Returns True \<longrightarrow> length (q_contents (ct_queue c)) = Suc (length (q_contents (ct_queue c')))) \<and>
    (r = Returns False \<longrightarrow> q_stop (ct_queue c))"
proof (cases "q_empty (ct_queue c)")
  case True
  with assms show ?thesis by (auto simp: consume_one_def pop_drop split: if_splits)
next
  case False
  with assms(1) have "ct_queue c' = q_drop (ct_queue c)"
    by (auto simp: consume_one_def pop_drop split: if_splits option.splits prod.splits outcome.splits)
  moreover have "r \<noteq> Returns False" using False assms(1)
    by (auto simp: consume_one_def pop_drop obind_eq_Returns split: if_splits option.splits prod.splits outcome.splits)
  ultimately show ?thesis using q_drop_contents [OF assms(2) False] q_drop_inv [OF assms(2)] by simp
qed

text \<open>The consumer does not look at what the other threads change meanwhile.\<close>

definition beside ::
  "'e option \<Rightarrow> bool \<Rightarrow> ('e, 'k) controller \<Rightarrow> ('e, 'k) controller" where
  "beside x b c = c\<lparr>ct_enforcer := x, ct_ring_thread := b\<rparr>"

lemma beside_simps [simp]:
  "ct_enforcer (beside x b c) = x" "ct_ring_thread (beside x b c) = b" "ct_queue (beside x b c) = ct_queue c"
  "ct_consumer_thread (beside x b c) = ct_consumer_thread c" "ct_started (beside x b c) = ct_started c"
  by (simp_all add: beside_def)

lemma consume_one_beside: "consume_one L K (beside x b c) = map_option (map_prod id (beside x b)) (consume_one L K c)"
  by (auto simp: consume_one_def beside_def split: option.splits prod.splits outcome.splits)

lemma consumer_loop_beside:
  "consumer_loop n L K (beside x b c) = map_option (map_prod id (beside x b)) (consumer_loop n L K c)"
  by (induction n arbitrary: c) (auto simp: consume_one_beside split: option.splits outcome.splits bool.splits)

lemma beside_same: "beside (ct_enforcer c) (ct_ring_thread c) c = c"
  by (simp add: beside_def)

lemma consumer_loop_enforcer: "consumer_loop n L K c = Some (r, c') \<Longrightarrow> ct_enforcer c' = ct_enforcer c"
proof (induction n arbitrary: c)
  case (Suc n)
  then obtain r1 c1 where one: "consume_one L K c = Some (r1, c1)" by (auto split: option.splits)
  have "ct_enforcer c1 = ct_enforcer c" by (subst consume_one_shape [OF one]) simp
  with Suc one show ?case by (auto split: outcome.splits bool.splits)
qed simp

text \<open>A step that only touches the poller's flag and the backend, in a way that \<open>detach\<close> undoes.\<close>

definition same_end :: "('p, 'r, 'c) linux_enforcer option \<Rightarrow> ('p, 'r, 'c) linux_enforcer option \<Rightarrow> bool" where
  "same_end x y \<longleftrightarrow> rel_option (\<lambda>e e'. linux_detach e = linux_detach e') x y"

lemma detached_end_beside:
  "same_end x (ct_enforcer c) \<Longrightarrow> detached_end (beside x b c) = detached_end c"
  by (auto simp: same_end_def detached_end_def beside_def Let_def option_rel_Some2 split: option.splits)

lemma finish_beside:
  assumes "sh_controller s' = beside x b (sh_controller s)" and "same_end x (ct_enforcer (sh_controller s))"
    and "sh_consumer s' = sh_consumer s" and "\<forall>r. sh_main s \<noteq> Stop_Returned r" and "\<forall>r. sh_main s' \<noteq> Stop_Returned r"
  shows "finish L K s' = finish L K s"
proof -
  let ?c = "sh_controller s"
  have j: "joined L K s' = map_option (map_prod id (beside x b)) (joined L K s)"
    using consumer_loop_beside [of _ L K x b ?c] by (simp add: joined_def Let_def assms(1,3) del: consumer_loop.simps)
  have "ct_enforcer c2 = ct_enforcer ?c" if "joined L K s = Some (r, c2)" for r c2
    using that consumer_loop_enforcer by (auto simp: joined_def Let_def simp del: consumer_loop.simps split: if_splits)
  with assms(2) j have "(case joined L K s' of Some (Returns _, c) \<Rightarrow> Some (detached_end c) | _ \<Rightarrow> None) =
      (case joined L K s of Some (Returns _, c) \<Rightarrow> Some (detached_end c) | _ \<Rightarrow> None)"
    by (auto simp: detached_end_beside split: option.splits outcome.splits)
  with assms(4,5) show ?thesis by (cases "sh_main s"; cases "sh_main s'") (simp_all add: finish_def)
qed


lemma ring_callback_detach: "linux_detach (snd (ring_callback e ev sz)) = linux_detach e"
  by (simp add: ring_callback_def linux_detach_def split: option.splits)

text \<open>A record delivered after the stop changes nothing but the status text.\<close>

lemma poll_record_stopped:
  assumes "poll_record fmt ev c = Some c'" and "q_stop (ct_queue c)"
  shows "\<exists>x. c' = beside x (ct_ring_thread c) c \<and> same_end x (ct_enforcer c)"
proof (cases "ct_enforcer c")
  case None
  with assms show ?thesis by (intro exI [of _ None]) (simp add: poll_record_def beside_def same_end_def)
next
  case (Some e)
  obtain r e' where cb: "ring_callback e (Some ev) sizeof_event = (r, e')" by (metis prod.exhaust)
  with ring_callback_detach [of e "Some ev" sizeof_event] have "same_end (Some e') (ct_enforcer c)"
    by (simp add: same_end_def Some)
  moreover have "c' = c\<lparr>ct_enforcer := Some e'\<rparr>"
    using assms Some cb by (cases r) (auto simp: poll_record_def emit_event_def push_store Let_def)
  ultimately show ?thesis by (intro exI [of _ "Some e'"]) (simp add: beside_def)
qed

lemma same_end_refl [simp]: "same_end x x"
  by (cases x) (simp_all add: same_end_def)

lemma stop_invD:
  assumes "stop_inv s"
  shows "stop_rank (sh_main s) < 2 \<Longrightarrow> sh_consumer s" "q_inv (ct_queue (sh_controller s))"
    "stop_requested (sh_main s) \<Longrightarrow> q_stop (ct_queue (sh_controller s))"
    "sh_main s = Stop_Returned r \<Longrightarrow> \<not> ct_ring_thread (sh_controller s) \<and> \<not> ct_consumer_thread (sh_controller s) \<and>
       pred_option (\<lambda>e. \<not> le_skel e) (ct_enforcer (sh_controller s))"
  using assms by (simp_all add: stop_inv_def Let_def)

lemma stop_main_finish:
  assumes "stop_main s = Some s'" and "stop_inv s" and "stop_requested (sh_main s)"
  shows "finish L K s' = finish L K s \<and> stop_requested (sh_main s')"
proof (cases "sh_main s")
  case At_Stop_Ring
  with assms show ?thesis by (auto simp: stop_main_def Let_def finish_def joined_def simp del: consumer_loop.simps)
next
  case At_Stop_Consumer
  with assms show ?thesis by (auto simp: stop_main_def Let_def finish_def joined_def simp del: consumer_loop.simps)
next
  case At_Join_Ring
  with assms(1) have s': "s' = sh_put (beside (ct_enforcer (sh_controller s)) False (sh_controller s)) s\<lparr>sh_main := At_Join_Consumer\<rparr>"
    by (auto simp: stop_main_def Let_def beside_def split: if_splits)
  have "finish L K s' = finish L K s"
    by (rule finish_beside [of s' "ct_enforcer (sh_controller s)" False]) (simp_all add: s' At_Join_Ring)
  then show ?thesis by (simp add: s')
next
  case At_Join_Consumer
  with assms(1) have en: "consumer_ended s" and s': "s' = sh_put ((sh_controller s)\<lparr>ct_consumer_thread := False\<rparr>) s\<lparr>sh_main := At_Detach\<rparr>"
    by (auto simp: stop_main_def Let_def split: if_splits)
  from en At_Join_Consumer show ?thesis
    by (auto simp: s' finish_def joined_def consumer_ended_def Let_def detached_end_def split: option.splits)
next
  case At_Detach
  with assms show ?thesis
    by (auto simp: stop_main_def Let_def finish_def joined_def detached_end_def stop_inv_def split: option.splits)
qed (use assms in \<open>auto simp: stop_main_def\<close>)


text \<open>Every step after the stop request keeps the end result.\<close>

lemma stop_step_finish:
  assumes "stop_step B L K fmt l s s'" and "stop_inv s" and "stop_requested (sh_main s)" and "sh_alive s'"
  shows "finish L K s' = finish L K s \<and> stop_requested (sh_main s')"
  using assms(1)
proof cases
  case stop_by_main
  with stop_main_finish assms(2,3) show ?thesis by blast
next
  case stop_poll_begin
  with assms(3) show ?thesis by (cases "sh_main s") (simp_all add: finish_def joined_def)
next
  case stop_poll_check
  with assms(3) show ?thesis by (cases "sh_main s") (simp_all add: finish_def joined_def)
next
  case (stop_poll_take ev rest c)
  from stop_invD(3) [OF assms(2,3)] poll_record_stopped [OF stop_poll_take(7)] obtain x where
    x: "c = beside x (ct_ring_thread (sh_controller s)) (sh_controller s)" "same_end x (ct_enforcer (sh_controller s))" by blast
  have nr: "\<forall>r. sh_main s \<noteq> Stop_Returned r" using stop_invD(4) [OF assms(2)] stop_poll_take(4) by blast
  have "finish L K s' = finish L K s"
    by (rule finish_beside [OF _ x(2)]) (use nr x(1) stop_poll_take(2) in simp_all)
  with assms(3) stop_poll_take(2) show ?thesis by simp
next
  case stop_poll_return
  with assms(3) show ?thesis by (cases "sh_main s") (simp_all add: finish_def joined_def)
next
  case (stop_poll_error e errno)
  have nr: "\<forall>r. sh_main s \<noteq> Stop_Returned r" using stop_invD(4) [OF assms(2)] stop_poll_error(4) by blast
  have "same_end (Some (poll_error B errno e)) (ct_enforcer (sh_controller s))"
    by (simp add: same_end_def stop_poll_error poll_error_def linux_detach_def)
  from finish_beside [OF _ this, of s' "ct_ring_thread (sh_controller s)"] nr stop_poll_error(2) assms(3) show ?thesis
    by (simp add: beside_def)
next
  case (stop_consume go c)
  note q = consume_one_queue [OF stop_consume(6) stop_invD(2) [OF assms(2)]]
  have nr: "\<forall>r. sh_main s \<noteq> Stop_Returned r" using stop_invD(4) [OF assms(2)] stop_consume(4) by blast
  have fr: "ct_consumer_thread c = ct_consumer_thread (sh_controller s)"
    by (subst consume_one_shape [OF stop_consume(6)]) simp
  have "joined L K s' = joined L K s"
  proof (cases go)
    case True
    with q stop_consume fr show ?thesis by (simp add: joined_def Let_def)
  next
    case False
    with stop_consume fr show ?thesis by (simp add: joined_def Let_def)
  qed
  with nr stop_consume(2) assms(3) show ?thesis by (cases "sh_main s") (simp_all add: finish_def)
next
  case (stop_submit e ev)
  with assms(3) show ?thesis by (cases "sh_main s") (simp_all add: finish_def joined_def)
qed (use assms(4) in simp_all)

lemma stop_main_inv:
  assumes "stop_main s = Some s'" and "stop_inv s"
  shows "stop_inv s'"
proof (cases "sh_main s")
  case At_Stop_Queue
  with assms show ?thesis
    by (auto simp: stop_main_def stop_inv_def Let_def queue_request_stop_def q_inv_def)
next
  case At_Detach
  with assms show ?thesis
    by (auto simp: stop_main_def stop_inv_def Let_def linux_detach_def split: option.splits)
qed (use assms in \<open>auto simp: stop_main_def stop_inv_def Let_def split: if_splits\<close>)


lemma push_keeps: "push y q = Some q' \<Longrightarrow> q_inv q \<Longrightarrow> q_inv q' \<and> q_stop q' = q_stop q"
  by (auto simp: push_store q_store_inv split: if_split_asm)

lemma poll_record_keeps:
  assumes "poll_record fmt ev c = Some c'" and "q_inv (ct_queue c)"
  shows "q_inv (ct_queue c') \<and> q_stop (ct_queue c') = q_stop (ct_queue c) \<and> ct_started c' = ct_started c \<and>
    ct_ring_thread c' = ct_ring_thread c \<and> ct_consumer_thread c' = ct_consumer_thread c"
  using assms by (auto simp: poll_record_def emit_event_def Let_def dest: push_keeps split: option.splits prod.splits)

lemma poll_record_skel:
  assumes "poll_record fmt ev c = Some c'"
  shows "map_option le_skel (ct_enforcer c') = map_option le_skel (ct_enforcer c)"
proof (cases "ct_enforcer c")
  case None
  with assms show ?thesis by (simp add: poll_record_def)
next
  case (Some e)
  from poll_record_shape [OF assms Some] Some show ?thesis by auto
qed

lemma consume_one_fields:
  assumes "consume_one L K c = Some (r, c')"
  shows "ct_started c' = ct_started c \<and> ct_ring_thread c' = ct_ring_thread c \<and>
    ct_consumer_thread c' = ct_consumer_thread c \<and> ct_enforcer c' = ct_enforcer c"
  using assms by (auto simp: consume_one_def split: option.splits prod.splits outcome.splits)

text \<open>The invariant only speaks about these parts of the state.\<close>

lemma stop_inv_cong:
  assumes "stop_inv s" and "q_inv (ct_queue (sh_controller s'))"
    and "q_stop (ct_queue (sh_controller s')) = q_stop (ct_queue (sh_controller s))"
    and "ct_started (sh_controller s') = ct_started (sh_controller s)"
    and "ct_ring_thread (sh_controller s') = ct_ring_thread (sh_controller s)"
    and "ct_consumer_thread (sh_controller s') = ct_consumer_thread (sh_controller s)"
    and "sh_main s' = sh_main s" and "sh_ring_stop s' = sh_ring_stop s"
    and "stop_rank (sh_main s) < 2 \<longrightarrow> sh_consumer s'"
    and "map_option le_skel (ct_enforcer (sh_controller s')) = map_option le_skel (ct_enforcer (sh_controller s))"
  shows "stop_inv s'"
proof -
  have "pred_option (\<lambda>e. \<not> le_skel e) (ct_enforcer (sh_controller s')) =
      pred_option (\<lambda>e. \<not> le_skel e) (ct_enforcer (sh_controller s))"
    using assms(10) by (cases "ct_enforcer (sh_controller s')"; cases "ct_enforcer (sh_controller s)") simp_all
  with assms(1-9) show ?thesis unfolding stop_inv_def Let_def by simp
qed

lemma stop_step_inv:
  assumes "stop_step B L K fmt l s s'" and "stop_inv s"
  shows "stop_inv s'"
  using assms(1)
proof cases
  case stop_by_main
  with stop_main_inv assms(2) show ?thesis by blast
next
  case (stop_poll_take ev rest c)
  from poll_record_keeps [OF stop_poll_take(7) stop_invD(2) [OF assms(2)]] poll_record_skel [OF stop_poll_take(7)] stop_poll_take(2)
    stop_invD(1) [OF assms(2)]
  show ?thesis by (intro stop_inv_cong [OF assms(2)]) simp_all
next
  case (stop_consume go c)
  note q = consume_one_queue [OF stop_consume(6) stop_invD(2) [OF assms(2)]]
  have "stop_rank (sh_main s) < 2 \<longrightarrow> go" using q assms(2) by (cases go) (simp_all add: stop_inv_def Let_def)
  with consume_one_fields [OF stop_consume(6)] q stop_consume(2) show ?thesis
    by (intro stop_inv_cong [OF assms(2)]) simp_all
next
  case (stop_consume_throws m c)
  from consume_one_fields [OF stop_consume_throws(6)] consume_one_queue [OF stop_consume_throws(6) stop_invD(2) [OF assms(2)]]
    stop_consume_throws(2)
    stop_invD(1) [OF assms(2)]
  show ?thesis by (intro stop_inv_cong [OF assms(2)]) simp_all
qed (rule stop_inv_cong [OF assms(2)]; use stop_invD(1,2) [OF assms(2)] in \<open>simp add: poll_error_def\<close>)+


lemma stop_runs_finish:
  "runs (stop_step B L K fmt) ls s s' \<Longrightarrow> stop_inv s \<Longrightarrow> stop_requested (sh_main s) \<Longrightarrow> sh_alive s' \<Longrightarrow>
     stop_inv s' \<and> stop_requested (sh_main s') \<and> finish L K s' = finish L K s"
proof (induction rule: runs.induct)
  case (runs_snoc ls s s' l s'')
  have "sh_alive s'" using runs_snoc.hyps(2) by cases simp_all
  with runs_snoc stop_step_finish [OF runs_snoc.hyps(2)] stop_step_inv [OF runs_snoc.hyps(2)] show ?case by simp
qed simp

lemma stop_runs_inv: "runs (stop_step B L K fmt) ls s s' \<Longrightarrow> stop_inv s \<Longrightarrow> stop_inv s'"
  by (induction rule: runs.induct) (auto dest: stop_step_inv)

text \<open>The stop of the queue comes at one place of the run.\<close>

lemma stop_main_rank: "stop_main s = Some s' \<Longrightarrow> stop_rank (sh_main s') = Suc (stop_rank (sh_main s)) \<or>
    (\<not> ct_started (sh_controller s) \<and> sh_main s = At_Stop_Enter)"
  by (auto simp: stop_main_def Let_def split: stop_pc.splits option.splits if_splits)

lemma stop_step_rank:
  assumes "stop_step B L K fmt l s s'" and "stop_inv s"
  shows "if l = By_Main then stop_rank (sh_main s') = Suc (stop_rank (sh_main s)) else sh_main s' = sh_main s"
  using assms(1)
proof cases
  case stop_by_main
  with stop_main_rank [of s s'] assms(2) show ?thesis by (auto simp: stop_inv_def Let_def)
qed simp_all

lemma stop_request_point:
  "runs (stop_step B L K fmt) ls s s' \<Longrightarrow> stop_inv s \<Longrightarrow> \<not> stop_requested (sh_main s) \<Longrightarrow> stop_requested (sh_main s') \<Longrightarrow>
     \<exists>l1 l2 s1 s2. ls = l1 @ By_Main # l2 \<and> runs (stop_step B L K fmt) l1 s s1 \<and> sh_main s1 = At_Stop_Queue \<and>
       stop_step B L K fmt By_Main s1 s2 \<and> runs (stop_step B L K fmt) l2 s2 s'"
proof (induction rule: runs.induct)
  case (runs_snoc ls s s' l s'')
  show ?case
  proof (cases "stop_requested (sh_main s')")
    case True
    with runs_snoc obtain l1 l2 s1 s2 where "ls = l1 @ By_Main # l2" "runs (stop_step B L K fmt) l1 s s1"
      "sh_main s1 = At_Stop_Queue" "stop_step B L K fmt By_Main s1 s2" "runs (stop_step B L K fmt) l2 s2 s'" by blast
    with runs.runs_snoc [OF this(5) runs_snoc.hyps(2)] show ?thesis
      by (intro exI [of _ l1] exI [of _ "l2 @ [l]"] exI [of _ s1] exI [of _ s2]) simp
  next
    case False
    from stop_step_rank [OF runs_snoc.hyps(2) stop_runs_inv [OF runs_snoc.hyps(1) runs_snoc.prems(1)]] False runs_snoc.prems(3)
    have l: "l = By_Main" and "stop_rank (sh_main s') = 1" by (auto split: if_splits)
    then have "sh_main s' = At_Stop_Queue" by (cases "sh_main s'") simp_all
    with runs_snoc.hyps l show ?thesis
      by (intro exI [of _ ls] exI [of _ "[]"] exI [of _ s'] exI [of _ s'']) (simp add: runs_nil)
  qed
qed simp


lemma stop_crash: "runs (stop_step B L K fmt) ls s s' \<Longrightarrow> stop_inv s \<Longrightarrow> sh_alive s \<Longrightarrow> sh_main s' = Stop_Returned r \<Longrightarrow> sh_alive s'"
proof (induction rule: runs.induct)
  case (runs_snoc ls s s' l s'')
  note inv = stop_runs_inv [OF runs_snoc.hyps(1) runs_snoc.prems(1)]
  from runs_snoc.hyps(2) show ?case
  proof cases
    case (stop_consume_throws m c)
    with runs_snoc.prems(3) stop_invD(4) [OF inv] show ?thesis by simp
  next
    case stop_by_main
    then show ?thesis by (auto simp: stop_main_def Let_def split: stop_pc.splits option.splits if_splits)
  qed simp_all
qed simp

lemma finish_request_stop:
  assumes "stop_main s = Some s'" and "sh_main s = At_Stop_Queue" and "stop_inv s" and "finish L K s' = Some (r, c)"
  shows "request_stop (linux_ops B env) L K ((sh_controller s)\<lparr>ct_started := True\<rparr>) = Some (Returns r, c)"
proof -
  let ?c = "sh_controller s" and ?q = "queue_request_stop (ct_queue (sh_controller s))"
  have s': "s' = sh_put (?c\<lparr>ct_queue := ?q\<rparr>) s\<lparr>sh_main := At_Stop_Ring\<rparr>"
    using assms(1,2) by (simp add: stop_main_def Let_def)
  have con: "sh_consumer s" and st: "\<not> ct_started ?c" using assms(2,3) by (simp_all add: stop_inv_def Let_def)
  then have c1: "?c\<lparr>ct_started := False, ct_queue := ?q\<rparr> = ?c\<lparr>ct_queue := ?q\<rparr>" by simp
  from assms(4) obtain u c2 where j: "joined L K s' = Some (Returns u, c2)" and d: "detached_end c2 = (r, c)"
    by (auto simp: finish_def s' split: option.splits outcome.splits)
  from j con have j': "(if ct_consumer_thread ?c then consumer_loop (Suc (length (q_contents ?q))) L K (?c\<lparr>ct_queue := ?q\<rparr>)
      else Some (Returns (), ?c\<lparr>ct_queue := ?q\<rparr>)) = Some (Returns u, c2)"
    by (simp add: joined_def s' Let_def del: consumer_loop.simps split: if_splits)
  have eq: "?c\<lparr>ct_started := True\<rparr>\<lparr>ct_started := False, ct_queue := queue_request_stop (ct_queue (?c\<lparr>ct_started := True\<rparr>))\<rparr> =
      ?c\<lparr>ct_queue := ?q\<rparr>" using c1 by simp
  have sel: "ct_consumer_thread (?c\<lparr>ct_queue := ?q\<rparr>) = ct_consumer_thread ?c" "ct_queue (?c\<lparr>ct_queue := ?q\<rparr>) = ?q"
    "ct_started (?c\<lparr>ct_started := True\<rparr>)" by simp_all
  show ?thesis
    using d unfolding request_stop_def Let_def eq sel j' not_True_eq_False if_False
    by (cases "ct_enforcer c2") (auto simp: detached_end_def linux_ops_def backend_ops_def linux_detach_def Let_def)
qed

text \<open>Nothing runs any more once the call has returned.\<close>

lemma stop_returned_quiet:
  assumes "stop_inv s" and "sh_main s = Stop_Returned r"
  shows "\<not> stop_step B L K fmt l s s'"
proof
  assume "stop_step B L K fmt l s s'"
  then show False using stop_invD(4) [OF assms] assms(2) by cases (auto simp: stop_main_def)
qed

text \<open>C28. Every interleaving of a shutdown amounts to the function \<open>request_stop\<close>: however the calling
  thread, the poller, the consumer and the kernel's submissions interleave, when the call returns the
  result and the controller are those of \<open>request_stop\<close> applied at the moment the queue is stopped. So
  exactly what was queued then is written, no event submitted or polled later is, and no thread runs
  any more: the poller and the consumer were done before the ring buffer was freed.\<close>

theorem shutdown_is_request_stop:
  assumes "stop_inv s" and "sh_main s = At_Stop_Enter" and "sh_alive s" and "runs (stop_step B L K fmt) ls s s'"
    and "sh_main s' = Stop_Returned r"
  shows "(\<exists>l1 l2 s1. ls = l1 @ By_Main # l2 \<and> runs (stop_step B L K fmt) l1 s s1 \<and> sh_main s1 = At_Stop_Queue \<and>
      request_stop (linux_ops B env) L K ((sh_controller s1)\<lparr>ct_started := True\<rparr>) = Some (Returns r, sh_controller s')) \<and>
    (\<forall>l t. \<not> stop_step B L K fmt l s' t)"
proof -
  from stop_request_point [OF assms(4,1)] assms(2,5) obtain l1 l2 s1 s2 where ls: "ls = l1 @ By_Main # l2"
    "runs (stop_step B L K fmt) l1 s s1" "sh_main s1 = At_Stop_Queue" "stop_step B L K fmt By_Main s1 s2"
    "runs (stop_step B L K fmt) l2 s2 s'" by auto
  note i1 = stop_runs_inv [OF ls(2) assms(1)]
  have main: "stop_main s1 = Some s2" using ls(4) by cases simp_all
  have i2: "stop_inv s2" "stop_requested (sh_main s2)" using stop_step_inv [OF ls(4) i1] stop_step_rank [OF ls(4) i1] ls(3) by simp_all
  from stop_runs_finish [OF ls(5) i2 stop_crash [OF assms(4,1,3,5)]] assms(5) have
    "finish L K s2 = Some (r, sh_controller s')" by (simp add: finish_def)
  from finish_request_stop [OF main ls(3) i1 this] ls stop_returned_quiet [OF stop_runs_inv [OF assms(4,1)] assms(5)]
  show ?thesis by blast
qed


section \<open>The shutdown ends\<close>

text \<open>The steps the threads still have to make, once the poller's token is set.\<close>

fun poll_work :: "nat \<Rightarrow> poll_pc \<Rightarrow> nat" where
  "poll_work n Poll_Begin = 2"
| "poll_work n Poll_Check = 1"
| "poll_work n Poll_Wait = 2 + n"
| "poll_work n Poll_Done = 0"

definition stop_work :: "('p, 'r, 'c, 'k) shutting \<Rightarrow> nat" where
  "stop_work s = (7 - stop_rank (sh_main s)) + poll_work (length (sy_ring (sh_system s))) (sh_poller s) +
     (if sh_alive s then 1 else 0) +
     (if sh_consumer s then Suc (length (q_contents (ct_queue (sh_controller s)))) else 0)"

lemma stop_main_frame:
  "stop_main s = Some s' \<Longrightarrow> stop_rank (sh_main s) \<noteq> 1 \<Longrightarrow> sh_poller s' = sh_poller s \<and> sh_consumer s' = sh_consumer s \<and> sh_alive s' = sh_alive s \<and>
     sy_ring (sh_system s') = sy_ring (sh_system s) \<and> ct_queue (sh_controller s') = ct_queue (sh_controller s)"
  by (auto simp: stop_main_def Let_def split: stop_pc.splits option.splits if_splits)

lemma stop_step_work:
  assumes "stop_step B L K fmt l s s'" and "stop_inv s" and "3 \<le> stop_rank (sh_main s)" and "\<forall>ev. l \<noteq> By_Kernel ev"
  shows "stop_work s' < stop_work s"
  using assms(1)
proof cases
  case stop_by_main
  with stop_main_rank [of s s'] stop_main_frame [of s s'] assms(3) have "stop_rank (sh_main s') = Suc (stop_rank (sh_main s))"
    by auto
  moreover from this have "stop_rank (sh_main s) < 7" by (cases "sh_main s'") simp_all
  ultimately have "7 - stop_rank (sh_main s') < 7 - stop_rank (sh_main s)" by simp
  with stop_main_frame [of s s'] stop_by_main assms(3) show ?thesis by (simp add: stop_work_def del: add_diff_assoc add_diff_assoc2)
next
  case stop_poll_begin
  then show ?thesis by (simp add: stop_work_def poll_begin_def split: option.splits)
next
  case stop_poll_check
  with assms(2,3) have "sh_ring_stop s" by (simp add: stop_inv_def Let_def)
  with stop_poll_check show ?thesis by (simp add: stop_work_def)
next
  case (stop_poll_take ev rest c)
  from poll_record_stopped [OF stop_poll_take(7)] stop_invD(3) [OF assms(2)] assms(3)
  obtain x where "c = beside x (ct_ring_thread (sh_controller s)) (sh_controller s)" by auto
  with stop_poll_take show ?thesis by (simp add: stop_work_def)
next
  case (stop_consume go c)
  from consume_one_queue [OF stop_consume(6) stop_invD(2) [OF assms(2)]] stop_consume show ?thesis
    by (cases go) (simp_all add: stop_work_def)
next
  case (stop_consume_throws m c)
  from consume_one_queue [OF stop_consume_throws(6) stop_invD(2) [OF assms(2)]] stop_consume_throws show ?thesis
    by (simp add: stop_work_def)
qed (use assms(4) in \<open>simp_all add: stop_work_def\<close>)

text \<open>A submission gives the poller at most one record more to take.\<close>

lemma poll_work_Suc: "poll_work (Suc n) pc \<le> Suc (poll_work n pc)"
  by (cases pc) simp_all

lemma stop_submit_work:
  "stop_step B L K fmt (By_Kernel ev) s s' \<Longrightarrow> stop_work s' \<le> Suc (stop_work s)"
  by (auto simp: stop_work_def poll_work_Suc elim!: stop_step.cases)

fun by_kernel :: "stop_label \<Rightarrow> bool" where
  "by_kernel (By_Kernel ev) = True"
| "by_kernel l = False"

definition submissions :: "stop_label list \<Rightarrow> nat" where
  "submissions ls = length (filter by_kernel ls)"

definition thread_steps :: "stop_label list \<Rightarrow> nat" where
  "thread_steps ls = length (filter (\<lambda>l. \<not> by_kernel l) ls)"

lemma stop_runs_work:
  "runs (stop_step B L K fmt) ls s s' \<Longrightarrow> stop_inv s \<Longrightarrow> 3 \<le> stop_rank (sh_main s) \<Longrightarrow>
     stop_work s' + thread_steps ls \<le> stop_work s + submissions ls \<and> 3 \<le> stop_rank (sh_main s')"
proof (induction rule: runs.induct)
  case (runs_snoc ls s s' l s'')
  note inv = stop_runs_inv [OF runs_snoc.hyps(1) runs_snoc.prems(1)]
  from runs_snoc have ih: "stop_work s' + thread_steps ls \<le> stop_work s + submissions ls" "3 \<le> stop_rank (sh_main s')" by auto
  have "3 \<le> stop_rank (sh_main s'')" using stop_step_rank [OF runs_snoc.hyps(2) inv] ih(2) by (auto split: if_splits)
  moreover have "stop_work s'' + thread_steps [l] \<le> stop_work s' + submissions [l]"
  proof (cases "by_kernel l")
    case True
    then obtain ev where "l = By_Kernel ev" by (cases l) auto
    with stop_submit_work [of B L K fmt ev s' s''] runs_snoc.hyps(2) show ?thesis by (simp add: thread_steps_def submissions_def)
  next
    case False
    then have "\<forall>ev. l \<noteq> By_Kernel ev" by auto
    from stop_step_work [OF runs_snoc.hyps(2) inv ih(2) this] False show ?thesis by (simp add: thread_steps_def submissions_def)
  qed
  ultimately show ?case using ih by (simp add: thread_steps_def submissions_def)
qed (simp add: thread_steps_def submissions_def)

text \<open>As long as the call has not returned, somebody can go on.\<close>

lemma stop_not_stuck:
  assumes "stop_inv s" and "sh_alive s" and "\<forall>r. sh_main s \<noteq> Stop_Returned r"
  shows "\<exists>l t. (\<forall>ev. l \<noteq> By_Kernel ev) \<and> stop_step B L K fmt l s t"
proof (cases "stop_main s")
  case (Some t)
  with assms(2) stop_by_main show ?thesis by blast
next
  case None
  then consider (ring) "sh_main s = At_Join_Ring" "\<not> ring_ended s" | (consumer) "sh_main s = At_Join_Consumer" "\<not> consumer_ended s"
    using assms(3) by (cases "sh_main s") (auto simp: stop_main_def Let_def split: if_splits option.splits)
  then show ?thesis
  proof cases
    case ring
    then have "ct_ring_thread (sh_controller s)" "sh_poller s \<noteq> Poll_Done" by (simp_all add: ring_ended_def)
    with assms(2) stop_poll_begin [of s] stop_poll_check [of s] stop_poll_return [of s] show ?thesis
      by (cases "sh_poller s") (blast intro: stop_label.distinct)+
  next
    case consumer
    then have c: "ct_consumer_thread (sh_controller s)" "sh_consumer s" by (simp_all add: consumer_ended_def)
    from stop_invD(3) [OF assms(1)] consumer have "pop (ct_queue (sh_controller s)) \<noteq> None" by (simp add: pop_drop)
    then have "consume_one L K (sh_controller s) \<noteq> None"
      by (simp add: consume_one_def split: option.splits outcome.splits prod.splits)
    then obtain r c' where one: "consume_one L K (sh_controller s) = Some (r, c')" by auto
    show ?thesis
      using stop_consume [OF assms(2) c] stop_consume_throws [OF assms(2) c] one by (cases r) blast+
  qed
qed

text \<open>C29. Every shutdown can end, and only new events can delay it: at any moment of it, unless an
  exception has ended the process, the call has returned or some thread can make a step; and from the
  moment the poller's stop token is set on, in every run, the threads together make at most as many
  steps as the queued events, the unpolled records and the statements left allow, and one more for
  each event the kernel submits meanwhile. As long as the program is attached, and it is detached only
  after the poller is joined, events that keep coming can thus keep the poller inside
  \<open>ring_buffer__poll\<close>; once they stop, the shutdown ends within the bound.\<close>

theorem shutdown_ends:
  assumes "stop_inv s" and "runs (stop_step B L K fmt) ls s t"
  shows "(3 \<le> stop_rank (sh_main s) \<longrightarrow> thread_steps ls \<le> stop_work s + submissions ls) \<and>
    (sh_alive t \<and> (\<forall>r. sh_main t \<noteq> Stop_Returned r) \<longrightarrow>
       (\<exists>l u. \<not> by_kernel l \<and> stop_step B L K fmt l t u))"
proof (intro conjI impI)
  assume "3 \<le> stop_rank (sh_main s)"
  with stop_runs_work [OF assms(2,1)] show "thread_steps ls \<le> stop_work s + submissions ls" by simp
next
  assume "sh_alive t \<and> (\<forall>r. sh_main t \<noteq> Stop_Returned r)"
  with stop_not_stuck [OF stop_runs_inv [OF assms(2,1)], of B L K fmt] obtain l u where
    l: "\<forall>ev. l \<noteq> By_Kernel ev" "stop_step B L K fmt l t u" by blast
  then have "\<not> by_kernel l" by (cases l) simp_all
  with l(2) show "\<exists>l u. \<not> by_kernel l \<and> stop_step B L K fmt l t u" by blast
qed


section \<open>A run for the witnesses\<close>

definition demo_shutting :: "((fileguard_file_id \<times> fileguard_protected_val) list,
    (fileguard_rule_key \<times> fileguard_rule_val) list, fileguard_config, unit) shutting" where
  "demo_shutting = \<lparr>sh_system = \<lparr>sy_controller = controller_with demo_enforcer, sy_ring = []\<rparr>,
     sh_main = At_Stop_Enter, sh_ring_stop = False, sh_poller = Poll_Check, sh_consumer = True, sh_alive = True\<rparr>"

lemma demo_shutting_inv: "stop_inv demo_shutting"
  by (simp add: demo_shutting_def stop_inv_def controller_with_def q_inv_def)

abbreviation "demo_stop_step \<equiv> stop_step demo_sys log_lib no_clients demo_time"

text \<open>The state after the first four statements, the poller on its way out.\<close>

definition demo_stopping :: "stop_pc \<Rightarrow> bool \<Rightarrow> bool \<Rightarrow> poll_pc \<Rightarrow> bool \<Rightarrow> ((fileguard_file_id \<times> fileguard_protected_val) list,
    (fileguard_rule_key \<times> fileguard_rule_val) list, fileguard_config, unit) shutting" where
  "demo_stopping pc ring cons poller loop = demo_shutting\<lparr>sh_system := \<lparr>sy_controller = (controller_with demo_enforcer)
       \<lparr>ct_started := False, ct_queue := queue_request_stop (ct_queue (controller_with demo_enforcer)),
        ct_ring_thread := ring, ct_consumer_thread := cons\<rparr>, sy_ring = []\<rparr>,
     sh_main := pc, sh_ring_stop := True, sh_poller := poller, sh_consumer := loop\<rparr>"

lemma demo_stop_requested:
  "runs demo_stop_step [By_Main, By_Main, By_Main, By_Main] demo_shutting (demo_stopping At_Join_Ring True True Poll_Check True)"
proof -
  let ?c = "controller_with demo_enforcer"
  let ?s1 = "sh_put (?c\<lparr>ct_started := False\<rparr>) demo_shutting\<lparr>sh_main := At_Stop_Queue\<rparr>"
  let ?s2 = "sh_put (?c\<lparr>ct_started := False, ct_queue := queue_request_stop (ct_queue ?c)\<rparr>) ?s1\<lparr>sh_main := At_Stop_Ring\<rparr>"
  let ?s3 = "?s2\<lparr>sh_ring_stop := True, sh_main := At_Stop_Consumer\<rparr>"
  have 1: "demo_stop_step By_Main demo_shutting ?s1"
    by (rule stop_by_main) (simp_all add: demo_shutting_def stop_main_def controller_with_def)
  have 2: "demo_stop_step By_Main ?s1 ?s2"
    by (rule stop_by_main) (simp_all add: stop_main_def Let_def, simp add: demo_shutting_def)
  have 3: "demo_stop_step By_Main ?s2 ?s3"
    by (rule stop_by_main) (simp_all add: stop_main_def controller_with_def, simp_all add: demo_shutting_def)
  have 4: "demo_stop_step By_Main ?s3 (?s3\<lparr>sh_main := At_Join_Ring\<rparr>)"
    by (rule stop_by_main) (simp_all add: stop_main_def Let_def, simp add: demo_shutting_def)
  have e: "?s3\<lparr>sh_main := At_Join_Ring\<rparr> = demo_stopping At_Join_Ring True True Poll_Check True"
    by (simp add: demo_stopping_def sh_put_def demo_shutting_def controller_with_def)
  note more = runs_snoc [where step = demo_stop_step]
  from more [OF more [OF more [OF runs_one [of demo_stop_step, OF 1] 2] 3] 4] show ?thesis unfolding e by simp
qed

lemma demo_stop_rest:
  "\<exists>t. runs demo_stop_step [By_Poller, By_Consumer, By_Main, By_Main, By_Main]
     (demo_stopping At_Join_Ring True True Poll_Check True) t \<and> sh_main t = Stop_Returned (Inr ())"
proof -
  let ?s = demo_stopping
  have 1: "demo_stop_step By_Poller (?s At_Join_Ring True True Poll_Check True) (?s At_Join_Ring True True Poll_Done True)"
    using stop_poll_check [of "?s At_Join_Ring True True Poll_Check True"] by (simp add: demo_stopping_def demo_shutting_def)
  have one: "consume_one log_lib no_clients (sh_controller (?s At_Join_Ring True True Poll_Done True)) =
      Some (Returns False, sh_controller (?s At_Join_Ring True True Poll_Done True))"
    by (simp add: demo_stopping_def controller_with_def consume_one_def pop_def queue_request_stop_def q_empty_def)
  have 2: "demo_stop_step By_Consumer (?s At_Join_Ring True True Poll_Done True) (?s At_Join_Ring True True Poll_Done False)"
    using stop_consume [OF _ _ _ one] by (simp add: demo_stopping_def demo_shutting_def sh_put_def)
  have 3: "demo_stop_step By_Main (?s At_Join_Ring True True Poll_Done False) (?s At_Join_Consumer False True Poll_Done False)"
    by (rule stop_by_main) (simp_all add: stop_main_def demo_stopping_def demo_shutting_def sh_put_def ring_ended_def)
  have 4: "demo_stop_step By_Main (?s At_Join_Consumer False True Poll_Done False) (?s At_Detach False False Poll_Done False)"
    by (rule stop_by_main) (simp_all add: stop_main_def demo_stopping_def demo_shutting_def sh_put_def consumer_ended_def)
  have "\<exists>t. stop_main (?s At_Detach False False Poll_Done False) = Some t \<and> sh_main t = Stop_Returned (Inr ())"
    by (simp add: stop_main_def demo_stopping_def demo_shutting_def controller_with_def linux_detach_def)
  then obtain t where t: "stop_main (?s At_Detach False False Poll_Done False) = Some t" "sh_main t = Stop_Returned (Inr ())" by blast
  have 5: "demo_stop_step By_Main (?s At_Detach False False Poll_Done False) t"
    by (rule stop_by_main [OF _ t(1)]) (simp add: demo_stopping_def demo_shutting_def)
  note more = runs_snoc [where step = demo_stop_step]
  from more [OF more [OF more [OF more [OF runs_one [of demo_stop_step, OF 1] 2] 3] 4] 5] t(2) show ?thesis by auto
qed

theorem shutdown_is_request_stop_witness:
  "\<exists>t s1. runs demo_stop_step ([By_Main, By_Main, By_Main, By_Main] @ [By_Poller, By_Consumer, By_Main, By_Main, By_Main]) demo_shutting t \<and>
     request_stop (linux_ops demo_sys demo_env) log_lib no_clients ((sh_controller s1)\<lparr>ct_started := True\<rparr>) =
       Some (Returns (Inr ()), sh_controller t)"
proof -
  from demo_stop_rest obtain t where rest: "runs demo_stop_step [By_Poller, By_Consumer, By_Main, By_Main, By_Main]
      (demo_stopping At_Join_Ring True True Poll_Check True) t" and t: "sh_main t = Stop_Returned (Inr ())" by blast
  note run = runs_append [OF rest demo_stop_requested]
  have "sh_main demo_shutting = At_Stop_Enter" "sh_alive demo_shutting" by (simp_all add: demo_shutting_def)
  from shutdown_is_request_stop [OF demo_shutting_inv this run t, of demo_env] run show ?thesis by blast
qed

theorem shutdown_ends_witness:
  "\<exists>t. runs demo_stop_step [By_Poller, By_Consumer, By_Main, By_Main, By_Main] (demo_stopping At_Join_Ring True True Poll_Check True) t \<and>
     5 \<le> stop_work (demo_stopping At_Join_Ring True True Poll_Check True) \<and>
     (\<exists>l u. \<not> by_kernel l \<and> demo_stop_step l (demo_stopping At_Join_Ring True True Poll_Check True) u)"
proof -
  let ?s = "demo_stopping At_Join_Ring True True Poll_Check True"
  have inv: "stop_inv ?s" by (rule stop_runs_inv [OF demo_stop_requested demo_shutting_inv])
  have r: "stop_rank (sh_main ?s) = 4" "sh_alive ?s" "\<forall>r. sh_main ?s \<noteq> Stop_Returned r" by (simp_all add: demo_stopping_def demo_shutting_def)
  from demo_stop_rest obtain t where run: "runs demo_stop_step [By_Poller, By_Consumer, By_Main, By_Main, By_Main] ?s t" by blast
  from shutdown_ends [OF inv run] r have "5 \<le> stop_work ?s" by (simp add: thread_steps_def submissions_def)
  moreover have "\<exists>l u. \<not> by_kernel l \<and> demo_stop_step l ?s u"
    using shutdown_ends [OF inv runs_nil, of demo_sys log_lib no_clients demo_time] r by blast
  ultimately show ?thesis using run by blast
qed

end
