(* ===== verification/Install_Capacity.thy ===== *)
theory Install_Capacity
  imports System
begin

text \<open>
  When a load succeeds. The hash maps of the kernel object have a fixed number of entries
  (\<open>load_sizes\<close>), and bpf(2) documents that an insertion fails with \<open>E2BIG\<close> exactly when the map is
  full. With that, the success of \<open>apply_policy\<close> and of \<open>load_policy\<close> is a condition on the policy
  alone, and a policy that is valid but too big has a price: it switches enforcement off.
\<close>

section \<open>What bpf(2) documents of full maps\<close>

definition E2BIG :: nat where "E2BIG = 7"

text \<open>An absent key is inserted unless the map holds \<open>cap\<close> keys already.\<close>

definition capacity_law :: "('m, 'k, 'v) map_ops \<Rightarrow> nat \<Rightarrow> bool" where
  "capacity_law A cap \<longleftrightarrow> (\<forall>m k v ret errno m'. mo_update A m k v BPF_NOEXIST = ((ret, errno), m') \<longrightarrow>
     mo_lookup A m k = None \<longrightarrow>
     (if card (dom (mo_lookup A m)) < cap then 0 \<le> ret else ret < 0 \<and> errno = E2BIG))"

text \<open>The one element of an array map can always be written.\<close>

definition config_writable :: "('c, u32, fileguard_config) map_ops \<Rightarrow> bool" where
  "config_writable A \<longleftrightarrow> (\<forall>m v. 0 \<le> fst (fst (mo_update A m 0 v BPF_ANY)))"

lemma capacityD:
  "capacity_law A cap \<Longrightarrow> mo_update A m k v BPF_NOEXIST = ((ret, errno), m') \<Longrightarrow> mo_lookup A m k = None \<Longrightarrow>
     if card (dom (mo_lookup A m)) < cap then 0 \<le> ret else ret < 0 \<and> errno = E2BIG"
  unfolding capacity_law_def by blast

text \<open>One insertion, hard failure or not.\<close>

lemma insertion_fits:
  assumes laws: "hash_map_laws A" and cap: "capacity_law A cap" and up: "mo_update A m k v BPF_NOEXIST = ((ret, errno), m')"
    and room: "card (dom (mo_lookup A m)) \<le> cap"
  shows "if ret < 0 \<and> errno \<noteq> EEXIST then errno = E2BIG \<and> cap < card (insert k (dom (mo_lookup A m)))
    else dom (mo_lookup A m') = insert k (dom (mo_lookup A m)) \<and> card (dom (mo_lookup A m')) \<le> cap"
proof (cases "mo_lookup A m k")
  case None
  have "card (insert k (dom (mo_lookup A m))) = Suc (card (dom (mo_lookup A m)))"
    using None by (intro card_insert_disjoint hash_finite [OF laws]) auto
  with capacityD [OF cap up None] hash_update [OF laws up] hash_noexist [OF laws up] None room show ?thesis
    by (auto simp: E2BIG_def split: if_splits)
next
  case (Some x)
  with hash_noexist [OF laws up] hash_update [OF laws up] room show ?thesis by (auto simp: insert_absorb domI)
qed

lemma card_Un_gt:
  "finite D \<Longrightarrow> finite K \<Longrightarrow> k \<in> K \<Longrightarrow> cap < card (insert k D) \<Longrightarrow> \<not> card (D \<union> K) \<le> cap"
  using card_mono [of "D \<union> K" "insert k D"] by auto

lemma insert_protected_fits:
  assumes laws: "hash_map_laws (bs_protected B)" and cap: "capacity_law (bs_protected B) n"
  shows "card (dom (mo_lookup (bs_protected B) (km_protected m))) \<le> n \<Longrightarrow> insert_protected B ids m = (x, m') \<Longrightarrow>
     x = (if card (dom (mo_lookup (bs_protected B) (km_protected m)) \<union> to_abi ` set ids) \<le> n then Inr ()
          else Inl (''cannot insert protected resource'' @ bpf_err B E2BIG))"
proof (induction ids arbitrary: m)
  case (Cons i ids)
  let ?D = "dom (mo_lookup (bs_protected B) (km_protected m))"
  obtain ret errno p where up: "mo_update (bs_protected B) (km_protected m) (to_abi i) \<lparr>prot_reserved = 0\<rparr> BPF_NOEXIST
      = ((ret, errno), p)" by (metis prod.exhaust)
  note one = insertion_fits [OF laws cap up Cons.prems(1)]
  show ?case
  proof (cases "ret < 0 \<and> errno \<noteq> EEXIST")
    case True
    with one card_Un_gt [OF hash_finite [OF laws], of "to_abi ` set (i # ids)" "to_abi i" n "km_protected m"] Cons.prems(2)
    show ?thesis by (auto simp: up Let_def)
  next
    case False
    let ?m1 = "m\<lparr>km_protected := p, km_log := km_log m @ [(p, km_rules m, km_config m)]\<rparr>"
    from one [unfolded if_not_P [OF False]] have d: "dom (mo_lookup (bs_protected B) (km_protected ?m1)) = insert (to_abi i) ?D"
      "card (dom (mo_lookup (bs_protected B) (km_protected ?m1))) \<le> n" by auto
    from False Cons.prems(2) have "insert_protected B ids ?m1 = (x, m')" by (auto simp: up Let_def split: if_splits)
    from Cons.IH [OF d(2) this] show ?thesis unfolding d(1) by (simp add: insert_commute)
  qed
qed simp

lemma insert_rules_fits:
  assumes laws: "hash_map_laws (bs_rules B)" and cap: "capacity_law (bs_rules B) n"
  shows "card (dom (mo_lookup (bs_rules B) (km_rules m))) \<le> n \<Longrightarrow> insert_rules B rs m = (x, m') \<Longrightarrow>
     x = (if card (dom (mo_lookup (bs_rules B) (km_rules m)) \<union> rule_key ` set rs) \<le> n then Inr ()
          else Inl (''cannot insert policy rule'' @ bpf_err B E2BIG))"
proof (induction rs arbitrary: m)
  case (Cons r rs)
  let ?D = "dom (mo_lookup (bs_rules B) (km_rules m))"
  obtain ret errno q where up: "mo_update (bs_rules B) (km_rules m) (rule_key r) (rule_val r) BPF_NOEXIST
      = ((ret, errno), q)" by (metis prod.exhaust)
  note one = insertion_fits [OF laws cap up Cons.prems(1)]
  show ?case
  proof (cases "ret < 0 \<and> errno \<noteq> EEXIST")
    case True
    with one card_Un_gt [OF hash_finite [OF laws], of "rule_key ` set (r # rs)" "rule_key r" n "km_rules m"] Cons.prems(2)
    show ?thesis by (auto simp: up Let_def)
  next
    case False
    let ?m1 = "m\<lparr>km_rules := q, km_log := km_log m @ [(km_protected m, q, km_config m)]\<rparr>"
    from one [unfolded if_not_P [OF False]] have d: "dom (mo_lookup (bs_rules B) (km_rules ?m1)) = insert (rule_key r) ?D"
      "card (dom (mo_lookup (bs_rules B) (km_rules ?m1))) \<le> n" by auto
    from False Cons.prems(2) have "insert_rules B rs ?m1 = (x, m')" by (auto simp: up Let_def split: if_splits)
    from Cons.IH [OF d(2) this] show ?thesis unfolding d(1) by (simp add: insert_commute)
  qed
qed simp

section \<open>When an install succeeds\<close>

definition sized :: "('p, 'r, 'c) bpf_sys \<Rightarrow> map_sizes \<Rightarrow> bool" where
  "sized B sizes \<longleftrightarrow> capacity_law (bs_protected B) (unat (ms_protected sizes)) \<and>
     capacity_law (bs_rules B) (unat (ms_rules sizes)) \<and> config_writable (bs_config B)"

definition fits :: "map_sizes \<Rightarrow> compiled_policy \<Rightarrow> bool" where
  "fits sizes cp \<longleftrightarrow> card (set (cp_protected_resources cp)) \<le> unat (ms_protected sizes) \<and>
     card (rule_key ` set (cp_rules cp)) \<le> unat (ms_rules sizes)"

lemma config_writableD: "config_writable (bs_config B) \<Longrightarrow> set_config B cfg m = ((ret, errno), m') \<Longrightarrow> \<not> ret < 0"
  by (auto simp: config_writable_def set_config_def split: prod.splits) (metis fst_conv linorder_not_less)

lemma install_fits:
  assumes laws: "bpf_laws B" and sz: "sized B sizes" and im: "install_maps B cp m0 = Some (x, m)"
  shows "(x = Inr ()) = fits sizes cp"
proof -
  have L: "hash_map_laws (bs_protected B)" "hash_map_laws (bs_rules B)" using laws by (simp_all add: bpf_laws_def)
  have S: "capacity_law (bs_protected B) (unat (ms_protected sizes))" "capacity_law (bs_rules B) (unat (ms_rules sizes))"
    "config_writable (bs_config B)" using sz by (simp_all add: sized_def)
  obtain ret1 errno1 m1 where s1: "set_config B (zero_config\<lparr>conf_enabled := 0\<rparr>) m0 = ((ret1, errno1), m1)" by (metis prod.exhaust)
  obtain m2 where m2: "clear_protected B m1 = Some (Inr (), m2)" "mo_lookup (bs_protected B) (km_protected m2) = Map.empty"
    using clear_protected_total [OF L(1)] by blast
  obtain m3 where m3: "clear_rules B m2 = Some (Inr (), m3)" "mo_lookup (bs_rules B) (km_rules m3) = Map.empty"
    "km_protected m3 = km_protected m2" using clear_rules_total [OF L(2)] by blast
  obtain x4 m4 where m4: "insert_protected B (cp_protected_resources cp) m3 = (x4, m4)" by (metis prod.exhaust)
  obtain x5 m5 where m5: "insert_rules B (cp_rules cp) m4 = (x5, m5)" by (metis prod.exhaust)
  obtain ret6 errno6 m6 where s6: "set_config B (zero_config\<lparr>conf_enabled := 1,
      conf_policy_version := cp_version cp\<rparr>) m5 = ((ret6, errno6), m6)" by (metis prod.exhaust)
  have "card (to_abi ` set (cp_protected_resources cp)) = card (set (cp_protected_resources cp))"
    by (rule card_image) (simp add: inj_on_def)
  with insert_protected_fits [OF L(1) S(1) _ m4] m2(2) m3(3)
  have x4: "(x4 = Inr ()) = (card (set (cp_protected_resources cp)) \<le> unat (ms_protected sizes))" by simp
  from insert_rules_fits [OF L(2) S(2) _ m5] m3(2) insert_protected_rules [OF m4]
  have x5: "(x5 = Inr ()) = (card (rule_key ` set (cp_rules cp)) \<le> unat (ms_rules sizes))" by simp
  have "(x = Inr ()) = (x4 = Inr () \<and> x5 = Inr ())"
    using im config_writableD [OF S(3) s1] config_writableD [OF S(3) s6]
    by (cases x4; cases x5) (auto simp: install_maps_def s1 m2(1) m3(1) m4 m5 s6)
  with x4 x5 show ?thesis by (simp add: fits_def)
qed

lemma linux_apply_fits:
  assumes "bpf_laws B" and "sized B sizes" and "le_skel e" and "linux_apply_policy B e cp = Some (r, e')"
  shows "(r = Inr ()) = fits sizes cp"
  using assms(3,4) install_fits [OF assms(1,2), of cp "le_maps e"]
  by (cases "install_maps B cp (le_maps e)") (auto simp: linux_apply_policy_def split: sum.splits)

section \<open>When a load succeeds\<close>

text \<open>The identities a policy needs room for: its files, and its (file, executable) pairs.\<close>

definition policy_fits :: "file_resolver \<Rightarrow> map_sizes \<Rightarrow> policy \<Rightarrow> bool" where
  "policy_fits R sizes p \<longleftrightarrow> card (resolved_id R ` protected_paths p) \<le> unat (ms_protected sizes) \<and>
     card ((\<lambda>r. (resolved_id R (res_path (rule_resource r)), resolved_id R (pid_value (rule_process r)))) ` set (pol_rules p))
       \<le> unat (ms_rules sizes)"

lemma fits_compiled:
  assumes "compile R p = Inr cp"
  shows "fits sizes cp = policy_fits R sizes p"
proof -
  let ?pair = "\<lambda>r. (resolved_id R (res_path (rule_resource r)), resolved_id R (pid_value (rule_process r)))"
  have cp: "cp = compiled_form R p" using assms compile_ok [OF compile_InrD [OF assms]] by simp
  have "rule_key ` set (cp_rules cp) = (\<lambda>(a, b). \<lparr>key_res = to_abi a, key_proc = to_abi b\<rparr>) ` ?pair ` set (pol_rules p)"
  proof -
    have *: "f ` set (map2 g ks rs) = h ` set rs" if "length ks = length rs" "\<And>k r. f (g k r) = h r" for f g h ks rs
      using that by (induction ks rs rule: list_induct2) auto
    show ?thesis unfolding cp compiled_form_def compiled_policy.select_convs image_comp
      by (rule *) (simp_all add: rule_key_def compiled_rule_of_def del: upt_Suc)
  qed
  moreover have "inj (\<lambda>(a, b). \<lparr>key_res = to_abi a, key_proc = to_abi b\<rparr>)" by (auto simp: inj_def)
  ultimately have "card (rule_key ` set (cp_rules cp)) = card (?pair ` set (pol_rules p))"
    by (simp add: card_image inj_on_subset [OF _ subset_UNIV])
  moreover have "set (cp_protected_resources cp) = resolved_id R ` protected_paths p"
    by (auto simp: cp compiled_form_def protected_paths_def)
  ultimately show ?thesis by (simp add: fits_def policy_fits_def)
qed

text \<open>C16. When a load succeeds, exactly: on maps with the configured number of entries, \<open>load_policy\<close>
  returns, and without an error precisely when the policy is well formed, all its paths resolve to
  identified files, and its distinct files and (file, executable) pairs fit into the maps. A policy
  that passes validation and compilation but does not fit leaves the kernel enforcing nothing.\<close>

theorem load_capacity_exact:
  assumes "bpf_laws B" and "sized B sizes" and "ct_enforcer c = Some e" and "le_skel e"
  shows "\<exists>r c'. load_policy (linux_ops B env) R (Some p) c = Some (r, c') \<and>
    (r = Inr () \<longleftrightarrow> policy_wf p \<and> policy_paths p \<subseteq> Collect (resolves R) \<and> policy_fits R sizes p) \<and>
    (policy_wf p \<and> policy_paths p \<subseteq> Collect (resolves R) \<and> \<not> policy_fits R sizes p \<longrightarrow> enforces B R None c')"
proof -
  have wfc: "policy_wf p \<and> policy_paths p \<subseteq> Collect (resolves R) \<longleftrightarrow> (\<exists>cp. compile R p = Inr cp)"
    using compile_ok [of p R] compile_InrD [of R p] by blast
  show ?thesis
  proof (cases "compile R p")
    case (Inl m)
    then have "\<exists>m'. load_policy (linux_ops B env) R (Some p) c = Some (Inl m', c)"
      by (auto simp: load_policy_def split: sum.splits)
    with Inl wfc show ?thesis by auto
  next
    case (Inr cp)
    note v = compile_valid [OF Inr]
    obtain r e' where ap: "linux_apply_policy B e cp = Some (r, e')" using linux_apply_returns [OF assms(1)] by blast
    note fits = linux_apply_fits [OF assms(1,2,4) ap] fits_compiled [OF Inr, of sizes]
    show ?thesis
    proof (cases r)
      case r: (Inr u)
      with ap have "\<exists>c'. load_policy (linux_ops B env) R (Some p) c = Some (Inr (), c')"
        by (auto simp: load_policy_def Inr v load_apply_def linux_ops_def backend_ops_def assms(3) load_install_valid)
      with r fits wfc Inr show ?thesis by auto
    next
      case r: (Inl m)
      let ?c' = "c\<lparr>ct_enforcer := Some e'\<rparr>"
      from r ap have "\<exists>m'. load_policy (linux_ops B env) R (Some p) c = Some (Inl m', ?c')"
        by (auto simp: load_policy_def Inr v load_apply_def linux_ops_def backend_ops_def assms(3))
      moreover have "enforces B R None ?c'"
      proof -
        obtain ret errno m1 where s1: "set_config B (zero_config\<lparr>conf_enabled := 0\<rparr>) (le_maps e) = ((ret, errno), m1)"
          by (metis prod.exhaust)
        have "\<not> pause_fails B (le_maps e)"
          using assms(2) config_writableD [OF _ s1] by (simp add: pause_fails_def s1 sized_def)
        with linux_apply_outcome [OF assms(1) ap assms(4)] r have "paused_run B (le_maps e) (le_maps e')"
          by (simp add: install_outcome_def)
        then show ?thesis by (simp add: enforces_def paused_run_def fg_enabled_def view_of_def snapshot_def zero_config_def)
      qed
      ultimately show ?thesis using r fits wfc Inr by auto
    qed
  qed
qed

text \<open>Maps for the witness: one protected file fits, and a policy that protects two.\<close>

lemma alist_capacity: "capacity_law (alist_ops cap d) cap"
  by (auto simp: capacity_law_def alist_ops_def alist_update_def length_remdups_card_conv dom_map_of_conv_image_fst
      map_of_eq_None_iff E2BIG_def split: if_splits)

definition tiny_sizes :: map_sizes where
  "tiny_sizes = \<lparr>ms_protected = 1, ms_rules = 4096, ms_events = 4096\<rparr>"

definition two_files :: policy where
  "two_files = small_policy\<lparr>pol_resources := pol_resources small_policy @ [\<lparr>res_path = ''/usr/local/bin/backup-agent'', res_operation = None\<rparr>]\<rparr>"

lemma tiny_sized: "sized tiny_sys tiny_sizes"
  by (simp add: sized_def tiny_sys_def demo_sys_def tiny_sizes_def alist_capacity config_writable_def)

lemma two_files_valid: "validate two_files = Inr ()"
  by (simp add: validate_def two_files_def small_policy_def sample_policy_def)

theorem load_capacity_exact_witness:
  "\<exists>c1 c2 m. load_policy (linux_ops tiny_sys demo_env) demo_resolver (Some small_policy) (controller_with demo_enforcer) =
       Some (Inr (), c1) \<and>
     load_policy (linux_ops tiny_sys demo_env) demo_resolver (Some two_files) (controller_with demo_enforcer) = Some (Inl m, c2) \<and>
     enforces tiny_sys demo_resolver None c2"
proof -
  have e: "ct_enforcer (controller_with demo_enforcer) = Some demo_enforcer" "le_skel demo_enforcer"
    by (simp_all add: controller_with_def demo_enforcer_def)
  note iff = load_capacity_exact [OF tiny_sys_laws tiny_sized e, of demo_env demo_resolver]
  have wf: "policy_wf small_policy" "policy_wf two_files"
    using small_policy_valid two_files_valid by (simp_all add: validate_iff_wf)
  have res: "policy_paths small_policy \<subseteq> Collect (resolves demo_resolver)" "policy_paths two_files \<subseteq> Collect (resolves demo_resolver)"
    by (auto simp: policy_paths_def protected_paths_def two_files_def small_policy_def sample_policy_def resolves_def
        demo_resolver_def file_id_valid_def)
  have fit: "policy_fits demo_resolver tiny_sizes small_policy" "\<not> policy_fits demo_resolver tiny_sizes two_files"
    by (simp_all add: policy_fits_def protected_paths_def two_files_def small_policy_def sample_policy_def
        tiny_sizes_def resolved_id_def demo_resolver_def)
  from iff [of small_policy] wf(1) res(1) fit(1) obtain c1 where
    "load_policy (linux_ops tiny_sys demo_env) demo_resolver (Some small_policy) (controller_with demo_enforcer) = Some (Inr (), c1)"
    by auto
  moreover from iff [of two_files] wf(2) res(2) fit(2) obtain r c2 where
    "load_policy (linux_ops tiny_sys demo_env) demo_resolver (Some two_files) (controller_with demo_enforcer) = Some (r, c2)"
    "r \<noteq> Inr ()" "enforces tiny_sys demo_resolver None c2" by auto
  ultimately show ?thesis by (cases r) auto
qed

end
