(* ===== verification/Spec2Isabelle.thy ===== *)
theory Spec2Isabelle
  imports Agreement Cli_Properties Controller_Properties Queue_Concurrency Sessions Serve Tools Controller_Types Live_Daemon Shutdown Install_Capacity
begin

text \<open>
  eBPF FileGuard: a model of the whole program, from the policy document to the decision of the
  kernel program and the audit event a user sees.

  \<^bold>\<open>The program.\<close> An administrator writes a policy (protected files, and rules that allow or deny
  an executable to open one) as JSON. \<open>guardctl\<close> (\<open>src/cli.cpp\<close>) talks over a UNIX socket to a daemon
  (\<open>src/daemon.cpp\<close>), which hands the policy to the controller (\<open>src/controller.cpp\<close>): it is parsed
  (\<open>src/config_parser.cpp\<close>), validated (\<open>src/policy.cpp\<close>), compiled to file identities
  (\<open>src/policy_compiler.cpp\<close>) and written to the maps of a BPF program by the enforcement backend
  (\<open>src/ebpf_manager_linux.cpp\<close> behind \<open>include/fileguard/enforcer.hpp\<close>). The BPF program
  (\<open>ebpf/fileguard.bpf.c\<close>) answers every \<open>file_open\<close> from these maps and submits an event for a
  mediated open; the events come back through a ring buffer, are enriched with paths
  (\<open>src/path_resolver.cpp\<close>), queued (\<open>include/fileguard/event_queue.hpp\<close>) and written to the sinks
  (\<open>src/event_sink.cpp\<close>) and to stream clients. \<open>DecisionEngine\<close> (\<open>src/decision_engine.cpp\<close>) is the
  userspace semantics the kernel program is meant to agree with.

  \<^bold>\<open>Theories.\<close>
  \<^item> \<open>Fg_Prelude\<close>: integer types, the error channel \<open>Result\<close> as a sum, exceptions as \<open>outcome\<close>,
    decimal rendering, \<open>trim\<close>.
  \<^item> \<open>Abi\<close>: \<open>abi.h\<close> and \<open>file_id.hpp\<close>, the records and codes shared with the kernel; \<open>FileId\<close> is a
    linear order.
  \<^item> \<open>Policy_Model\<close>, \<open>Decision_Engine\<close>, \<open>Policy_Compiler\<close>: the policy object and its validation, the
    path-level decision, and compilation against a file resolver.
  \<^item> \<open>Json_Lib\<close>, \<open>Config_Parser\<close>: the operations of nlohmann/json as a parameter with its documented
    laws, and the parser of policy documents.
  \<^item> \<open>Kernel_Program\<close>: the hook and its helpers over a view of the maps (\<open>kview\<close>).
  \<^item> \<open>Enforcer\<close>: the backend contract as the locale \<open>enforcement_backend\<close>, and \<open>NullEnforcer\<close>.
  \<^item> \<open>Ebpf_Manager\<close>, \<open>Ebpf_Install\<close>: the Linux backend over map operations that are parameters with
    the laws of \<open>bpf(2)\<close>, with a log of every content the maps go through; the backend's
    interpretation of the contract and its properties.
  \<^item> \<open>Agreement\<close>: the hook on the installed maps against a reading of the policy for files (\<open>file_allows\<close>:
    what the policy can mean to a kernel that knows no paths, for any path resolution), and that
    reading against \<open>evaluate\<close>, with which it agrees wherever no two of the paths name one file.
  \<^item> \<open>Event_Queue\<close>, \<open>Queue_Concurrency\<close>: the bounded queue, first each operation on its own (the
    locale \<open>bounded_fifo\<close>, interpreted by the lock-free and by the blocking ends), then the
    interleavings of producer, consumer and stopper as a step relation.
  \<^item> \<open>Security_Events\<close>, \<open>Event_Sink\<close>: events, the reverse resolver, console and JSON sinks.
  \<^item> \<open>Controller\<close>, \<open>Controller_Facts\<close>, \<open>Controller_Properties\<close>: the policy manager, start, load, stop
    and the event pipeline; facts from the contract are proved once in the locale's context.
  \<^item> \<open>Daemon\<close>, \<open>Daemon_Properties\<close>: socket writing, request framing and handling, stream clients,
    set-up and shutdown.
  \<^item> \<open>Sessions\<close>: the connections of the running daemon side by side, as an inductive step relation
    with the process's descriptor table and the feeds' writer threads: who owns a descriptor, which
    clients are delivered to, and how connections end after a stop.
  \<^item> \<open>Cli\<close>, \<open>Cli_Properties\<close>: argument parsing, the request exchange, the client's subcommands.
  \<^item> \<open>Serve\<close>: \<open>guardctl serve\<close>, its set-up and its two threads with signals and destructors, as a
    step relation around \<open>Daemon::run\<close>.
  \<^item> \<open>System\<close>: the composition on the Linux backend. Opens answered by the hook on the installed
    maps, the ring buffer, polling, the queue, the consumer with the sinks, and loads are one step
    relation (\<open>sys_step\<close>); the specification is a reference monitor whose state is the policy in force
    (\<open>monitor_step\<close>).
  \<^item> \<open>Install_Capacity\<close>: the number of entries of the maps (\<open>map_sizes\<close>, set by the configuration) with
    what bpf(2) documents of a full map: when a load succeeds, as a condition on the policy alone.
  \<^item> \<open>Apply_Steps\<close>: \<open>apply_policy\<close> once more, as the sequence of its libbpf calls (\<open>apply_step\<close> over the
    program counter \<open>apply_pc\<close>), equal to the function of \<open>Ebpf_Manager\<close> when run alone.
  \<^item> \<open>Load_Concurrency\<close>, \<open>Load_Window\<close>, \<open>Load_Monitor\<close>, \<open>Load_Agreement\<close>: any number of threads in
    \<open>load_policy\<close>, with \<open>state_mu_\<close> as an owner and each libbpf call of the owner a step of its own
    (\<open>conc_step\<close>), between opens, polling, status requests and \<open>detach\<close>. It refines a specification
    with \<open>apply_policy\<close> as one step (\<open>atomic_step\<close>, a \<open>simulation\<close>); the hook's three lookups can fall
    to three moments of a run (\<open>hook_step\<close>); the monitor of \<open>System\<close> holds at every moment; and loads
    that do not overlap keep the policy manager and the event resolver with the kernel.
  \<^item> \<open>Mediation\<close>: the connections of \<open>Sessions\<close> against the monitor of \<open>System\<close>, a request as one step.
  \<^item> \<open>Live_Daemon\<close>: those connections and the loading threads together (\<open>live_step\<close>): a connection whose
    line asks for a load is a loading thread of \<open>Load_Concurrency\<close> until it builds its reply. The
    monitor under all of them, and that every load request can be answered.
  \<^item> \<open>Shutdown\<close>: \<open>request_stop\<close> statement by statement against the poller, the consumer and the kernel
    (\<open>stop_step\<close>): every interleaving gives the result of the function, and only events that keep
    coming can keep one from ending.
  \<^item> \<open>Controller_Types\<close>: every operation of the controller as a step, and the well-formedness of its
    state along all of them.
  \<^item> \<open>Tools\<close>: the programs of \<open>tools/\<close>, the two readers and the benchmark, on their own and with their
    opens answered by the hook.

  \<^bold>\<open>Correspondence.\<close> A class is a record with its fields in order; a method is a function from the
  state to its result and the next state. \<open>Result<T>\<close> is \<open>string + 'a\<close>; a C++ exception is \<open>Throws\<close>;
  a call that blocks or does not return is \<open>None\<close>. Integers keep their width as words. What the
  operating system returns is a script (a list of results) or a record of results, so a loop on
  it is structural recursion; \<open>clear_loop\<close>, whose end depends on the map, is a
  \<open>partial_function\<close> with a proof that it ends. \<open>consumer_loop\<close> takes the number of iterations;
  one more than the queued events is proved to be enough after a stop.

  \<^bold>\<open>What is shown.\<close> Validation, parsing and compilation are characterised exactly, the parser with a
  round trip. An install leaves exactly the compiled policy in the kernel, and every content on
  the way is fail-open. The hook implements the allow-list on files, does not depend on the event path, and
  agrees with the engine on the paths for a default of DENY and paths that are not links to one another
  (\<open>enforcement_matches_engine\<close>). The running system refines the monitor: every open is answered by the
  policy in force, read for files, which only a load of a document the parser accepted can change,
  whatever the clients send; none of this assumes that different paths are different files; and the audit trail is
  complete, from the hook's submission to the sinks. A successful start establishes the state these
  theorems begin in. Under concurrent loads the kernel is still a monitor of one accepted policy at a
  time, loads are serializable, a status report is never torn, the mutex is always released, and a
  client that asked for a load can always get its reply. A shutdown never gets stuck, is the sequential one
  however the threads interleave, and ends once the kernel submits no more events. A load succeeds exactly for a valid policy that fits the maps. The controller's state is well formed after any operations in any order. A load
  is all or nothing in userspace. No event is lost, reordered or raced on in the queue; blocking ends
  lose no wake-up. Requests are framed independently of how the stream is cut, up to a stop, and each gets one
  reply if it can be written as JSON. The negative results are stated as theorems too: a default of ALLOW is ignored by the
  kernel, so are rules for a second link to a file, the event's process identity is stale, a hook run that straddles an update can deny a
  constantly allowed access, \<open>try_push\<close> can lose a wake-up, concurrent loads can diverge, the event
  feed has no line ends, a stream connection's descriptor is closed twice so that replies can reach
  another client, a signal during start-up can be lost, one failed poll ends the audit, a stopped
  controller that is started again drops its events, and the benchmark's failure counter is too
  narrow.

  \<^bold>\<open>Bounds.\<close> The benchmark warms up with exactly 1000 opens; its counted loop terminates because the
  counter stays below the 64-bit bound. A load and an open are single steps of \<open>sys_step\<close> and a
  request is one of \<open>session_step\<close>; the interleavings inside a load, and of several loads, are those of
  \<open>conc_step\<close> and, with the connections, of \<open>live_step\<close>, where a libbpf call is one step; the hook's lookups
  are single steps of \<open>hook_step\<close>. In \<open>stop_step\<close> the consumer writes an event in one step and the poller
  takes a record in one; once the poller is told to stop, a shutdown has at most \<open>stop_work\<close> steps and one more
  for each event submitted meanwhile. In \<open>session_step\<close> a writer thread's \<open>send\<close> is one step, and a test of
  \<open>running_\<close> is one step with the \<open>poll\<close> and \<open>recv\<close> after it. The value that a rule lookup points to is
  read with the lookup: the kernel may reuse a deleted entry before the hook has read it, which is
  not modelled. Every number of threads is allowed. In all step relations the paths' identities do not
  change during a run.

  \<^bold>\<open>Not modelled.\<close> The helpers of libbpf and the kernel, the JSON library and the socket calls are
  parameters. The memory model below sequential consistency, a peer that reads its replies slowly
  (the bytes handed to \<open>send\<close> count as sent), numbers in a document that the JSON library refuses
  as out of range, stream buffering, and the layout of C structures beyond the event's size
  are left out, as are the benchmark's floating-point figures, whose printed texts are parameters;
  where a C++ operation is undefined (an out-of-range \<open>atoi\<close>, time overflow, the counter's overflow) the model
  picks the arithmetic value.
\<close>

section \<open>Properties across components\<close>

text \<open>C1. From the policy document to the kernel: once a document is parsed and loaded on the Linux
  backend, the hook answers any open of a resolvable path by a process with a resolvable executable
  by the policy read for files: 0 if no protected path names the opened file or if the first rule
  whose paths name the file and the executable says ALLOW, \<open>-EACCES\<close> otherwise. If the policy's default is DENY
  and no two of the paths (those of the policy, the opened one and the executable's) name one file,
  this answer is the decision of the userspace engine on the paths. Without these two conditions the
  engine can decide otherwise (\<open>default_allow_diverges\<close>, \<open>hard_links_diverge\<close>).\<close>

theorem enforcement_matches_engine:
  assumes "bpf_laws B" and "from_json L t = Returns (Inr p)"
    and "ct_enforcer c = Some e" and "load_policy (linux_ops B env) R (Some p) c = Some (Inr (), c')"
    and "resolves R path" and "resolves R exe"
    and "opened_id file = to_abi (resolved_id R path)" and "exe_id ctx = to_abi (resolved_id R exe)"
  shows "\<exists>e' ret. ct_enforcer c' = Some e' \<and> fst (fg_file_open (view_of B (snapshot (le_maps e'))) ctx file) = ret \<and>
    ret = (if file_allows R p path exe then 0 else - EACCES) \<and>
    (pol_default_action p = Deny \<and> separates R p path exe \<longrightarrow>
      ret = (if dec_action (evaluate p \<lparr>req_resource_path = path,
          req_process = \<lparr>pid_type = ExePath, pid_value = exe\<rparr>, req_operation = Open\<rparr>) = Allow
       then 0 else - EACCES))"
proof -
  from load_policy_installed [OF assms(1,3,4)] obtain cp e' where cp: "compile R p = Inr cp"
    and e': "ct_enforcer c' = Some e'" "view_of B (snapshot (le_maps e')) = installed_view cp" by blast
  note ex = from_json_expressible [OF assms(2)]
  then have "policy_wf p" by (simp add: expressible_def)
  with installed_decision [OF cp ex assms(5-8)] file_decision_path(1) [of p R path exe] e' show ?thesis by auto
qed

lemma small_separates:
  "separates demo_resolver small_policy ''/protected/secret.txt'' ''/usr/local/bin/backup-agent''"
  by (auto simp: separates_def inj_on_def policy_paths_def protected_paths_def small_policy_def
      sample_policy_def resolved_id_def demo_resolver_def)

lemma small_resolves:
  "resolves demo_resolver ''/protected/secret.txt''" "resolves demo_resolver ''/usr/local/bin/backup-agent''"
  by (simp_all add: resolves_def demo_resolver_def file_id_valid_def)

lemma small_ids:
  "opened_id (demo_file 100) = to_abi (resolved_id demo_resolver ''/protected/secret.txt'')"
  "exe_id (demo_ctx 300 0) = to_abi (resolved_id demo_resolver ''/usr/local/bin/backup-agent'')"
  by (simp_all add: demo_file_id demo_exe_id resolved_id_def demo_resolver_def to_abi_def demo_fid_def)

theorem enforcement_matches_engine_witness:
  "file_allows demo_resolver small_policy ''/protected/secret.txt'' ''/usr/local/bin/backup-agent'' \<and>
   fst (fg_file_open (view_of demo_sys (snapshot (le_maps (demo_enforcer' 300)))) (demo_ctx 300 0) (demo_file 100)) = 0"
proof -
  let ?path = "''/protected/secret.txt''" and ?exe = "''/usr/local/bin/backup-agent''"
  have d: "pol_default_action small_policy = Deny" by (simp add: small_policy_def sample_policy_def)
  have e: "ct_enforcer (controller_with demo_enforcer) = Some demo_enforcer" by (simp add: controller_with_def)
  have "dec_action (evaluate small_policy \<lparr>req_resource_path = ?path,
      req_process = \<lparr>pid_type = ExePath, pid_value = ?exe\<rparr>, req_operation = Open\<rparr>) = Allow"
    by (simp add: evaluate_def is_protected_def find_rule_def small_policy_def sample_policy_def Let_def)
  with enforcement_matches_engine [OF demo_sys_laws small_lib_parses e demo_load small_resolves small_ids] d small_separates
  show ?thesis by (auto simp: controller_with_def EACCES_def split: if_splits)
qed

text \<open>The kernel ignores the policy's default: with \<open>defaults.action\<close> ALLOW, an accepted policy
  makes the engine allow a process without a rule, and the kernel program deny it.\<close>

theorem default_allow_diverges:
  "let p = small_policy\<lparr>pol_default_action := Allow\<rparr> in
   validate p = Inr () \<and> compile demo_resolver p = Inr (demo_compiled 300) \<and>
   dec_action (evaluate p \<lparr>req_resource_path = ''/protected/secret.txt'',
     req_process = \<lparr>pid_type = ExePath, pid_value = ''/bin/cat''\<rparr>, req_operation = Open\<rparr>) = Allow \<and>
   fst (fg_file_open (installed_view (demo_compiled 300)) (demo_ctx 200 0) (demo_file 100)) = - EACCES"
proof -
  let ?p = "small_policy\<lparr>pol_default_action := Allow\<rparr>"
  have "validate ?p = Inr ()" by (simp add: small_policy_def sample_policy_def validate_def)
  moreover have "compile demo_resolver ?p = Inr (demo_compiled 300)"
    by (simp add: compile_def small_policy_def sample_policy_def validate_def demo_resolver_def
        demo_compiled_def file_id_valid_def)
  moreover have "dec_action (evaluate ?p \<lparr>req_resource_path = ''/protected/secret.txt'',
     req_process = \<lparr>pid_type = ExePath, pid_value = ''/bin/cat''\<rparr>, req_operation = Open\<rparr>) = Allow"
    by (simp add: evaluate_def is_protected_def find_rule_def small_policy_def sample_policy_def Let_def)
  moreover have "fst (fg_file_open (installed_view (demo_compiled 300)) (demo_ctx 200 0) (demo_file 100)) = - EACCES"
    by (simp add: fg_file_open_ret mediated_def fg_enabled_def demo_file_id demo_exe_id)
       (simp add: installed_view_def demo_compiled_def demo_fid_def to_abi_def rule_key_def)
  ultimately show ?thesis by (simp add: Let_def)
qed

definition link_resolver :: file_resolver where
  "link_resolver path = (if path = ''/bin/x'' then Inr (FileId 8 1 200) else Inr (FileId 8 1 100))"

definition link_policy :: policy where
  "link_policy = \<lparr>pol_version = 1, pol_default_action = Deny,
     pol_resources = [\<lparr>res_path = ''/a'', res_operation = None\<rparr>, \<lparr>res_path = ''/b'', res_operation = None\<rparr>],
     pol_rules = [\<lparr>rule_name = ''r1'', rule_resource = \<lparr>res_path = ''/a'', res_operation = None\<rparr>,
         rule_process = \<lparr>pid_type = ExePath, pid_value = ''/bin/x''\<rparr>, rule_operation = Open, rule_action = Deny\<rparr>,
       \<lparr>rule_name = ''r2'', rule_resource = \<lparr>res_path = ''/b'', res_operation = None\<rparr>,
         rule_process = \<lparr>pid_type = ExePath, pid_value = ''/bin/x''\<rparr>, rule_operation = Open, rule_action = Allow\<rparr>]\<rparr>"

text \<open>Hard links break the agreement: two paths of the policy that name one file are one key in
  the kernel's rules map, so the second rule is silently dropped and an access that the engine
  allows is denied.\<close>

theorem hard_links_diverge:
  "\<exists>cp. compile link_resolver link_policy = Inr cp \<and>
     dec_action (evaluate link_policy \<lparr>req_resource_path = ''/b'',
       req_process = \<lparr>pid_type = ExePath, pid_value = ''/bin/x''\<rparr>, req_operation = Open\<rparr>) = Allow \<and>
     fst (fg_file_open (installed_view cp) (demo_ctx 200 0) (demo_file 100)) = - EACCES"
proof -
  let ?cp = "\<lparr>cp_version = 1, cp_protected_resources = [FileId 8 1 100, FileId 8 1 100],
     cp_rules = [\<lparr>cr_rule_id = 1, cr_resource = FileId 8 1 100, cr_process = FileId 8 1 200,
         cr_operation = Open, cr_action = Deny\<rparr>,
       \<lparr>cr_rule_id = 2, cr_resource = FileId 8 1 100, cr_process = FileId 8 1 200,
         cr_operation = Open, cr_action = Allow\<rparr>]\<rparr>"
  have "compile link_resolver link_policy = Inr ?cp"
    by (simp add: compile_def link_policy_def validate_def link_resolver_def file_id_valid_def)
  moreover have "dec_action (evaluate link_policy \<lparr>req_resource_path = ''/b'',
       req_process = \<lparr>pid_type = ExePath, pid_value = ''/bin/x''\<rparr>, req_operation = Open\<rparr>) = Allow"
    by (simp add: evaluate_def is_protected_def find_rule_def link_policy_def Let_def)
  moreover have "fst (fg_file_open (installed_view ?cp) (demo_ctx 200 0) (demo_file 100)) = - EACCES"
    by (simp add: fg_file_open_ret mediated_def fg_enabled_def demo_file_id demo_exe_id)
       (simp add: installed_view_def demo_fid_def to_abi_def rule_key_def rule_val_def FG_ACTION_ALLOW_def)
  ultimately show ?thesis by blast
qed



end
